(* ===== verification/Prelude.thy ===== *)
theory Prelude imports Main "HOL-Library.Monad_Syntax" "HOL-Library.Word" begin

text \<open>
  What the components share: C strings and character buffers, the byte-wise comparison
  behind \<^verbatim>\<open>strcmp\<close> and \<^verbatim>\<open>memcmp\<close>, 64-bit wrap-around, joining with a separator, and
  generic facts on lists.

  A C string is the list of its characters before the terminating NUL. A pointer into a
  string is the suffix that starts there, so \<^verbatim>\<open>*p == 0\<close> is \<open>p = []\<close> and the distance of
  two pointers into one string is a difference of lengths. A NULL pointer is \<open>None\<close>. Where
  code writes into memory it has allocated, the memory is a \<open>buf\<close> and a write outside it is
  \<open>None\<close> (undefined behaviour in C), so that "the result is \<open>Some\<close>" says the code stays in
  its allocation.
\<close>

named_theorems cmem

section \<open>Characters, strings, buffers\<close>

type_synonym buf = "char list"
type_synonym blob = "8 word list"

abbreviation NUL :: char where "NUL \<equiv> CHR 0x00"
abbreviation SQUOTE :: char where "SQUOTE \<equiv> CHR 0x27"
abbreviation DQUOTE :: char where "DQUOTE \<equiv> CHR 0x22"

definition cstr :: "string \<Rightarrow> buf" where
  "cstr s = s @ [NUL]"

definition c_string :: "string \<Rightarrow> bool" where
  "c_string s \<longleftrightarrow> NUL \<notin> set s"

definition dq :: "string \<Rightarrow> string" where
  "dq s = DQUOTE # s @ [DQUOTE]"

definition sq :: "string \<Rightarrow> string" where
  "sq s = SQUOTE # s @ [SQUOTE]"

text \<open>The string a buffer holds: its characters up to the first NUL.\<close>

definition buf_str :: "buf \<Rightarrow> string" where
  "buf_str b = takeWhile (\<lambda>c. c \<noteq> NUL) b"

text \<open>Allocated memory has arbitrary contents \<open>g\<close>.\<close>

definition malloc_buf :: "(nat \<Rightarrow> char) \<Rightarrow> nat \<Rightarrow> buf" where
  "malloc_buf g n = map g [0..<n]"

text \<open>\<^verbatim>\<open>memcpy(dest + j, xs, length xs)\<close>; \<^verbatim>\<open>strcpy\<close> copies the terminating NUL too.\<close>

definition buf_put :: "buf \<Rightarrow> nat \<Rightarrow> char list \<Rightarrow> buf option" where
  "buf_put b j xs =
     (if j + length xs \<le> length b then Some (take j b @ xs @ drop (j + length xs) b) else None)"

definition strcpy_at :: "buf \<Rightarrow> nat \<Rightarrow> string \<Rightarrow> buf option" where
  "strcpy_at b j s = buf_put b j (cstr s)"

lemma length_cstr [simp]: "length (cstr s) = Suc (length s)"
  by (simp add: cstr_def)

lemma length_malloc_buf [simp]: "length (malloc_buf g n) = n"
  by (simp add: malloc_buf_def)

lemma buf_put_length [cmem]: "buf_put b j xs = Some b' \<Longrightarrow> length b' = length b"
  by (auto simp: buf_put_def split: if_splits)

lemma buf_put_defined [cmem]: "j + length xs \<le> length b \<Longrightarrow>
    buf_put b j xs = Some (take j b @ xs @ drop (j + length xs) b)"
  by (simp add: buf_put_def)

lemma buf_put_outside [cmem]: "length b < j + length xs \<Longrightarrow> buf_put b j xs = None"
  by (simp add: buf_put_def)

lemma buf_str_cstr [simp]: "c_string s \<Longrightarrow> buf_str (cstr s) = s"
  by (auto simp: buf_str_def cstr_def c_string_def takeWhile_append takeWhile_eq_all_conv)

lemma c_string_append [simp]: "c_string (s @ t) \<longleftrightarrow> c_string s \<and> c_string t"
  by (auto simp: c_string_def)

lemma c_string_Cons [simp]: "c_string (c # s) \<longleftrightarrow> c \<noteq> NUL \<and> c_string s"
  by (auto simp: c_string_def)

lemma c_string_Nil [simp]: "c_string []"
  by (simp add: c_string_def)

section \<open>Joining with a separator\<close>

fun join_sep :: "string \<Rightarrow> string list \<Rightarrow> string" where
  "join_sep d [] = []"
| "join_sep d [s] = s"
| "join_sep d (s # t # ts) = s @ d @ join_sep d (t # ts)"

lemma join_sep_Cons: "join_sep d (s # ts) = (if ts = [] then s else s @ d @ join_sep d ts)"
  by (cases ts) simp_all

lemma length_join_sep:
  "length (join_sep d ss) = sum_list (map length ss) + (length ss - 1) * length d"
  by (induction d ss rule: join_sep.induct) auto

lemma join_sep_empty: "join_sep [] ss = concat ss"
  by (induction "[] :: string" ss rule: join_sep.induct) auto

lemma c_string_join_sep:
  "c_string d \<Longrightarrow> (\<And>s. s \<in> set ss \<Longrightarrow> c_string s) \<Longrightarrow> c_string (join_sep d ss)"
  by (induction d ss rule: join_sep.induct) auto

section \<open>Byte-wise comparison\<close>

text \<open>
  The sign of \<^verbatim>\<open>strcmp\<close> and \<^verbatim>\<open>memcmp\<close>: unsigned bytes from the left; where one list is a
  prefix of the other the longer one is greater (for \<^verbatim>\<open>strcmp\<close> because the terminating NUL
  is below every other byte).
\<close>

fun lexcmp :: "('a \<Rightarrow> nat) \<Rightarrow> 'a list \<Rightarrow> 'a list \<Rightarrow> int" where
  "lexcmp k [] [] = 0"
| "lexcmp k [] (y # ys) = -1"
| "lexcmp k (x # xs) [] = 1"
| "lexcmp k (x # xs) (y # ys) =
     (if k x = k y then lexcmp k xs ys else if k x < k y then -1 else 1)"

definition strcmp :: "string \<Rightarrow> string \<Rightarrow> int" where
  "strcmp = lexcmp (of_char :: char \<Rightarrow> nat)"

definition memcmp :: "blob \<Rightarrow> blob \<Rightarrow> nat \<Rightarrow> int" where
  "memcmp xs ys n = lexcmp (unat :: 8 word \<Rightarrow> nat) (take n xs) (take n ys)"

locale byte_key =
  fixes key :: "'a \<Rightarrow> nat"
  assumes key_inj: "key x = key y \<Longrightarrow> x = y"
begin

lemma lexcmp_0_iff: "lexcmp key xs ys = 0 \<longleftrightarrow> xs = ys"
  by (induction xs ys rule: list_induct2') (auto dest: key_inj)

lemma lexcmp_swap: "lexcmp key ys xs = - lexcmp key xs ys"
  by (induction xs ys rule: list_induct2') auto

lemma lexcmp_trans: "lexcmp key xs ys < 0 \<Longrightarrow> lexcmp key ys zs < 0 \<Longrightarrow> lexcmp key xs zs < 0"
proof (induction xs ys arbitrary: zs rule: list_induct2')
  case (3 y ys)
  then show ?case by (cases zs) auto
next
  case (4 x xs y ys)
  then show ?case by (cases zs) (auto split: if_splits)
qed auto

lemma lexcmp_total: "lexcmp key xs ys < 0 \<or> xs = ys \<or> lexcmp key ys xs < 0"
  using lexcmp_0_iff [of xs ys] lexcmp_swap [of ys xs] by linarith

end

interpretation char_bytes: byte_key "of_char :: char \<Rightarrow> nat"
  by unfold_locales simp

interpretation word_bytes: byte_key "unat :: 8 word \<Rightarrow> nat"
  by unfold_locales (simp add: word_unat_eq_iff)

lemmas strcmp_0_iff = char_bytes.lexcmp_0_iff [folded strcmp_def]
lemmas strcmp_swap = char_bytes.lexcmp_swap [folded strcmp_def]
lemmas strcmp_trans = char_bytes.lexcmp_trans [folded strcmp_def]
lemmas strcmp_total = char_bytes.lexcmp_total [folded strcmp_def]

lemma strcmp_gt_iff: "strcmp s t > 0 \<longleftrightarrow> strcmp t s < 0"
  using strcmp_swap [of t s] by linarith

lemma strcmp_self [simp]: "strcmp s s = 0"
  by (simp add: strcmp_0_iff)

section \<open>Signed 64-bit arithmetic\<close>

definition wrap64 :: "int \<Rightarrow> int" where
  "wrap64 x = (x + 2 ^ 63) mod 2 ^ 64 - 2 ^ 63"

definition int64 :: "int \<Rightarrow> bool" where
  "int64 x \<longleftrightarrow> - (2 ^ 63) \<le> x \<and> x < 2 ^ 63"

lemma wrap64_int64 [simp]: "int64 x \<Longrightarrow> wrap64 x = x"
  by (simp add: wrap64_def int64_def)

lemma int64_wrap64 [simp]: "int64 (wrap64 x)"
  by (simp add: wrap64_def int64_def)

section \<open>Lists\<close>

lemma take_length_diff: "take (length (xs @ ys) - length ys) (xs @ ys) = xs"
  by simp

lemma find_append: "find P (xs @ ys) = (case find P xs of None \<Rightarrow> find P ys | Some x \<Rightarrow> Some x)"
  by (induction xs) auto

lemma find_map_key: "(\<And>x. P (f x) = P x) \<Longrightarrow> find P (map f xs) = map_option f (find P xs)"
  by (induction xs) auto

lemma find_filter_None: "(\<And>x. P x \<Longrightarrow> \<not> Q x) \<Longrightarrow> find P (filter Q xs) = None"
  by (induction xs) auto

lemma find_filter_same: "(\<And>x. P x \<Longrightarrow> Q x) \<Longrightarrow> find P (filter Q xs) = find P xs"
  by (induction xs) auto

lemma those_map_Some [simp]: "those (map Some xs) = Some xs"
  by (induction xs) auto

lemma those_map_inverse: "(\<And>x. x \<in> set xs \<Longrightarrow> f (g x) = Some x) \<Longrightarrow> those (map (f \<circ> g) xs) = Some xs"
  by (induction xs) auto

end
