(* ===== verification/Sqlite_Base.thy ===== *)
theory Sqlite_Base imports Prelude begin

text \<open>
  What the extension uses of SQLite's C interface and of the SQL language's values: result
  codes and type codes (\<^verbatim>\<open>core/src/sqlite/sqlite3.h\<close>), the \<^verbatim>\<open>%s %Q %w %lld\<close> conversions of
  \<^verbatim>\<open>sqlite3_mprintf\<close>, dynamically typed values, and the \<^verbatim>\<open>quote()\<close> function
  (\<^verbatim>\<open>core/src/sqlite/sqlite3.c\<close>), with the evaluation of the literals \<^verbatim>\<open>quote()\<close> prints.

  A floating point value is represented by the decimal text that \<^verbatim>\<open>quote()\<close> prints for it
  (sign, integer digits, fraction digits, exponent), because that text is all the extension
  ever looks at. The lemma \<open>eval_lit_quote\<close> is the contract the replication code rests on:
  the text \<^verbatim>\<open>quote()\<close> prints is a literal that evaluates back to the value, for every value
  but an infinity.
\<close>

section \<open>Result codes\<close>

abbreviation (input) SQLITE_OK :: int where "SQLITE_OK \<equiv> 0"
abbreviation (input) SQLITE_ERROR :: int where "SQLITE_ERROR \<equiv> 1"
abbreviation (input) SQLITE_ABORT :: int where "SQLITE_ABORT \<equiv> 4"
abbreviation (input) SQLITE_NOMEM :: int where "SQLITE_NOMEM \<equiv> 7"
abbreviation (input) SQLITE_CONSTRAINT :: int where "SQLITE_CONSTRAINT \<equiv> 19"
abbreviation (input) SQLITE_MISUSE :: int where "SQLITE_MISUSE \<equiv> 21"
abbreviation (input) SQLITE_ROW :: int where "SQLITE_ROW \<equiv> 100"
abbreviation (input) SQLITE_DONE :: int where "SQLITE_DONE \<equiv> 101"

section \<open>Decimal text of integers\<close>

definition is_digit :: "char \<Rightarrow> bool" where
  "is_digit c \<longleftrightarrow> 48 \<le> (of_char c :: nat) \<and> (of_char c :: nat) \<le> 57"

definition digit_char :: "nat \<Rightarrow> char" where
  "digit_char d = char_of (48 + d)"

fun show_nat :: "nat \<Rightarrow> string" where
  "show_nat n = (if n < 10 then [digit_char n] else show_nat (n div 10) @ [digit_char (n mod 10)])"

declare show_nat.simps [simp del]

definition show_int :: "int \<Rightarrow> string" where
  "show_int i = (if i < 0 then CHR ''-'' # show_nat (nat (- i)) else show_nat (nat i))"

definition read_nat :: "string \<Rightarrow> nat" where
  "read_nat s = foldl (\<lambda>n c. 10 * n + (of_char c - 48)) 0 s"

lemma of_char_digit_char: "d < 10 \<Longrightarrow> (of_char (digit_char d) :: nat) = 48 + d"
  by (simp add: digit_char_def)

lemma is_digit_digit_char: "d < 10 \<Longrightarrow> is_digit (digit_char d)"
  by (simp add: is_digit_def of_char_digit_char)

lemma show_nat_digits: "c \<in> set (show_nat n) \<Longrightarrow> is_digit c"
proof (induction n rule: show_nat.induct)
  case (1 n)
  then show ?case
    by (subst (asm) (2) show_nat.simps) (auto simp: is_digit_digit_char split: if_splits)
qed

lemma show_nat_nonempty [simp]: "show_nat n \<noteq> []"
  by (subst show_nat.simps) simp

lemma read_nat_show_nat [simp]: "read_nat (show_nat n) = n"
proof (induction n rule: show_nat.induct)
  case (1 n)
  show ?case
  proof (cases "n < 10")
    case True
    then show ?thesis by (subst show_nat.simps) (simp add: read_nat_def of_char_digit_char)
  next
    case False
    with 1 have "read_nat (show_nat (n div 10)) = n div 10" by simp
    with False show ?thesis
      by (subst show_nat.simps) (simp add: read_nat_def of_char_digit_char)
  qed
qed

section \<open>The printf conversions\<close>

text \<open>
  \<open>sqlite_escape\<close> is the \<^verbatim>\<open>%q %Q %w\<close> branch of \<^verbatim>\<open>sqlite3_str_vappendf\<close>: the quote character
  is doubled, \<^verbatim>\<open>%Q\<close> adds surrounding quotes unless the argument is NULL.
\<close>

datatype escape = EscLowerQ | EscQ | EscW

definition escape_char :: "escape \<Rightarrow> char" where
  "escape_char x = (if x = EscW then DQUOTE else SQUOTE)"

fun double_char :: "char \<Rightarrow> string \<Rightarrow> string" where
  "double_char q [] = []"
| "double_char q (c # cs) = (if c = q then c # c # double_char q cs else c # double_char q cs)"

definition sqlite_escape :: "escape \<Rightarrow> string option \<Rightarrow> string" where
  "sqlite_escape x arg =
     (let q = escape_char x;
          isnull = (arg = None);
          escarg = (case arg of None \<Rightarrow> (if x = EscQ then ''NULL'' else ''(NULL)'') | Some s \<Rightarrow> s);
          needQuote = (\<not> isnull \<and> x = EscQ);
          body = double_char q escarg
      in if needQuote then q # body @ [q] else body)"

definition fmt_Q :: "string \<Rightarrow> string" where
  "fmt_Q s = sqlite_escape EscQ (Some s)"

definition fmt_w :: "string \<Rightarrow> string" where
  "fmt_w s = sqlite_escape EscW (Some s)"

definition fmt_s :: "string option \<Rightarrow> string" where
  "fmt_s arg = (case arg of None \<Rightarrow> [] | Some s \<Rightarrow> s)"

lemma fmt_Q_eq: "fmt_Q s = sq (double_char SQUOTE s)"
  by (simp add: fmt_Q_def sqlite_escape_def escape_char_def sq_def Let_def)

lemma fmt_w_eq: "fmt_w s = double_char DQUOTE s"
  by (simp add: fmt_w_def sqlite_escape_def escape_char_def Let_def)

lemma double_char_id: "q \<notin> set s \<Longrightarrow> double_char q s = s"
  by (induction s) auto

lemma set_double_char [simp]: "set (double_char q s) = set s"
  by (induction s) auto

lemma c_string_double_char [simp]: "c_string (double_char q s) = c_string s"
  by (simp add: c_string_def)

section \<open>Values and their literals\<close>

datatype fnum = Fin bool string string "(bool \<times> string) option" | Infinite bool

datatype sqlval = VNull | VInt int | VReal fnum | VText string | VBlob blob

definition digits :: "string \<Rightarrow> bool" where
  "digits s \<longleftrightarrow> s \<noteq> [] \<and> list_all is_digit s"

fun wf_fnum :: "fnum \<Rightarrow> bool" where
  "wf_fnum (Fin neg ip fp ex) =
     (digits ip \<and> digits fp \<and> (case ex of None \<Rightarrow> True | Some (_, ds) \<Rightarrow> digits ds))"
| "wf_fnum (Infinite neg) = True"

fun wf_val :: "sqlval \<Rightarrow> bool" where
  "wf_val VNull = True"
| "wf_val (VInt i) = int64 i"
| "wf_val (VReal r) = wf_fnum r"
| "wf_val (VText s) = c_string s"
| "wf_val (VBlob b) = True"

fun finite_val :: "sqlval \<Rightarrow> bool" where
  "finite_val (VReal (Infinite neg)) = False"
| "finite_val v = True"

definition sign_text :: "bool \<Rightarrow> string" where
  "sign_text neg = (if neg then ''-'' else [])"

fun fnum_text :: "fnum \<Rightarrow> string" where
  "fnum_text (Fin neg ip fp ex) =
     sign_text neg @ ip @ ''.'' @ fp @
     (case ex of None \<Rightarrow> [] | Some (eneg, ds) \<Rightarrow> ''e'' @ (if eneg then ''-'' else ''+'') @ ds)"
| "fnum_text (Infinite neg) = sign_text neg @ ''Inf''"

definition hexdigit :: "nat \<Rightarrow> char" where
  "hexdigit n = (if n < 10 then char_of (48 + n) else char_of (55 + n))"

definition hex_byte :: "8 word \<Rightarrow> string" where
  "hex_byte b = [hexdigit (unat (drop_bit 4 b)), hexdigit (unat (take_bit 4 b))]"

fun sqlite3QuoteValue :: "sqlval \<Rightarrow> string" where
  "sqlite3QuoteValue (VReal r) = fnum_text r"
| "sqlite3QuoteValue (VInt i) = show_int i"
| "sqlite3QuoteValue (VBlob b) = CHR ''X'' # sq (concat (map hex_byte b))"
| "sqlite3QuoteValue (VText s) = fmt_Q s"
| "sqlite3QuoteValue VNull = ''NULL''"

abbreviation quote_val :: "sqlval \<Rightarrow> string" where
  "quote_val \<equiv> sqlite3QuoteValue"


section \<open>Evaluating literals\<close>

text \<open>
  \<open>eval_lit\<close> evaluates the literals of the forms \<^verbatim>\<open>quote()\<close> prints. Other SQL expressions,
  and number literals that \<^verbatim>\<open>quote()\<close> never prints (\<^verbatim>\<open>1e5\<close>, \<^verbatim>\<open>.5\<close>), are outside the modelled
  fragment: \<open>None\<close>.
\<close>

fun unquote :: "string \<Rightarrow> string option" where
  "unquote [] = None"
| "unquote (c # cs) =
     (if c = SQUOTE
      then (case cs of [] \<Rightarrow> Some []
            | d # ds \<Rightarrow> if d = SQUOTE then map_option ((#) SQUOTE) (unquote ds) else None)
      else map_option ((#) c) (unquote cs))"

definition hexval :: "char \<Rightarrow> nat option" where
  "hexval c = (let n = (of_char c :: nat) in
     if 48 \<le> n \<and> n \<le> 57 then Some (n - 48)
     else if 65 \<le> n \<and> n \<le> 70 then Some (n - 55)
     else if 97 \<le> n \<and> n \<le> 102 then Some (n - 87) else None)"

fun unhex :: "string \<Rightarrow> blob option" where
  "unhex [c] = (if c = SQUOTE then Some [] else None)"
| "unhex (a # b # cs) =
     (case (hexval a, hexval b) of
        (Some h, Some l) \<Rightarrow> map_option ((#) (word_of_nat (16 * h + l))) (unhex cs)
      | _ \<Rightarrow> None)"
| "unhex _ = None"

definition split_sign :: "string \<Rightarrow> bool \<times> string" where
  "split_sign s = (case s of [] \<Rightarrow> (False, []) | c # cs \<Rightarrow> if c = CHR ''-'' then (True, cs) else (False, s))"

definition eval_num :: "string \<Rightarrow> sqlval option" where
  "eval_num s =
     (let (neg, u) = split_sign s; ip = takeWhile is_digit u; r = dropWhile is_digit u in
      if ip = [] then None
      else case r of
        [] \<Rightarrow> (let i = (if neg then - int (read_nat ip) else int (read_nat ip))
               in if int64 i then Some (VInt i) else None)
      | c # r1 \<Rightarrow>
          (let fp = takeWhile is_digit r1; r2 = dropWhile is_digit r1 in
           if c \<noteq> CHR ''.'' \<or> fp = [] then None
           else case r2 of
             [] \<Rightarrow> Some (VReal (Fin neg ip fp None))
           | e # sg # ds \<Rightarrow>
               (if e = CHR ''e'' \<and> sg \<in> {CHR ''-'', CHR ''+''} \<and> digits ds
                then Some (VReal (Fin neg ip fp (Some (sg = CHR ''-'', ds)))) else None)
           | _ \<Rightarrow> None))"

definition eval_lit :: "string \<Rightarrow> sqlval option" where
  "eval_lit s =
     (if s = ''NULL'' then Some VNull
      else case s of
        [] \<Rightarrow> None
      | c # cs \<Rightarrow>
          (if c = SQUOTE then map_option VText (unquote cs)
           else if c = CHR ''X'' then
             (case cs of [] \<Rightarrow> None
              | d # ds \<Rightarrow> if d = SQUOTE then map_option VBlob (unhex ds) else None)
           else eval_num s))"

lemma unquote_double: "unquote (double_char SQUOTE s @ [SQUOTE]) = Some s"
  by (induction s) auto

lemma unat_nibbles: "16 * unat (drop_bit 4 b) + unat (take_bit 4 b) = unat (b :: 8 word)"
  by (simp add: drop_bit_eq_div take_bit_eq_mod unat_div unat_mod)

lemma hexval_hexdigit: "n < 16 \<Longrightarrow> hexval (hexdigit n) = Some n"
  by (auto simp: hexval_def hexdigit_def Let_def)

lemma unat_high_nibble: "unat (drop_bit 4 (b :: 8 word)) < 16"
proof -
  have "unat b < 2 ^ LENGTH(8)" by (rule unsigned_less)
  then show ?thesis by (simp add: drop_bit_eq_div unat_div)
qed

lemma unat_low_nibble: "unat (take_bit 4 (b :: 8 word)) < 16"
  by (simp add: take_bit_eq_mod unat_mod)

lemma unhex_hex: "unhex (concat (map hex_byte b) @ [SQUOTE]) = Some b"
proof (induction b)
  case (Cons a b)
  have "word_of_nat (16 * unat (drop_bit 4 a) + unat (take_bit 4 a)) = a"
    by (simp only: unat_nibbles) simp
  with Cons show ?case
    by (simp add: hex_byte_def hexval_hexdigit unat_high_nibble unat_low_nibble)
qed simp

lemma takeWhile_digits_append:
  "list_all is_digit xs \<Longrightarrow> takeWhile is_digit (xs @ ys) = xs @ takeWhile is_digit ys"
  by (simp add: list_all_iff takeWhile_append)

lemma dropWhile_digits_append:
  "list_all is_digit xs \<Longrightarrow> dropWhile is_digit (xs @ ys) = dropWhile is_digit ys"
  by (simp add: list_all_iff dropWhile_append)

lemmas digit_span = takeWhile_digits_append dropWhile_digits_append

lemma digit_span_all [simp]:
  "list_all is_digit xs \<Longrightarrow> takeWhile is_digit xs = xs"
  "list_all is_digit xs \<Longrightarrow> dropWhile is_digit xs = []"
  using digit_span [of xs "[]"] by simp_all

lemma not_digits [simp]: "\<not> is_digit (CHR ''-'')" "\<not> is_digit (CHR ''.'')" "\<not> is_digit (CHR ''e'')"
  "\<not> is_digit (CHR ''N'')" "\<not> is_digit (CHR ''X'')" "\<not> is_digit (CHR 0x27)" "\<not> is_digit (CHR ''|'')"
  by (simp_all add: is_digit_def)

lemma digits_head: "digits s \<Longrightarrow> \<exists>c cs. s = c # cs \<and> is_digit c \<and> list_all is_digit cs"
  by (cases s) (auto simp: digits_def)

lemma list_all_show_nat [simp]: "list_all is_digit (show_nat n)"
  by (auto simp: list_all_iff dest: show_nat_digits)

lemma digits_show_nat [simp]: "digits (show_nat n)"
  by (auto simp: digits_def list_all_iff dest: show_nat_digits)

lemma split_sign_digits: "digits ip \<Longrightarrow> split_sign (sign_text neg @ ip @ t) = (neg, ip @ t)"
  by (auto simp: split_sign_def sign_text_def dest!: digits_head)

lemma eval_num_int: "int64 i \<Longrightarrow> eval_num (show_int i) = Some (VInt i)"
proof -
  assume i: "int64 i"
  have "show_int i = sign_text (i < 0) @ show_nat (nat \<bar>i\<bar>) @ []"
    by (auto simp: show_int_def sign_text_def)
  then show ?thesis
    using i split_sign_digits [OF digits_show_nat, of "i < 0" "nat \<bar>i\<bar>" "[]"]
    by (auto simp: eval_num_def Let_def)
qed

lemma eval_num_real:
  assumes "wf_fnum (Fin neg ip fp ex)"
  shows "eval_num (fnum_text (Fin neg ip fp ex)) = Some (VReal (Fin neg ip fp ex))"
  using assms
  by (cases ex) (auto simp: eval_num_def split_sign_digits Let_def digit_span digits_def)

lemma eval_lit_number:
  assumes "digits ip"
  shows "eval_lit (sign_text neg @ ip @ t) = eval_num (sign_text neg @ ip @ t)"
  using assms
  by (auto simp: eval_lit_def sign_text_def dest!: digits_head)

text \<open>The text \<^verbatim>\<open>quote()\<close> prints evaluates back to the value.\<close>

lemma eval_lit_quote:
  assumes "wf_val v" and "finite_val v"
  shows "eval_lit (quote_val v) = Some v"
proof (cases v)
  case VNull
  then show ?thesis by (simp add: eval_lit_def)
next
  case (VInt i)
  have "show_int i = sign_text (i < 0) @ show_nat (nat \<bar>i\<bar>) @ []"
    by (auto simp: show_int_def sign_text_def)
  then have "eval_lit (show_int i) = eval_num (show_int i)"
    using eval_lit_number [OF digits_show_nat] by metis
  with VInt assms show ?thesis by (simp add: eval_num_int)
next
  case (VReal r)
  show ?thesis
  proof (cases r)
    case (Fin neg ip fp ex)
    then have "digits ip" using VReal assms by simp
    then have "eval_lit (fnum_text r) = eval_num (fnum_text r)"
      unfolding Fin fnum_text.simps by (rule eval_lit_number)
    with VReal Fin assms show ?thesis by (simp only: sqlite3QuoteValue.simps eval_num_real wf_val.simps)
  next
    case (Infinite neg)
    with VReal assms show ?thesis by simp
  qed
next
  case (VText s)
  then show ?thesis by (simp add: eval_lit_def fmt_Q_eq sq_def unquote_double)
next
  case (VBlob b)
  then show ?thesis by (simp add: eval_lit_def sq_def unhex_hex)
qed

lemma quote_val_inject:
  "wf_val v \<Longrightarrow> finite_val v \<Longrightarrow> wf_val w \<Longrightarrow> finite_val w \<Longrightarrow> quote_val v = quote_val w \<Longrightarrow> v = w"
  using eval_lit_quote by (metis option.inject)

lemma c_string_digits: "digits s \<Longrightarrow> c_string s"
  by (auto simp: digits_def c_string_def list_all_iff is_digit_def)

lemma c_string_sign_text [simp]: "c_string (sign_text neg)"
  by (simp add: sign_text_def)

lemma c_string_show_int: "c_string (show_int i)"
  by (simp add: show_int_def c_string_digits)

lemma c_string_fnum_text: "wf_fnum r \<Longrightarrow> c_string (fnum_text r)"
  by (cases r) (auto simp: c_string_digits split: option.splits)

lemma hexdigit_not_NUL: "n < 16 \<Longrightarrow> hexdigit n \<noteq> NUL"
  by (auto simp: hexdigit_def dest!: arg_cong [where f = "of_char :: char \<Rightarrow> nat"])

lemma hexdigit_not_quote: "n < 16 \<Longrightarrow> hexdigit n \<noteq> SQUOTE" "n < 16 \<Longrightarrow> SQUOTE \<noteq> hexdigit n"
  by (auto simp: hexdigit_def dest!: arg_cong [where f = "of_char :: char \<Rightarrow> nat"])

lemma c_string_hex: "c_string (concat (map hex_byte b))"
  by (induction b) (auto simp: hex_byte_def hexdigit_not_NUL unat_high_nibble unat_low_nibble)

lemma c_string_quote_val: "wf_val v \<Longrightarrow> c_string (quote_val v)"
  by (cases v) (auto simp: c_string_digits c_string_show_int c_string_fnum_text fmt_Q_eq sq_def
      c_string_hex)

end
