(* ===== verification/Util.thy ===== *)
theory Util imports Sqlite_Base begin

text \<open>
  The string and buffer routines of \<^verbatim>\<open>core/src/util.c\<close>: copies, joins, identifier lists, the
  query over all clock tables, and the comparison of site ids.

  The joins are modelled at the level of memory: a result \<open>None\<close> is a write outside the
  allocation or an overflow of the \<^verbatim>\<open>int\<close> that counts characters. Each is then shown to
  compute the string \<open>join_sep\<close> gives, and the components that build SQL text use that
  string.
\<close>

section \<open>Copies\<close>

definition strlen :: "buf \<Rightarrow> nat option" where
  "strlen b = (if NUL \<in> set b then Some (length (buf_str b)) else None)"

definition memchr :: "buf \<Rightarrow> char \<Rightarrow> nat \<Rightarrow> nat option" where
  "memchr b c n =
     (let k = length (takeWhile (\<lambda>x. x \<noteq> c) (take n b))
      in if k < length (take n b) then Some k else None)"

definition crsql_strnlen :: "buf \<Rightarrow> nat \<Rightarrow> nat" where
  "crsql_strnlen s n = (case memchr s NUL n of Some p \<Rightarrow> p | None \<Rightarrow> n)"

text \<open>\<open>ok\<close> says whether \<^verbatim>\<open>sqlite3_malloc\<close> succeeds; the inner \<open>None\<close> is a NULL result.\<close>

definition crsql_strndup :: "bool \<Rightarrow> (nat \<Rightarrow> char) \<Rightarrow> buf \<Rightarrow> nat \<Rightarrow> buf option option" where
  "crsql_strndup ok g s n =
     (let l = crsql_strnlen s n in
      if \<not> ok then Some None
      else if length s < l then None
      else do {
        d \<leftarrow> buf_put (malloc_buf g (l + 1)) 0 (take l s);
        d \<leftarrow> buf_put d l [NUL];
        Some (Some d)
      })"

definition crsql_strdup :: "bool \<Rightarrow> (nat \<Rightarrow> char) \<Rightarrow> buf \<Rightarrow> buf option option" where
  "crsql_strdup ok g s = do {
     l \<leftarrow> strlen s;
     if \<not> ok then Some None
     else do {
       d \<leftarrow> buf_put (malloc_buf g (l + 1)) 0 (take (l + 1) s);
       Some (Some d)
     }
   }"

lemma takeWhile_cstr_take:
  "c_string s \<Longrightarrow> takeWhile (\<lambda>x. x \<noteq> NUL) (take n (cstr s)) = take n s"
proof -
  assume s: "c_string s"
  then have all: "takeWhile (\<lambda>x. x \<noteq> NUL) (take n s @ ys) = take n s @ takeWhile (\<lambda>x. x \<noteq> NUL) ys" for ys
    by (intro takeWhile_append2) (auto simp: c_string_def dest: in_set_takeD)
  show ?thesis
    by (cases "n - length s") (use all [of "[]"] all [of "[NUL]"] in \<open>simp_all add: cstr_def\<close>)
qed

lemma crsql_strnlen_cstr: "c_string s \<Longrightarrow> crsql_strnlen (cstr s) n = min (length s) n"
  by (simp add: crsql_strnlen_def memchr_def Let_def takeWhile_cstr_take min_def)

lemma crsql_strndup_cstr:
  "c_string s \<Longrightarrow> crsql_strndup True g (cstr s) n = Some (Some (cstr (take n s)))"
proof -
  assume s: "c_string s"
  have "take (min (length s) n) (cstr s) = take n s"
    by (simp add: cstr_def min_def)
  with s show ?thesis
    by (simp add: crsql_strndup_def crsql_strnlen_cstr buf_put_def) (simp add: cstr_def min_def)
qed

lemma crsql_strdup_cstr: "c_string s \<Longrightarrow> crsql_strdup True g (cstr s) = Some (Some (cstr s))"
  by (simp add: crsql_strdup_def strlen_def buf_put_def) (simp add: cstr_def)

section \<open>Joins\<close>

definition int_ok :: "nat \<Rightarrow> bool" where
  "int_ok n \<longleftrightarrow> n \<le> 2147483647"

text \<open>\<^verbatim>\<open>joinHelper\<close> returns a pointer into the buffer that its innermost call allocates: the
  buffer and the offset.\<close>

fun joinHelper :: "(nat \<Rightarrow> char) \<Rightarrow> string list \<Rightarrow> nat \<Rightarrow> (buf \<times> nat) option" where
  "joinHelper g [] accum = do {
     b \<leftarrow> strcpy_at (malloc_buf g (accum + 1)) accum [];
     Some (b, accum)
   }"
| "joinHelper g (s # ss) accum = do {
     (b, p) \<leftarrow> joinHelper g ss (accum + length s);
     if p < length s then None
     else do {
       b \<leftarrow> buf_put b (p - length s) s;
       Some (b, p - length s)
     }
   }"

definition crsql_join :: "(nat \<Rightarrow> char) \<Rightarrow> string list \<Rightarrow> (buf \<times> nat) option" where
  "crsql_join g ss = joinHelper g ss 0"

text \<open>\<open>j\<close> is the offset the next string is copied to.\<close>

fun joinWith_loop :: "buf \<Rightarrow> nat \<Rightarrow> string list \<Rightarrow> char \<Rightarrow> buf option" where
  "joinWith_loop dest j [] delim = Some dest"
| "joinWith_loop dest j (s # ss) delim = do {
     dest \<leftarrow> strcpy_at dest j s;
     let j = j + length s;
     if ss \<noteq> [] then do {
       dest \<leftarrow> buf_put dest j [delim];
       joinWith_loop dest (j + 1) ss delim
     } else joinWith_loop dest j ss delim
   }"

definition crsql_joinWith :: "buf \<Rightarrow> string list \<Rightarrow> char \<Rightarrow> buf option" where
  "crsql_joinWith dest src delim = joinWith_loop dest 0 src delim"

fun join2_loop :: "buf \<Rightarrow> nat \<Rightarrow> string list \<Rightarrow> string \<Rightarrow> buf option" where
  "join2_loop ret j [] delim = Some ret"
| "join2_loop ret j (s # ss) delim = do {
     ret \<leftarrow> strcpy_at ret j s;
     let j = j + length s;
     if ss \<noteq> [] then do {
       ret \<leftarrow> strcpy_at ret j delim;
       join2_loop ret (j + length delim) ss delim
     } else join2_loop ret j ss delim
   }"

definition crsql_join2 ::
  "(nat \<Rightarrow> char) \<Rightarrow> (string \<Rightarrow> string) \<Rightarrow> string list \<Rightarrow> string \<Rightarrow> buf option option" where
  "crsql_join2 g f ins delim =
     (if ins = [] then Some None
      else let toJoin = map f ins;
               resultLen = sum_list (map length toJoin) + (length ins - 1) * length delim
      in if \<not> int_ok (resultLen + 1) then None
      else do {
        ret \<leftarrow> buf_put (malloc_buf g (resultLen + 1)) resultLen [NUL];
        ret \<leftarrow> join2_loop ret 0 toJoin delim;
        Some (Some ret)
      })"

definition crsql_identity :: "string \<Rightarrow> string" where
  "crsql_identity x = x"

lemma joinHelper_eq:
  "\<exists>b. joinHelper g ss accum = Some (b, accum) \<and> length b = accum + length (concat ss) + 1 \<and>
       drop accum b = cstr (concat ss)"
proof (induction ss arbitrary: accum)
  case Nil
  then show ?case by (simp add: strcpy_at_def buf_put_def)
next
  case (Cons s ss)
  from Cons.IH [of "accum + length s"] obtain b where
    b: "joinHelper g ss (accum + length s) = Some (b, accum + length s)"
      "length b = accum + length s + length (concat ss) + 1"
      "drop (accum + length s) b = cstr (concat ss)"
    by auto
  then show ?case by (simp add: buf_put_def cstr_def)
qed

lemma crsql_join_eq: "crsql_join g ss = Some (cstr (concat ss), 0)"
  using joinHelper_eq [of g ss 0] by (auto simp: crsql_join_def)

lemma joinWith_loop_eq:
  "ss \<noteq> [] \<Longrightarrow> joinWith_loop b j ss d =
     (let s = join_sep [d] ss in
      if j + length s + 1 \<le> length b
      then Some (take j b @ cstr s @ drop (j + length s + 1) b) else None)"
proof (induction ss arbitrary: b j)
  case (Cons s ss)
  show ?case
  proof (cases "ss = []")
    case True
    then show ?thesis by (simp add: strcpy_at_def buf_put_def)
  next
    case False
    then show ?thesis
      by (auto simp: strcpy_at_def buf_put_def Cons.IH join_sep_Cons Let_def cstr_def min_def ac_simps
          split: bind_splits)
  qed
qed simp

lemma join2_loop_eq:
  "ss \<noteq> [] \<Longrightarrow> j + length (join_sep d ss) + 1 \<le> length b \<Longrightarrow> join2_loop b j ss d =
     Some (take j b @ cstr (join_sep d ss) @ drop (j + length (join_sep d ss) + 1) b)"
proof (induction ss arbitrary: b j)
  case (Cons s ss)
  show ?case
  proof (cases "ss = []")
    case True
    with Cons.prems show ?thesis by (simp add: strcpy_at_def buf_put_def)
  next
    case False
    with Cons.prems show ?thesis
      by (auto simp: strcpy_at_def buf_put_def Cons.IH join_sep_Cons Let_def cstr_def min_def ac_simps)
  qed
qed simp

lemma length_join_sep_map:
  "length (join_sep d (map f ins)) =
     sum_list (map length (map f ins)) + (length ins - 1) * length d"
  by (simp only: length_join_sep length_map)

text \<open>\<^verbatim>\<open>crsql_join2\<close> writes only inside the buffer it sized beforehand and returns the
  mapped strings joined by the delimiter, as long as the result's length fits an \<^verbatim>\<open>int\<close>.\<close>

theorem join2_result:
  assumes "ins \<noteq> []" and "int_ok (length (join_sep delim (map f ins)) + 1)"
  shows "crsql_join2 g f ins delim = Some (Some (cstr (join_sep delim (map f ins))))"
proof -
  define n where "n = length (join_sep delim (map f ins))"
  have "n = sum_list (map length (map f ins)) + (length ins - 1) * length delim"
    unfolding n_def by (rule length_join_sep_map)
  moreover obtain b where b: "buf_put (malloc_buf g (n + 1)) n [NUL] = Some b"
    by (simp add: buf_put_def)
  moreover have "length b = n + 1" using b by (auto dest: buf_put_length)
  ultimately show ?thesis
    using assms by (simp add: crsql_join2_def join2_loop_eq Let_def n_def [symmetric])
qed

theorem join2_result_witness:
  "crsql_join2 (\<lambda>_. CHR ''?'') (\<lambda>s. ''foo '' @ s @ '' bar'') [''one'', ''two''] '', '' =
     Some (Some (cstr ''foo one bar, foo two bar''))"
  using join2_result [of "[''one'', ''two'']" "'', ''" "\<lambda>s. ''foo '' @ s @ '' bar''" "\<lambda>_. CHR ''?''"]
  by (simp add: int_ok_def)

text \<open>\<^verbatim>\<open>crsql_joinWith\<close> stays inside the caller's buffer exactly when the joined string and
  its terminating NUL fit in it; it then writes that string at the start and leaves the rest of
  the buffer as it was.\<close>

theorem joinWith_fits:
  "crsql_joinWith dest src delim =
     (if src = [] then Some dest
      else let s = join_sep [delim] src in
           if length s + 1 \<le> length dest then Some (cstr s @ drop (length s + 1) dest) else None)"
  by (cases "src = []") (simp_all add: crsql_joinWith_def joinWith_loop_eq Let_def)

section \<open>Lists of identifiers and the query over the clock tables\<close>

text \<open>An empty list makes \<^verbatim>\<open>finalLen\<close> -1 and the write of the NUL lands before the buffer.\<close>

definition crsql_asIdentifierListStr ::
  "(nat \<Rightarrow> char) \<Rightarrow> string list \<Rightarrow> char \<Rightarrow> buf option" where
  "crsql_asIdentifierListStr g ins delim =
     (let mapped = map (\<lambda>s. dq (fmt_w s)) ins;
          total = sum_list (map length mapped)
      in if ins = [] then None
      else let finalLen = total + (length ins - 1) in
        if \<not> int_ok (finalLen + 1) then None
        else do {
          ret \<leftarrow> buf_put (malloc_buf g (finalLen + 1)) finalLen [NUL];
          crsql_joinWith ret mapped delim
        })"

lemma asIdentifierListStr_eq:
  assumes "ins \<noteq> []" and "int_ok (length (join_sep [delim] (map (\<lambda>s. dq (fmt_w s)) ins)) + 1)"
  shows "crsql_asIdentifierListStr g ins delim =
    Some (cstr (join_sep [delim] (map (\<lambda>s. dq (fmt_w s)) ins)))"
proof -
  define f where "f = (\<lambda>s. dq (fmt_w s))"
  define n where "n = length (join_sep [delim] (map f ins))"
  have n: "n = sum_list (map length (map f ins)) + (length ins - 1)"
    unfolding n_def by (subst length_join_sep_map) simp
  obtain b where b: "buf_put (malloc_buf g (n + 1)) n [NUL] = Some b"
    by (simp add: buf_put_def)
  have "length b = n + 1" using b by (auto dest: buf_put_length)
  with assms b n show ?thesis
    by (simp add: crsql_asIdentifierListStr_def joinWith_fits Let_def f_def [symmetric]
        n_def [symmetric])
qed

abbreviation (input) UNION_KW :: string where "UNION_KW \<equiv> ''UNION''"

text \<open>\<open>tableNames ! 0\<close> is the column heading.\<close>

definition crsql_getDbVersionUnionQuery :: "nat \<Rightarrow> string list \<Rightarrow> string" where
  "crsql_getDbVersionUnionQuery numRows tableNames =
     (let unionsArr = map (\<lambda>i.
            ''SELECT max(__crsql_db_version) as version FROM '' @ dq (fmt_w (tableNames ! (i + 1))) @
            '' '' @ (if i < numRows - 1 then UNION_KW else []) @ '' '') [0..<numRows];
          unionsStr = concat unionsArr
      in ''SELECT max(version) as version FROM ('' @ unionsStr @ '')'')"

definition crsql_isIdentifierOpenQuote :: "char \<Rightarrow> int" where
  "crsql_isIdentifierOpenQuote c =
     (if c = CHR ''['' then 1 else if c = CHR 0x60 then 1 else if c = DQUOTE then 1 else 0)"

section \<open>Comparison of site ids\<close>

definition crsql_siteIdCmp :: "blob \<Rightarrow> blob \<Rightarrow> int" where
  "crsql_siteIdCmp left right =
     (let leftLen = length left; rightLen = length right;
          minLen = (if leftLen < rightLen then leftLen else rightLen);
          cmp = memcmp left right minLen
      in if cmp = 0 then
           (if leftLen > rightLen then 1 else if leftLen < rightLen then -1 else 0)
         else if cmp > 0 then 1 else -1)"

lemma siteIdCmp_lexcmp: "crsql_siteIdCmp left right = lexcmp unat left right"
proof -
  have "(let cmp = lexcmp unat (take (min (length l) (length r)) l) (take (min (length l) (length r)) r)
         in if cmp = 0 then (if length l > length r then 1 else if length l < length r then -1 else 0)
            else if cmp > 0 then 1 else -1) = lexcmp (unat :: 8 word \<Rightarrow> nat) l r" for l r :: blob
    by (induction l r rule: list_induct2') (auto simp: Let_def split: if_splits)
  from this [of left right] show ?thesis
    by (auto simp: crsql_siteIdCmp_def memcmp_def Let_def min_def split: if_splits)
qed

text \<open>\<^verbatim>\<open>crsql_siteIdCmp\<close> is a total order on site ids of any lengths: it is 0 exactly on equal
  ids, swapping the arguments negates it, and it is transitive.\<close>

theorem siteIdCmp_total_order:
  "(crsql_siteIdCmp a b = 0 \<longleftrightarrow> a = b) \<and> crsql_siteIdCmp b a = - crsql_siteIdCmp a b \<and>
   \<not> (crsql_siteIdCmp a b < 0 \<and> crsql_siteIdCmp b c < 0 \<and> crsql_siteIdCmp a c \<ge> 0)"
  using word_bytes.lexcmp_trans [of a b c]
  by (auto simp: siteIdCmp_lexcmp word_bytes.lexcmp_0_iff word_bytes.lexcmp_swap [of a b])

end
