(* ===== verification/Quote_Concat.thy ===== *)
theory Quote_Concat imports Util begin

text \<open>
  The reader for quote-concatenated values: \<^verbatim>\<open>crsql_splitQuoteConcat\<close> and its scanners
  (\<^verbatim>\<open>core/src/util.c\<close>). Primary keys travel between replicas as the \<^verbatim>\<open>quote()\<close> texts of the
  key's columns with \<^verbatim>\<open>|\<close> between them, and a column value as a single \<^verbatim>\<open>quote()\<close> text; the
  splitter both separates and validates them, because the parts are pasted into SQL.

  The lemmas show what the validation lets through (\<open>split_parts_are_tokens\<close>,
  \<open>split_keeps_input\<close>, \<open>split_null_unchecked\<close>) and that the splitter inverts the quoting of
  every finite value (\<open>split_quoted_values\<close>).
\<close>

definition QC_DELIM :: char where
  "QC_DELIM = CHR ''|''"

section \<open>Scanners\<close>

fun crsql_scanToEndOfLiteral :: "string \<Rightarrow> string option" where
  "crsql_scanToEndOfLiteral [] = None"
| "crsql_scanToEndOfLiteral (c # cs) =
     (if c = SQUOTE
      then (case cs of [] \<Rightarrow> Some cs
            | d # ds \<Rightarrow> if d \<noteq> SQUOTE then Some cs else crsql_scanToEndOfLiteral ds)
      else crsql_scanToEndOfLiteral cs)"

fun crsql_safelyAdvanceThroughString :: "string \<Rightarrow> nat \<Rightarrow> string option" where
  "crsql_safelyAdvanceThroughString s 0 = Some s"
| "crsql_safelyAdvanceThroughString [] (Suc n) = None"
| "crsql_safelyAdvanceThroughString (c # cs) (Suc n) = crsql_safelyAdvanceThroughString cs n"

text \<open>\<open>dc\<close> and \<open>ec\<close> are \<^verbatim>\<open>decimalCount\<close> and \<^verbatim>\<open>exponentCount\<close>.\<close>

definition skip_exp_sign :: "string \<Rightarrow> string" where
  "skip_exp_sign cs =
     (case cs of [] \<Rightarrow> [] | d # ds \<Rightarrow> if d = CHR ''-'' \<or> d = CHR ''+'' then ds else cs)"

lemma length_skip_exp_sign [termination_simp]: "length (skip_exp_sign cs) < Suc (length cs)"
  by (simp add: skip_exp_sign_def split: list.split)

fun consume_digits :: "string \<Rightarrow> char \<Rightarrow> nat \<Rightarrow> nat \<Rightarrow> string option" where
  "consume_digits [] delim dc ec = Some []"
| "consume_digits (c # cs) delim dc ec =
     (if c = delim then Some (c # cs)
      else if is_digit c then consume_digits cs delim dc ec
      else if c = CHR ''.'' then (if dc > 0 then None else consume_digits cs delim (dc + 1) ec)
      else if c = CHR ''e'' then
        (if ec > 0 then None else consume_digits (skip_exp_sign cs) delim dc (ec + 1))
      else None)"

definition crsql_consumeDigitsToDelimiter :: "string \<Rightarrow> char \<Rightarrow> string option" where
  "crsql_consumeDigitsToDelimiter s delim = consume_digits s delim 0 0"

text \<open>One iteration's scan: the pointer just past the part that starts at \<open>cur\<close>.\<close>

definition scan_part :: "string \<Rightarrow> string option" where
  "scan_part cur =
     (case cur of
        [] \<Rightarrow> Some []
      | c # cs \<Rightarrow>
          if c = SQUOTE then crsql_scanToEndOfLiteral cs
          else if c = CHR ''X'' then
            (case cs of [] \<Rightarrow> None
             | d # ds \<Rightarrow> if d \<noteq> SQUOTE then None else crsql_scanToEndOfLiteral ds)
          else if c = CHR ''N'' then crsql_safelyAdvanceThroughString cur 4
          else crsql_consumeDigitsToDelimiter (if c = CHR ''-'' then cs else cur) QC_DELIM)"

definition skip_delim :: "string \<Rightarrow> string" where
  "skip_delim s = (case s of [] \<Rightarrow> [] | c # cs \<Rightarrow> if c = QC_DELIM then cs else s)"

text \<open>The loop: the parts and where \<^verbatim>\<open>curr\<close> ended up; \<open>None\<close> when a scan failed.\<close>

fun split_loop :: "nat \<Rightarrow> string \<Rightarrow> (string list \<times> string) option" where
  "split_loop 0 cur = Some ([], cur)"
| "split_loop (Suc n) cur =
     (if cur = [] then Some ([], cur)
      else case scan_part cur of
        None \<Rightarrow> None
      | Some rest \<Rightarrow>
          (case split_loop n (skip_delim rest) of
             None \<Rightarrow> None
           | Some (ps, end_ptr) \<Rightarrow> Some (take (length cur - length rest) cur # ps, end_ptr)))"

text \<open>\<^verbatim>\<open>sqlite3_malloc(0)\<close> is NULL, so no parts wanted is NULL whatever the input.\<close>

definition crsql_splitQuoteConcat :: "string \<Rightarrow> nat \<Rightarrow> string list option" where
  "crsql_splitQuoteConcat s partsLen =
     (case split_loop partsLen s of
        None \<Rightarrow> None
      | Some (ps, end_ptr) \<Rightarrow>
          if length ps \<noteq> partsLen \<or> end_ptr \<noteq> [] then None
          else if partsLen = 0 then None
          else Some ps)"

section \<open>What a scan consumes\<close>

lemma scan_literal_decomp:
  "crsql_scanToEndOfLiteral s = Some r \<Longrightarrow> \<exists>u. s = double_char SQUOTE u @ SQUOTE # r"
proof (induction s rule: crsql_scanToEndOfLiteral.induct)
  case (2 c cs)
  show ?case
  proof (cases "c = SQUOTE")
    case True
    show ?thesis
    proof (cases "\<exists>ds. cs = SQUOTE # ds")
      case True
      with 2 \<open>c = SQUOTE\<close> obtain ds u where "cs = SQUOTE # ds" "ds = double_char SQUOTE u @ SQUOTE # r"
        by auto
      with \<open>c = SQUOTE\<close> show ?thesis by (intro exI [of _ "SQUOTE # u"]) simp
    next
      case False
      with 2 \<open>c = SQUOTE\<close> show ?thesis
        by (intro exI [of _ "[]"]) (auto split: list.splits if_splits)
    qed
  next
    case False
    with 2 obtain u where "cs = double_char SQUOTE u @ SQUOTE # r" by auto
    with False show ?thesis by (intro exI [of _ "c # u"]) simp
  qed
qed simp

definition number_char :: "char \<Rightarrow> bool" where
  "number_char c \<longleftrightarrow> is_digit c \<or> c \<in> set ''.e+-''"

lemma skip_exp_sign_decomp:
  "\<exists>w. cs = w @ skip_exp_sign cs \<and> list_all number_char w"
  by (cases cs) (auto simp: skip_exp_sign_def number_char_def intro: exI [of _ "[_]"])

lemma consume_decomp:
  "consume_digits s d dc ec = Some r \<Longrightarrow> \<exists>w. s = w @ r \<and> list_all number_char w"
proof (induction s d dc ec rule: consume_digits.induct)
  case (2 c cs delim dc ec)
  show ?case
  proof (cases "c = delim")
    case True
    with "2.prems" show ?thesis by auto
  next
    case False
    obtain v where v: "cs = v @ skip_exp_sign cs" "list_all number_char v"
      using skip_exp_sign_decomp by blast
    have c: "number_char c"
      using False "2.prems" by (auto simp: number_char_def split: if_splits)
    have "(\<exists>w. cs = w @ r \<and> list_all number_char w) \<or>
        (\<exists>w. skip_exp_sign cs = w @ r \<and> list_all number_char w)"
      using 2 False by (auto split: if_splits)
    then show ?thesis
    proof
      assume "\<exists>w. cs = w @ r \<and> list_all number_char w"
      with c show ?thesis by (auto intro: exI [of _ "c # _"])
    next
      assume "\<exists>w. skip_exp_sign cs = w @ r \<and> list_all number_char w"
      then obtain w where "skip_exp_sign cs = w @ r" "list_all number_char w" by auto
      with c v show ?thesis by (intro exI [of _ "c # v @ w"]) simp
    qed
  qed
qed simp

lemma advance_decomp:
  "crsql_safelyAdvanceThroughString s n = Some r \<Longrightarrow> \<exists>w. s = w @ r \<and> length w = n"
proof (induction s n rule: crsql_safelyAdvanceThroughString.induct)
  case (3 c cs n)
  then obtain w where "cs = w @ r" "length w = n" by auto
  then show ?case by (intro exI [of _ "c # w"]) simp
qed auto

text \<open>
  The shapes of an accepted part: a closed string literal, the same after an \<^verbatim>\<open>X\<close>, four
  characters that start with \<^verbatim>\<open>N\<close>, or characters of a number.
\<close>

definition literal_token :: "string \<Rightarrow> bool" where
  "literal_token p \<longleftrightarrow>
     (\<exists>u. p = fmt_Q u) \<or> (\<exists>u. p = CHR ''X'' # fmt_Q u) \<or>
     (length p = 4 \<and> hd p = CHR ''N'') \<or> list_all number_char p"

lemma scan_part_decomp:
  assumes "scan_part s = Some r"
  shows "\<exists>p. s = p @ r \<and> literal_token p"
proof (cases s)
  case Nil
  with assms show ?thesis by (auto simp: scan_part_def literal_token_def)
next
  case (Cons c cs)
  consider "c = SQUOTE" | "c = CHR ''X''" | "c = CHR ''N''"
    | "c \<notin> {SQUOTE, CHR ''X'', CHR ''N''}" by blast
  then show ?thesis
  proof cases
    case 1
    with assms Cons obtain u where "cs = double_char SQUOTE u @ SQUOTE # r"
      by (auto simp: scan_part_def dest: scan_literal_decomp)
    with 1 Cons show ?thesis
      by (intro exI [of _ "fmt_Q u"]) (auto simp: literal_token_def fmt_Q_eq sq_def)
  next
    case 2
    with assms Cons obtain u where "cs = SQUOTE # double_char SQUOTE u @ SQUOTE # r"
      by (auto simp: scan_part_def split: list.splits if_splits dest: scan_literal_decomp)
    with 2 Cons show ?thesis
      by (intro exI [of _ "CHR ''X'' # fmt_Q u"]) (auto simp: literal_token_def fmt_Q_eq sq_def)
  next
    case 3
    with assms Cons obtain w where "s = w @ r" "length w = 4"
      by (auto simp: scan_part_def dest!: advance_decomp)
    with 3 Cons show ?thesis
      by (intro exI [of _ w]) (cases w, auto simp: literal_token_def)
  next
    case 4
    show ?thesis
    proof (cases "c = CHR ''-''")
      case True
      with 4 assms Cons obtain w where "cs = w @ r" "list_all number_char w"
        by (auto simp: scan_part_def crsql_consumeDigitsToDelimiter_def dest!: consume_decomp)
      with True Cons show ?thesis
        by (intro exI [of _ "c # w"]) (auto simp: literal_token_def number_char_def)
    next
      case False
      with 4 assms Cons have "consume_digits s QC_DELIM 0 0 = Some r"
        by (simp add: scan_part_def crsql_consumeDigitsToDelimiter_def del: consume_digits.simps)
      then show ?thesis by (auto simp: literal_token_def dest: consume_decomp)
    qed
  qed
qed

section \<open>What the splitter accepts\<close>

lemma skip_delim_decomp: "\<exists>d. s = d @ skip_delim s \<and> d \<in> {[], [QC_DELIM]}"
  by (auto simp: skip_delim_def split: list.split)

lemma split_loop_decomp:
  "split_loop n s = Some (ps, r) \<Longrightarrow>
     list_all literal_token ps \<and>
     (\<exists>ds. length ds = length ps \<and> set ds \<subseteq> {[], [QC_DELIM]} \<and>
           s = concat (map2 (@) ps ds) @ r)"
proof (induction n s arbitrary: ps r rule: split_loop.induct)
  case (2 n s)
  show ?case
  proof (cases "s = []")
    case True
    with "2.prems" show ?thesis by auto
  next
    case False
    with "2.prems" obtain rest qs where
      scan: "scan_part s = Some rest" and rec: "split_loop n (skip_delim rest) = Some (qs, r)"
      and ps: "ps = take (length s - length rest) s # qs"
      by (auto split: option.splits)
    obtain p where p: "s = p @ rest" "literal_token p" using scan scan_part_decomp by blast
    obtain d where d: "rest = d @ skip_delim rest" "d \<in> {[], [QC_DELIM]}"
      using skip_delim_decomp by blast
    from "2.IH" [OF False scan rec] obtain ds where
      ds: "list_all literal_token qs" "length ds = length qs" "set ds \<subseteq> {[], [QC_DELIM]}"
      "skip_delim rest = concat (map2 (@) qs ds) @ r" by auto
    have "ps = p # qs" using ps p by simp
    moreover have "s = p @ d @ concat (map2 (@) qs ds) @ r" using p d(1) ds(4) by simp
    moreover have "length (d # ds) = length ps \<and> set (d # ds) \<subseteq> {[], [QC_DELIM]}"
      using ds d(2) \<open>ps = p # qs\<close> by simp
    ultimately show ?thesis using p(2) ds(1) by (intro conjI exI [of _ "d # ds"]) simp_all
  qed
qed auto

lemma splitQuoteConcat_SomeE:
  assumes "crsql_splitQuoteConcat s n = Some ps"
  obtains "split_loop n s = Some (ps, [])" "length ps = n" "0 < n"
  using assms by (auto simp: crsql_splitQuoteConcat_def split: option.splits if_splits)

text \<open>C18. The splitter returns exactly as many parts as were asked for, and each of them is a
  closed quoted literal, an \<^verbatim>\<open>X\<close> with a closed quoted literal, four characters starting with
  \<^verbatim>\<open>N\<close>, or characters of a number: no part holds an unbalanced quote that could end the SQL
  literal it is pasted into.\<close>

theorem split_parts_are_tokens:
  assumes "crsql_splitQuoteConcat s n = Some ps"
  shows "length ps = n \<and> 0 < n \<and> list_all literal_token ps"
  using assms by (elim splitQuoteConcat_SomeE) (auto dest: split_loop_decomp)

theorem split_parts_are_tokens_witness:
  "list_all literal_token [sq ''foo'', ''NULL'', ''-1.5e+3'']"
proof -
  have "crsql_splitQuoteConcat (sq ''foo'' @ ''|NULL|-1.5e+3'') 3
      = Some [sq ''foo'', ''NULL'', ''-1.5e+3'']"
    by code_simp
  from split_parts_are_tokens [OF this] show ?thesis by simp
qed

text \<open>Nothing of the input is lost or reordered: it is the accepted parts in order, each
  followed by one delimiter or by none (the splitter accepts a missing and a trailing
  delimiter).\<close>

theorem split_keeps_input:
  assumes "crsql_splitQuoteConcat s n = Some ps"
  shows "\<exists>ds. length ds = n \<and> set ds \<subseteq> {[], [QC_DELIM]} \<and> s = concat (map2 (@) ps ds)"
  using assms by (elim splitQuoteConcat_SomeE) (auto dest: split_loop_decomp)

theorem split_keeps_input_witness:
  "\<exists>ds. length ds = 2 \<and> set ds \<subseteq> {[], [QC_DELIM]} \<and>
     sq ''a'' @ ''1|'' = concat (map2 (@) [sq ''a'', ''1''] ds)"
proof -
  have "crsql_splitQuoteConcat (sq ''a'' @ ''1|'') 2 = Some [sq ''a'', ''1'']"
    by code_simp
  from split_keeps_input [OF this] show ?thesis .
qed

text \<open>A part that starts with \<^verbatim>\<open>N\<close> is taken to be \<^verbatim>\<open>NULL\<close> without looking at the other
  three characters: any four characters that start with \<^verbatim>\<open>N\<close> pass the validation.\<close>

theorem split_null_unchecked:
  "crsql_splitQuoteConcat [CHR ''N'', a, b, c] 1 = Some [[CHR ''N'', a, b, c]]"
  by (simp add: crsql_splitQuoteConcat_def scan_part_def skip_delim_def numeral_eq_Suc)

section \<open>Round trip with quoted values\<close>

lemma scan_literal_quoted:
  "(\<And>cs. r \<noteq> SQUOTE # cs) \<Longrightarrow>
     crsql_scanToEndOfLiteral (double_char SQUOTE u @ SQUOTE # r) = Some r"
  by (induction u) (auto split: list.splits)

lemma not_digit_delim [simp]: "\<not> is_digit QC_DELIM"
  by (simp add: QC_DELIM_def)

lemma delim_neq [simp]: "CHR ''.'' \<noteq> QC_DELIM" "CHR ''e'' \<noteq> QC_DELIM" "CHR ''-'' \<noteq> QC_DELIM"
  by (simp_all add: QC_DELIM_def)

lemma consume_digits_span:
  "list_all is_digit xs \<Longrightarrow>
     consume_digits (xs @ s) QC_DELIM dc ec = consume_digits s QC_DELIM dc ec"
  by (induction xs) auto

lemma skip_exp_sign_digits [simp]: "digits ds \<Longrightarrow> skip_exp_sign (ds @ r) = ds @ r"
  by (auto simp: skip_exp_sign_def is_digit_def dest!: digits_head)

lemma list_all_digits [simp]: "digits ds \<Longrightarrow> list_all is_digit ds"
  by (simp add: digits_def)

definition ends_part :: "string \<Rightarrow> bool" where
  "ends_part r \<longleftrightarrow> r = [] \<or> (\<exists>cs. r = QC_DELIM # cs)"

lemma ends_partE:
  assumes "ends_part r"
  obtains "r = []" | cs where "r = QC_DELIM # cs"
  using assms by (auto simp: ends_part_def)

lemma consume_digits_end [simp]: "ends_part r \<Longrightarrow> consume_digits r QC_DELIM dc ec = Some r"
  by (auto elim: ends_partE)

lemma ends_part_not_quote: "ends_part r \<Longrightarrow> r \<noteq> SQUOTE # cs"
  by (auto simp: QC_DELIM_def elim: ends_partE)

lemma consume_fraction:
  assumes "digits ip" and "digits fp" and "ends_part r"
    and "case ex of None \<Rightarrow> True | Some (_, ds) \<Rightarrow> digits ds"
  shows "consume_digits (ip @ ''.'' @ fp @
      (case ex of None \<Rightarrow> [] | Some (eneg, ds) \<Rightarrow> ''e'' @ (if eneg then ''-'' else ''+'') @ ds) @ r)
      QC_DELIM 0 0 = Some r"
  using assms
  by (cases ex) (auto simp: consume_digits_span skip_exp_sign_def)

lemma scan_number:
  assumes "digits ip" and "consume_digits (ip @ t) QC_DELIM 0 0 = Some r"
  shows "scan_part (sign_text neg @ ip @ t) = Some r"
  using assms
  by (auto simp: scan_part_def sign_text_def crsql_consumeDigitsToDelimiter_def
      simp del: consume_digits.simps dest!: digits_head)

lemma scan_part_quote:
  assumes "wf_val v" and "finite_val v" and r: "ends_part r"
  shows "scan_part (quote_val v @ r) = Some r"
proof (cases v)
  case VNull
  then show ?thesis by (simp add: scan_part_def numeral_eq_Suc)
next
  case (VInt i)
  have "show_int i @ r = sign_text (i < 0) @ show_nat (nat \<bar>i\<bar>) @ r"
    by (auto simp: show_int_def sign_text_def)
  moreover have "consume_digits (show_nat (nat \<bar>i\<bar>) @ r) QC_DELIM 0 0 = Some r"
    using r by (simp add: consume_digits_span del: consume_digits.simps)
  ultimately show ?thesis
    using VInt scan_number [OF digits_show_nat] by simp
next
  case (VReal x)
  show ?thesis
  proof (cases x)
    case (Fin neg ip fp ex)
    define t where "t = ''.'' @ fp @ (case ex of None \<Rightarrow> []
        | Some (eneg, ds) \<Rightarrow> ''e'' @ (if eneg then ''-'' else ''+'') @ ds) @ r"
    have wf: "digits ip" "digits fp" "case ex of None \<Rightarrow> True | Some (_, ds) \<Rightarrow> digits ds"
      using assms VReal Fin by auto
    have "quote_val v @ r = sign_text neg @ ip @ t"
      using VReal Fin by (simp add: t_def)
    moreover have "consume_digits (ip @ t) QC_DELIM 0 0 = Some r"
      unfolding t_def using wf r by (intro consume_fraction) auto
    ultimately show ?thesis using scan_number [OF wf(1)] by simp
  next
    case (Infinite neg)
    with VReal assms show ?thesis by simp
  qed
next
  case (VText s)
  then show ?thesis
    using scan_literal_quoted [of r s] ends_part_not_quote [OF r]
    by (simp add: scan_part_def fmt_Q_eq sq_def)
next
  case (VBlob b)
  have no_quote: "SQUOTE \<notin> set (concat (map hex_byte b))"
    by (auto simp: hex_byte_def hexdigit_not_quote unat_high_nibble unat_low_nibble)
  then have "double_char SQUOTE (concat (map hex_byte b)) = concat (map hex_byte b)"
    by (rule double_char_id)
  with VBlob show ?thesis
    using scan_literal_quoted [of r "concat (map hex_byte b)"] ends_part_not_quote [OF r]
    by (simp add: scan_part_def sq_def)
qed

lemma quote_val_nonempty: "wf_val v \<Longrightarrow> quote_val v \<noteq> []"
  by (cases v rule: sqlite3QuoteValue.cases)
     (auto simp: show_int_def fmt_Q_eq sq_def sign_text_def elim: wf_fnum.elims)

lemma split_loop_quotes:
  assumes "\<And>v. v \<in> set vs \<Longrightarrow> wf_val v \<and> finite_val v"
  shows "split_loop (length vs) (join_sep [QC_DELIM] (map quote_val vs)) =
    Some (map quote_val vs, [])"
  using assms
proof (induction vs)
  case (Cons v vs)
  define r where "r = (if vs = [] then [] else QC_DELIM # join_sep [QC_DELIM] (map quote_val vs))"
  have s: "join_sep [QC_DELIM] (map quote_val (v # vs)) = quote_val v @ r"
    by (simp add: join_sep_Cons r_def)
  have scan: "scan_part (quote_val v @ r) = Some r"
    using Cons.prems by (intro scan_part_quote) (auto simp: ends_part_def r_def)
  have skip: "skip_delim r = join_sep [QC_DELIM] (map quote_val vs)"
    by (simp add: r_def skip_delim_def)
  have "quote_val v \<noteq> []" using Cons.prems quote_val_nonempty by auto
  with Cons scan skip show ?case by (simp only: s) simp
qed simp

text \<open>C17. The splitter inverts quoting: any non-empty list of finite values, quoted and joined
  with the delimiter, splits into exactly the quoted values, whatever quotes and delimiters the
  values hold.\<close>

theorem split_quoted_values:
  assumes "vs \<noteq> []" and "list_all (\<lambda>v. wf_val v \<and> finite_val v) vs"
  shows "crsql_splitQuoteConcat (join_sep [QC_DELIM] (map quote_val vs)) (length vs) =
    Some (map quote_val vs)"
  using assms split_loop_quotes [of vs]
  by (auto simp: crsql_splitQuoteConcat_def list_all_iff)

theorem split_quoted_values_witness:
  "crsql_splitQuoteConcat
     (join_sep [QC_DELIM] (map quote_val [VText ''a|b'', VInt (- 7), VNull, VBlob [255]])) 4 =
   Some (map quote_val [VText ''a|b'', VInt (- 7), VNull, VBlob [255]])"
  using split_quoted_values [of "[VText ''a|b'', VInt (- 7), VNull, VBlob [255]]"]
  by (simp add: int64_def eval_nat_numeral)

text \<open>An infinite REAL does not survive the trip: the text \<^verbatim>\<open>quote()\<close> prints for it is
  refused by the splitter, so a change that carries it can never be merged.\<close>

theorem split_refuses_infinity:
  "crsql_splitQuoteConcat (quote_val (VReal (Infinite neg))) n = None"
  by (cases n) (auto simp: crsql_splitQuoteConcat_def scan_part_def sign_text_def QC_DELIM_def
      crsql_consumeDigitsToDelimiter_def is_digit_def)

end
