(* ===== verification/Table_Info.thy ===== *)
theory Table_Info imports Quote_Concat "HOL-Library.Multiset" begin

text \<open>
  Column and table descriptions (\<^verbatim>\<open>core/src/tableinfo.h\<close>, \<^verbatim>\<open>core/src/tableinfo.c\<close>): the split
  of a table's columns into primary key columns in key order and the others, lookups, and the
  SQL fragments made of column lists. Arrays with their lengths are lists; a failed \<^verbatim>\<open>assert\<close>
  is \<open>None\<close>.
\<close>

section \<open>Descriptions\<close>

record column_info =
  ci_cid :: int
  ci_name :: string
  ci_type :: string
  ci_notnull :: int
  ci_pk :: int

record table_info =
  ti_tblName :: string
  ti_baseCols :: "column_info list"
  ti_pks :: "column_info list"
  ti_nonPks :: "column_info list"

fun crsql_numPks :: "column_info list \<Rightarrow> nat" where
  "crsql_numPks [] = 0"
| "crsql_numPks (c # cs) = (if ci_pk c > 0 then Suc (crsql_numPks cs) else crsql_numPks cs)"

text \<open>\<^verbatim>\<open>qsort\<close> with \<^verbatim>\<open>cmpPks\<close> orders the key columns by \<^verbatim>\<open>pk\<close>, their position in the key.\<close>

definition cmpPks :: "column_info \<Rightarrow> column_info \<Rightarrow> int" where
  "cmpPks a b = ci_pk a - ci_pk b"

definition crsql_pks :: "column_info list \<Rightarrow> column_info list option" where
  "crsql_pks colInfos =
     (let numPks = crsql_numPks colInfos; ret = filter (\<lambda>c. ci_pk c > 0) colInfos in
      if numPks = 0 then Some []
      else if length ret = numPks then Some (sort_key ci_pk ret) else None)"

definition crsql_nonPks :: "column_info list \<Rightarrow> column_info list option" where
  "crsql_nonPks colInfos =
     (let nonPksLen = length colInfos - crsql_numPks colInfos;
          ret = filter (\<lambda>c. ci_pk c = 0) colInfos in
      if nonPksLen = 0 then Some []
      else if length ret = nonPksLen then Some ret else None)"

definition crsql_tableInfo :: "string \<Rightarrow> column_info list \<Rightarrow> table_info option" where
  "crsql_tableInfo tblName colInfos = do {
     nonPks \<leftarrow> crsql_nonPks colInfos;
     pks \<leftarrow> crsql_pks colInfos;
     Some \<lparr>ti_tblName = tblName, ti_baseCols = colInfos, ti_pks = pks, ti_nonPks = nonPks\<rparr>
   }"

definition crsql_findTableInfo :: "table_info list \<Rightarrow> string \<Rightarrow> table_info option" where
  "crsql_findTableInfo tblInfos tblName = find (\<lambda>t. strcmp (ti_tblName t) tblName = 0) tblInfos"

definition crsql_columnExists :: "string \<Rightarrow> column_info list \<Rightarrow> bool" where
  "crsql_columnExists colName colInfos = list_ex (\<lambda>c. strcmp (ci_name c) colName = 0) colInfos"

lemma numPks_eq: "crsql_numPks cs = length (filter (\<lambda>c. ci_pk c > 0) cs)"
  by (induction cs) auto

lemma pks_eq: "crsql_pks cs = Some (sort_key ci_pk (filter (\<lambda>c. ci_pk c > 0) cs))"
  by (auto simp: crsql_pks_def numPks_eq Let_def)

lemma length_split_pks:
  "list_all (\<lambda>c. ci_pk c \<ge> 0) cs \<Longrightarrow>
     length cs = length (filter (\<lambda>c. ci_pk c > 0) cs) + length (filter (\<lambda>c. ci_pk c = 0) cs)"
  by (induction cs) auto

lemma nonPks_eq:
  "list_all (\<lambda>c. ci_pk c \<ge> 0) cs \<Longrightarrow> crsql_nonPks cs = Some (filter (\<lambda>c. ci_pk c = 0) cs)"
  using length_split_pks [of cs] by (auto simp: crsql_nonPks_def numPks_eq Let_def)

lemma columnExists_iff: "crsql_columnExists n cs \<longleftrightarrow> n \<in> ci_name ` set cs"
  by (auto simp: crsql_columnExists_def list_ex_iff strcmp_0_iff)

lemma findTableInfo_Some:
  "crsql_findTableInfo ts n = Some t \<Longrightarrow> t \<in> set ts \<and> ti_tblName t = n"
  by (auto simp: crsql_findTableInfo_def find_Some_iff strcmp_0_iff)

lemma findTableInfo_None: "crsql_findTableInfo ts n = None \<longleftrightarrow> n \<notin> ti_tblName ` set ts"
  by (auto simp: crsql_findTableInfo_def find_None_iff strcmp_0_iff)

lemma filter_pos_eq:
  "distinct (map ci_pk cs) \<Longrightarrow> distinct (map ci_pk (filter (\<lambda>c. ci_pk c > 0) cs))"
  by (induction cs) auto

text \<open>A table description splits the table's columns without loss: key columns and other
  columns together are exactly the columns, the others keep their order, and the key columns
  are in key order, strictly so when their positions differ. The assertions never fail.\<close>

theorem tableInfo_splits_columns:
  assumes "list_all (\<lambda>c. ci_pk c \<ge> 0) cols"
  shows "\<exists>t. crsql_tableInfo name cols = Some t \<and> ti_tblName t = name \<and> ti_baseCols t = cols \<and>
    mset (ti_pks t) + mset (ti_nonPks t) = mset cols \<and>
    ti_nonPks t = filter (\<lambda>c. ci_pk c = 0) cols \<and>
    sorted (map ci_pk (ti_pks t)) \<and>
    (distinct (map ci_pk (filter (\<lambda>c. ci_pk c > 0) cols)) \<longrightarrow>
       sorted_wrt (\<lambda>a b. cmpPks a b < 0) (ti_pks t))"
proof -
  define ps where "ps = sort_key ci_pk (filter (\<lambda>c. ci_pk c > 0) cols)"
  have eq: "crsql_tableInfo name cols = Some \<lparr>ti_tblName = name, ti_baseCols = cols, ti_pks = ps,
      ti_nonPks = filter (\<lambda>c. ci_pk c = 0) cols\<rparr>"
    using assms by (simp add: crsql_tableInfo_def nonPks_eq pks_eq ps_def)
  have "filter (\<lambda>c. ci_pk c = 0) cols = filter (\<lambda>c. \<not> ci_pk c > 0) cols"
    using assms by (auto simp: list_all_iff intro!: filter_cong)
  then have parts: "mset ps + mset (filter (\<lambda>c. ci_pk c = 0) cols) = mset cols"
    using multiset_partition [of "mset cols" "\<lambda>c. ci_pk c > 0"] by (simp add: ps_def)
  have strict: "sorted_wrt (\<lambda>a b. cmpPks a b < 0) ps"
    if d: "distinct (map ci_pk (filter (\<lambda>c. ci_pk c > 0) cols))"
  proof -
    have "mset (map ci_pk ps) = mset (map ci_pk (filter (\<lambda>c. ci_pk c > 0) cols))"
      by (simp add: ps_def)
    with d have "distinct (map ci_pk ps)" using mset_eq_imp_distinct_iff by blast
    then have "sorted_wrt (<) (map ci_pk ps)"
      by (simp add: ps_def strict_sorted_iff)
    then show ?thesis by (simp add: sorted_wrt_map cmpPks_def)
  qed
  show ?thesis using eq parts strict by (auto simp: ps_def)
qed

definition mk_col :: "int \<Rightarrow> string \<Rightarrow> int \<Rightarrow> column_info" where
  "mk_col cid name pk =
     \<lparr>ci_cid = cid, ci_name = name, ci_type = [], ci_notnull = 0, ci_pk = pk\<rparr>"

theorem tableInfo_splits_columns_witness:
  "\<exists>t. crsql_tableInfo ''foo'' [mk_col 0 ''a'' 2, mk_col 1 ''b'' 0, mk_col 2 ''c'' 1] = Some t \<and>
     sorted (map ci_pk (ti_pks t)) \<and> length (ti_pks t) = 2"
proof -
  let ?cols = "[mk_col 0 ''a'' 2, mk_col 1 ''b'' 0, mk_col 2 ''c'' 1]"
  have "list_all (\<lambda>c. ci_pk c \<ge> 0) ?cols" by (simp add: mk_col_def)
  from tableInfo_splits_columns [OF this, of "''foo''"]
  obtain t where t: "crsql_tableInfo ''foo'' ?cols = Some t" "sorted (map ci_pk (ti_pks t))" by auto
  moreover have "length (ti_pks t) = 2"
    using t(1) by (auto simp: crsql_tableInfo_def pks_eq mk_col_def split: bind_splits)
  ultimately show ?thesis by blast
qed

section \<open>SQL fragments\<close>

text \<open>What \<^verbatim>\<open>crsql_join2\<close> returns as a string, see \<open>join2_result\<close> of the theory of \<^verbatim>\<open>util.c\<close>.\<close>

definition join2_text :: "('a \<Rightarrow> string) \<Rightarrow> 'a list \<Rightarrow> string \<Rightarrow> string option" where
  "join2_text f ins delim = (if ins = [] then None else Some (join_sep delim (map f ins)))"

definition ident_text :: "string option \<Rightarrow> column_info \<Rightarrow> string" where
  "ident_text prefix c = fmt_s prefix @ dq (fmt_w (ci_name c))"

text \<open>The memory-level function: the outer \<open>None\<close> is undefined behaviour, the inner one NULL.\<close>

definition crsql_asIdentifierList ::
  "(nat \<Rightarrow> char) \<Rightarrow> column_info list \<Rightarrow> string option \<Rightarrow> buf option option" where
  "crsql_asIdentifierList g cols prefix =
     (if cols = [] then Some None
      else let mapped = map (ident_text prefix) cols;
               finalLen = sum_list (map length mapped) + (length cols - 1)
      in if \<not> int_ok (finalLen + 1) then None
      else do {
        ret \<leftarrow> buf_put (malloc_buf g (finalLen + 1)) finalLen [NUL];
        ret \<leftarrow> crsql_joinWith ret mapped (CHR '','');
        Some (Some ret)
      })"

definition identifier_list :: "column_info list \<Rightarrow> string option \<Rightarrow> string option" where
  "identifier_list cols prefix = join2_text (ident_text prefix) cols '',''"

lemma asIdentifierList_eq:
  assumes "cols \<noteq> []" and "int_ok (length (join_sep '','' (map (ident_text prefix) cols)) + 1)"
  shows "crsql_asIdentifierList g cols prefix =
    Some (Some (cstr (join_sep '','' (map (ident_text prefix) cols))))"
proof -
  define n where "n = length (join_sep '','' (map (ident_text prefix) cols))"
  have n: "n = sum_list (map length (map (ident_text prefix) cols)) + (length cols - 1)"
    unfolding n_def by (subst length_join_sep_map) simp
  obtain b where b: "buf_put (malloc_buf g (n + 1)) n [NUL] = Some b"
    by (simp add: buf_put_def)
  have "length b = n + 1" using b by (auto dest: buf_put_length)
  with assms b n show ?thesis
    by (simp add: crsql_asIdentifierList_def joinWith_fits Let_def n_def [symmetric])
qed

definition quote_call :: "string \<Rightarrow> string" where
  "quote_call name = ''quote('' @ dq name @ '')''"

definition crsql_quoteConcat :: "column_info list \<Rightarrow> string option" where
  "crsql_quoteConcat cols =
     join2_text quote_call (map ci_name cols) ('' || '' @ sq ''|'' @ '' || '')"

end
