(* ===== verification/Vtab_Common.thy ===== *)
theory Vtab_Common imports Table_Info begin

text \<open>
  What reading and writing changes share (\<^verbatim>\<open>core/src/changes-vtab-common.c\<close>): turning the
  quote-concatenated primary key of a change into a WHERE list and into a list of values.
\<close>

section \<open>The WHERE list\<close>

text \<open>The parts of the key: a single key column takes the text as it is.\<close>

definition where_parts :: "nat \<Rightarrow> string \<Rightarrow> string list option" where
  "where_parts columnInfosLen quoteConcatedVals =
     (if columnInfosLen = 1 then Some [quoteConcatedVals]
      else crsql_splitQuoteConcat quoteConcatedVals columnInfosLen)"

definition where_term :: "string \<times> string \<Rightarrow> string" where
  "where_term nv = (case nv of (name, part) \<Rightarrow> dq name @ '' = '' @ part)"

definition where_list_text :: "(string \<times> string) list \<Rightarrow> string" where
  "where_list_text w = join_sep '' AND '' (map where_term w)"

definition crsql_extractWhereList :: "column_info list \<Rightarrow> string \<Rightarrow> string option" where
  "crsql_extractWhereList zColumnInfos quoteConcatedVals = do {
     zzParts \<leftarrow> where_parts (length zColumnInfos) quoteConcatedVals;
     let zzParts = map2 (\<lambda>c part. where_term (ci_name c, part)) zColumnInfos zzParts;
     join2_text crsql_identity zzParts '' AND ''
   }"

text \<open>The names with the parts they are compared to: the structure behind the text.\<close>

definition where_pairs :: "column_info list \<Rightarrow> string \<Rightarrow> (string \<times> string) list option" where
  "where_pairs cols vals =
     (if cols = [] then None
      else map_option (zip (map ci_name cols)) (where_parts (length cols) vals))"

lemma where_parts_length: "where_parts n s = Some ps \<Longrightarrow> length ps = n \<and> 0 < n"
  by (auto simp: where_parts_def split: if_splits elim: splitQuoteConcat_SomeE)

lemma map2_zip_names: "map2 (\<lambda>c p. f (g c, p)) cs ps = map f (zip (map g cs) ps)"
  by (induction cs ps rule: list_induct2') auto

lemma extractWhereList_pairs:
  "crsql_extractWhereList cols vals = map_option where_list_text (where_pairs cols vals)"
proof (cases "where_parts (length cols) vals")
  case None
  then show ?thesis by (simp add: crsql_extractWhereList_def where_pairs_def)
next
  case (Some ps)
  then have "length ps = length cols" "cols \<noteq> []" using where_parts_length by fastforce+
  moreover have "crsql_identity \<circ> f = f" for f :: "string \<times> string \<Rightarrow> string"
    by (simp add: crsql_identity_def fun_eq_iff)
  ultimately show ?thesis
    using Some
    by (auto simp: crsql_extractWhereList_def where_pairs_def join2_text_def where_list_text_def
        map2_zip_names zip_eq_Nil_iff)
qed

section \<open>The list of values\<close>

definition crsql_quotedValuesAsList :: "(nat \<Rightarrow> char) \<Rightarrow> string list \<Rightarrow> buf option" where
  "crsql_quotedValuesAsList g parts =
     (let total = sum_list (map length parts) in
      if parts = [] then None
      else let len = total + (length parts - 1) in
        if \<not> int_ok (len + 1) then None
        else do {
          ret \<leftarrow> crsql_joinWith (malloc_buf g (len + 1)) parts (CHR '','');
          buf_put ret len [NUL]
        })"

text \<open>The outer \<open>None\<close> is undefined behaviour, the inner one the NULL result.\<close>

definition crsql_quoteConcatedValuesAsList ::
  "(nat \<Rightarrow> char) \<Rightarrow> string \<Rightarrow> nat \<Rightarrow> buf option option" where
  "crsql_quoteConcatedValuesAsList g quoteConcatedVals len =
     (case crsql_splitQuoteConcat quoteConcatedVals len of
        None \<Rightarrow> Some None
      | Some parts \<Rightarrow> map_option Some (crsql_quotedValuesAsList g parts))"

definition values_text :: "string list \<Rightarrow> string" where
  "values_text parts = join_sep '','' parts"

lemma quotedValuesAsList_eq:
  assumes "parts \<noteq> []" and "int_ok (length (values_text parts) + 1)"
  shows "crsql_quotedValuesAsList g parts = Some (cstr (values_text parts))"
proof -
  define n where "n = length (values_text parts)"
  have n: "n = sum_list (map length parts) + (length parts - 1)"
    by (simp add: n_def values_text_def length_join_sep)
  have "drop (Suc n) (malloc_buf g (n + 1)) = []" by simp
  then have "crsql_joinWith (malloc_buf g (n + 1)) parts (CHR '','') = Some (cstr (values_text parts))"
    using assms by (simp add: joinWith_fits values_text_def [symmetric] n_def [symmetric] Let_def)
  moreover have "buf_put (cstr (values_text parts)) n [NUL] = Some (cstr (values_text parts))"
    by (simp add: buf_put_def n_def cstr_def)
  ultimately show ?thesis
    using assms n by (simp add: crsql_quotedValuesAsList_def Let_def n_def [symmetric])
qed

lemma quoteConcatedValuesAsList_eq:
  assumes "case crsql_splitQuoteConcat s n of None \<Rightarrow> True
      | Some parts \<Rightarrow> int_ok (length (values_text parts) + 1)"
  shows "crsql_quoteConcatedValuesAsList g s n =
    Some (map_option (cstr \<circ> values_text) (crsql_splitQuoteConcat s n))"
  using assms
  by (auto simp: crsql_quoteConcatedValuesAsList_def quotedValuesAsList_eq
      split: option.splits elim: splitQuoteConcat_SomeE)

section \<open>Canonical keys\<close>

text \<open>\<open>key_text vs\<close> is the key a replica sends for a row with key values \<open>vs\<close>.\<close>

definition key_text :: "sqlval list \<Rightarrow> string" where
  "key_text vs = join_sep [QC_DELIM] (map quote_val vs)"

definition key_vals_ok :: "sqlval list \<Rightarrow> bool" where
  "key_vals_ok vs \<longleftrightarrow> vs \<noteq> [] \<and> list_all (\<lambda>v. wf_val v \<and> finite_val v) vs"

lemma split_key_text:
  "key_vals_ok vs \<Longrightarrow> crsql_splitQuoteConcat (key_text vs) (length vs) = Some (map quote_val vs)"
  using split_loop_quotes [of vs]
  by (auto simp: key_vals_ok_def key_text_def crsql_splitQuoteConcat_def list_all_iff)

lemma where_parts_key_text:
  "key_vals_ok vs \<Longrightarrow> where_parts (length vs) (key_text vs) = Some (map quote_val vs)"
  using split_key_text [of vs]
  by (cases "length vs = 1") (auto simp: where_parts_def length_Suc_conv key_text_def)

lemma where_pairs_key_text:
  "key_vals_ok vs \<Longrightarrow> length vs = length cols \<Longrightarrow>
     where_pairs cols (key_text vs) = Some (zip (map ci_name cols) (map quote_val vs))"
  using where_parts_key_text [of vs] by (auto simp: where_pairs_def key_vals_ok_def)

text \<open>C19. For the key a replica sends, the WHERE list compares each key column to the literal of
  its value, in key order, and the list of values (computed inside its allocation) holds the same
  literals: both for a single key column and for many.\<close>

theorem canonical_key_lists:
  assumes "key_vals_ok vs" and "length vs = length cols"
    and "int_ok (length (values_text (map quote_val vs)) + 1)"
  shows "crsql_extractWhereList cols (key_text vs) =
      Some (join_sep '' AND '' (map2 (\<lambda>c v. dq (ci_name c) @ '' = '' @ quote_val v) cols vs)) \<and>
    crsql_quoteConcatedValuesAsList g (key_text vs) (length cols) =
      Some (Some (cstr (join_sep '','' (map quote_val vs))))"
proof -
  have "map where_term (zip (map ci_name cols) (map quote_val vs)) =
      map2 (\<lambda>c v. dq (ci_name c) @ '' = '' @ quote_val v) cols vs"
    by (induction cols vs rule: list_induct2') (auto simp: where_term_def)
  then have "crsql_extractWhereList cols (key_text vs) =
      Some (join_sep '' AND '' (map2 (\<lambda>c v. dq (ci_name c) @ '' = '' @ quote_val v) cols vs))"
    using assms by (simp add: extractWhereList_pairs where_pairs_key_text where_list_text_def)
  moreover have "crsql_splitQuoteConcat (key_text vs) (length cols) = Some (map quote_val vs)"
    using assms split_key_text [of vs] by simp
  ultimately show ?thesis
    using assms quoteConcatedValuesAsList_eq [of "key_text vs" "length cols" g]
    by (simp add: values_text_def comp_def)
qed

theorem canonical_key_lists_witness:
  "crsql_extractWhereList [mk_col 0 ''a'' 1, mk_col 1 ''b'' 2] (key_text [VInt 1, VText ''x|y'']) =
     Some (dq ''a'' @ '' = 1 AND '' @ dq ''b'' @ '' = '' @ sq ''x|y'')"
proof -
  have "show_int 1 = ''1''" by code_simp
  then show ?thesis
    using canonical_key_lists [of "[VInt 1, VText ''x|y'']" "[mk_col 0 ''a'' 1, mk_col 1 ''b'' 2]"
        "\<lambda>_. CHR ''?''"]
    by (simp add: key_vals_ok_def int64_def int_ok_def values_text_def mk_col_def fmt_Q_eq sq_def)
qed

text \<open>With a single key column the WHERE list is built without any validation: whatever text
  the change carries as its key becomes part of the condition.\<close>

theorem single_key_unvalidated:
  "crsql_extractWhereList [c] s = Some (dq (ci_name c) @ '' = '' @ s)"
  by (simp add: extractWhereList_pairs where_pairs_def where_parts_def where_list_text_def
      where_term_def)

text \<open>C40. With two or more key columns every text that reaches the condition has passed the
  splitter: each compared part is a token and there is one part per key column.\<close>

theorem composite_key_validated:
  assumes "where_pairs cols s = Some w" and "length cols \<noteq> 1"
  shows "map fst w = map ci_name cols \<and> list_all (literal_token \<circ> snd) w"
proof -
  from assms obtain ps where
    split: "crsql_splitQuoteConcat s (length cols) = Some ps" and w: "w = zip (map ci_name cols) ps"
    by (auto simp: where_pairs_def where_parts_def split: if_splits)
  have "list_all literal_token ps" "length ps = length cols"
    using split by (auto dest: split_loop_decomp elim: splitQuoteConcat_SomeE)
  then show ?thesis
    by (auto simp: w list_all_iff dest: set_zip_rightD)
qed

theorem composite_key_validated_witness:
  "list_all (literal_token \<circ> snd) [(''a'', ''1''), (''b'', sq ''; drop'')]"
proof -
  have "where_pairs [mk_col 0 ''a'' 1, mk_col 1 ''b'' 2] (''1|'' @ sq ''; drop'') =
      Some [(''a'', ''1''), (''b'', sq ''; drop'')]" by code_simp
  from composite_key_validated [OF this] show ?thesis by simp
qed

end
