(* ===== verification/Vtab_Read.thy ===== *)
theory Vtab_Read imports Vtab_Common begin

text \<open>
  The texts of the queries that read changes (\<^verbatim>\<open>core/src/changes-vtab-read.c\<close>). What the
  queries return on a database is the subject of the theory of the virtual table.
\<close>

abbreviation DELETE_CID_SENTINEL :: string where
  "DELETE_CID_SENTINEL \<equiv> ''__crsql_del''"

abbreviation PKS_ONLY_CID_SENTINEL :: string where
  "PKS_ONLY_CID_SENTINEL \<equiv> ''__crsql_pko''"

definition crsql_changesQueryForTable :: "table_info \<Rightarrow> nat \<Rightarrow> string option" where
  "crsql_changesQueryForTable tableInfo idxNum =
     (if ti_pks tableInfo = [] then None
      else let tbl = ti_tblName tableInfo;
               qc = fmt_s (crsql_quoteConcat (ti_pks tableInfo));
               neg = (if and idxNum 8 = 8 then [] else ''NOT'')
      in Some (
    ''SELECT      '' @ sq tbl @ '' as tbl,      '' @ qc @
    '' as pks,      __crsql_col_name as cid,      __crsql_col_version as '' @
    ''col_vrsn,      __crsql_db_version as db_vrsn,      __crsql_site_id as '' @
    ''site_id    FROM '' @ dq (tbl @ ''__crsql_clock'') @ ''    WHERE      site_id IS '' @
    neg @ '' ?    AND      db_vrsn > ?''))"

text \<open>The loop over the tables: \<open>None\<close> at the first table without a query.\<close>

fun union_arr :: "table_info list \<Rightarrow> nat \<Rightarrow> string list option" where
  "union_arr [] idxNum = Some []"
| "union_arr (t # ts) idxNum = do {
     q \<leftarrow> crsql_changesQueryForTable t idxNum;
     let q = (if ts \<noteq> [] then q @ '' '' @ UNION_KW @ '' '' else q);
     qs \<leftarrow> union_arr ts idxNum;
     Some (q # qs)
   }"

definition crsql_changesUnionQuery :: "table_info list \<Rightarrow> nat \<Rightarrow> string option" where
  "crsql_changesUnionQuery tableInfos idxNum = do {
     unionsArr \<leftarrow> union_arr tableInfos idxNum;
     let unionsStr = concat unionsArr;
     Some (''SELECT tbl, pks, cid, col_vrsn, db_vrsn, site_id FROM ('' @ unionsStr @
           '') ORDER BY '' @ ''db_vrsn, tbl ASC'')
   }"

definition crsql_rowPatchDataQuery :: "table_info \<Rightarrow> string \<Rightarrow> string \<Rightarrow> string option" where
  "crsql_rowPatchDataQuery tblInfo colName pks =
     (if strcmp DELETE_CID_SENTINEL colName = 0 then Some []
      else do {
        pkWhereList \<leftarrow> crsql_extractWhereList (ti_pks tblInfo) pks;
        Some (''SELECT quote('' @ dq (fmt_w colName) @ '') FROM '' @ dq (fmt_w (ti_tblName tblInfo)) @
              '' WHERE '' @ pkWhereList)
      })"

lemma changesQueryForTable_None: "crsql_changesQueryForTable t i = None \<longleftrightarrow> ti_pks t = []"
  by (simp add: crsql_changesQueryForTable_def Let_def)

lemma union_arr_eq:
  "union_arr ts i =
     (if list_all (\<lambda>t. ti_pks t \<noteq> []) ts
      then Some (let qs = map (\<lambda>t. the (crsql_changesQueryForTable t i)) ts in
                 case rev qs of [] \<Rightarrow> [] | q # rqs \<Rightarrow> map (\<lambda>q. q @ '' UNION '') (rev rqs) @ [q])
      else None)"
proof (induction ts)
  case (Cons t ts)
  show ?case
  proof (cases "ti_pks t = []")
    case True
    then have "crsql_changesQueryForTable t i = None" by (simp add: changesQueryForTable_None)
    with True show ?thesis by simp
  next
    case False
    then obtain q where q: "crsql_changesQueryForTable t i = Some q"
      using changesQueryForTable_None by blast
    show ?thesis
      using q Cons False
      by (cases "rev (map (\<lambda>t. the (crsql_changesQueryForTable t i)) ts)") (auto simp: Let_def)
  qed
qed simp

lemma concat_unions:
  "concat (case rev qs of [] \<Rightarrow> [] | q # rqs \<Rightarrow> map (\<lambda>q. q @ u) (rev rqs) @ [q]) = join_sep u qs"
proof (induction qs)
  case (Cons q qs)
  then show ?case by (cases "rev qs") (auto simp: join_sep_Cons)
qed simp

text \<open>The query over all tables exists exactly when every table has a primary key, and it is
  then the single-table queries joined by \<^verbatim>\<open>UNION\<close>, ordered by version and table: no table is
  left out and no dangling \<^verbatim>\<open>UNION\<close> is left at the end.\<close>

theorem union_query_shape:
  "crsql_changesUnionQuery ts i =
     (if list_all (\<lambda>t. ti_pks t \<noteq> []) ts
      then Some (''SELECT tbl, pks, cid, col_vrsn, db_vrsn, site_id FROM ('' @
        join_sep '' UNION '' (map (\<lambda>t. the (crsql_changesQueryForTable t i)) ts) @
        '') ORDER BY db_vrsn, tbl ASC'')
      else None)"
  by (simp add: crsql_changesUnionQuery_def union_arr_eq Let_def concat_unions)

text \<open>The queries of the unit tests of \<^verbatim>\<open>changes-vtab-read.test.c\<close>.\<close>

definition test_foo :: table_info where
  "test_foo = \<lparr>ti_tblName = ''foo'', ti_baseCols = [mk_col 0 ''a'' 1, mk_col 1 ''b'' 0],
     ti_pks = [mk_col 0 ''a'' 1], ti_nonPks = [mk_col 1 ''b'' 0]\<rparr>"

definition test_bar :: table_info where
  "test_bar = \<lparr>ti_tblName = ''bar'', ti_baseCols = [mk_col 0 ''x'' 1, mk_col 1 ''y'' 0],
     ti_pks = [mk_col 0 ''x'' 1], ti_nonPks = [mk_col 1 ''y'' 0]\<rparr>"

lemma test_query_for_table: "crsql_changesQueryForTable test_foo 6 = Some (
    ''SELECT      '' @ sq ''foo'' @ '' as tbl,      quote('' @ dq ''a'' @
    '') as pks,      __crsql_col_name as cid,      __crsql_col_version as '' @
    ''col_vrsn,      __crsql_db_version as db_vrsn,      __crsql_site_id as '' @
    ''site_id    FROM '' @ dq ''foo__crsql_clock'' @
    ''    WHERE      site_id IS NOT ?    AND      db_vrsn > ?'')"
  by code_simp

lemma test_union_query: "crsql_changesUnionQuery [test_foo, test_bar] 6 = Some (
    ''SELECT tbl, pks, cid, col_vrsn, db_vrsn, site_id FROM (SELECT      '' @ sq ''foo'' @
    '' as tbl,      quote('' @ dq ''a'' @
    '') as pks,      __crsql_col_name as cid,      __crsql_col_version as '' @
    ''col_vrsn,      __crsql_db_version as db_vrsn,      __crsql_site_id as '' @
    ''site_id    FROM '' @ dq ''foo__crsql_clock'' @
    ''    WHERE      site_id IS NOT ?    AND      db_vrsn > ? UNION SELECT  '' @ ''    '' @
    sq ''bar'' @ '' as tbl,      quote('' @ dq ''x'' @
    '') as pks,      __crsql_col_name as cid,      __crsql_col_version as '' @
    ''col_vrsn,      __crsql_db_version as db_vrsn,      __crsql_site_id as '' @
    ''site_id    FROM '' @ dq ''bar__crsql_clock'' @
    ''    WHERE      site_id IS NOT ?    AND      db_vrsn > ?) ORDER BY '' @
    ''db_vrsn, tbl ASC'')"
  by code_simp

lemma test_row_patch: "crsql_rowPatchDataQuery test_foo ''b'' ''1'' =
    Some (''SELECT quote('' @ dq ''b'' @ '') FROM '' @ dq ''foo'' @ '' WHERE '' @ dq ''a'' @ '' = 1'')"
  by code_simp

text \<open>The query for a change's value is empty exactly for a delete; for any other column of a
  row with a canonical key it selects the quoted column where the key columns have the row's
  values.\<close>

theorem row_patch_query:
  assumes "key_vals_ok vs" and "length vs = length (ti_pks t)"
  shows "crsql_rowPatchDataQuery t col (key_text vs) =
    Some (if col = DELETE_CID_SENTINEL then []
      else ''SELECT quote('' @ dq (fmt_w col) @ '') FROM '' @ dq (fmt_w (ti_tblName t)) @ '' WHERE '' @
        where_list_text (zip (map ci_name (ti_pks t)) (map quote_val vs)))"
  using assms
  by (auto simp: crsql_rowPatchDataQuery_def strcmp_0_iff extractWhereList_pairs where_pairs_key_text)

theorem row_patch_query_witness:
  "crsql_rowPatchDataQuery test_foo ''b'' (key_text [VText ''k'']) =
     Some (''SELECT quote('' @ dq ''b'' @ '') FROM '' @ dq ''foo'' @ '' WHERE '' @
       dq ''a'' @ '' = '' @ sq ''k'')"
  using row_patch_query [of "[VText ''k'']" test_foo "''b''"]
  by (simp add: key_vals_ok_def test_foo_def mk_col_def fmt_w_eq fmt_Q_eq where_list_text_def
      where_term_def dq_def sq_def)

end
