(* ===== verification/Get_Table.thy ===== *)
theory Get_Table imports Sqlite_Base begin

text \<open>
  \<^verbatim>\<open>core/src/get-table.c\<close>: running a query and collecting all its rows in one array that
  starts with a row of column names.

  The state of the callback is the record \<open>tab_result\<close>: \<open>azResult\<close> is the list of the slots
  in use (slot 0 keeps their number), so \<^verbatim>\<open>nData\<close> is its length, and \<open>nAlloc\<close> is the number
  of slots allocated. Writing a slot that is not allocated is undefined: the outer \<open>None\<close>.
  Each allocation takes a boolean from a list that says whether it succeeds (all do once the
  list is empty). \<^verbatim>\<open>nAlloc\<close> and \<^verbatim>\<open>nData\<close> are 32-bit in C; \<^verbatim>\<open>sqlite3_realloc\<close> refuses sizes
  of 2 GiB, 8 bytes a slot, so they stay far below the point where they would wrap.
\<close>

record tab_result =
  azResult :: "string option list"
  zErrMsg :: "string option"
  nAlloc :: nat
  nRow :: nat
  nColumn :: nat
  tr_rc :: int
  mem :: "bool list"

definition nData :: "tab_result \<Rightarrow> nat" where
  "nData p = length (azResult p)"

definition take_alloc :: "tab_result \<Rightarrow> bool \<times> tab_result" where
  "take_alloc p = (case mem p of [] \<Rightarrow> (True, p) | b # bs \<Rightarrow> (b, p\<lparr>mem := bs\<rparr>))"

definition push :: "string option \<Rightarrow> tab_result \<Rightarrow> tab_result option" where
  "push z p = (if nData p < nAlloc p then Some (p\<lparr>azResult := azResult p @ [z]\<rparr>) else None)"

text \<open>\<^verbatim>\<open>0x3fffffff\<close> bounds the length that is copied.\<close>

definition sqlite3Strlen30 :: "string \<Rightarrow> nat" where
  "sqlite3Strlen30 z = and 1073741823 (length z)"

text \<open>The copying loops; \<open>False\<close> is the jump to \<^verbatim>\<open>malloc_failed\<close>.\<close>

fun copy_names :: "string list \<Rightarrow> tab_result \<Rightarrow> (bool \<times> tab_result) option" where
  "copy_names [] p = Some (True, p)"
| "copy_names (c # cs) p =
     (let (ok, p) = take_alloc p in
      if \<not> ok then Some (False, p) else do { p \<leftarrow> push (Some c) p; copy_names cs p })"

fun copy_values :: "string option list \<Rightarrow> tab_result \<Rightarrow> (bool \<times> tab_result) option" where
  "copy_values [] p = Some (True, p)"
| "copy_values (None # vs) p = do { p \<leftarrow> push None p; copy_values vs p }"
| "copy_values (Some v # vs) p =
     (let (ok, p) = take_alloc p in
      if \<not> ok then Some (False, p)
      else do { p \<leftarrow> push (Some (take (sqlite3Strlen30 v) v)) p; copy_values vs p })"

text \<open>The callback: its result (0 to go on) and the new state.\<close>

definition malloc_failed :: "tab_result \<Rightarrow> int \<times> tab_result" where
  "malloc_failed p = (1, p\<lparr>tr_rc := SQLITE_NOMEM\<rparr>)"

definition reserve :: "nat \<Rightarrow> tab_result \<Rightarrow> bool \<times> tab_result" where
  "reserve need p =
     (if nData p + need > nAlloc p then take_alloc (p\<lparr>nAlloc := nAlloc p * 2 + need\<rparr>) else (True, p))"

definition copy_heading :: "string list \<Rightarrow> tab_result \<Rightarrow> (bool \<times> tab_result) option" where
  "copy_heading colv p =
     (if nRow p = 0 then copy_names colv (p\<lparr>nColumn := length colv\<rparr>) else Some (True, p))"

definition copy_row :: "string option list option \<Rightarrow> tab_result \<Rightarrow> (int \<times> tab_result) option" where
  "copy_row argv p =
     (case argv of
        None \<Rightarrow> Some (0, p)
      | Some vs \<Rightarrow> do {
          (ok, p) \<leftarrow> copy_values vs p;
          if \<not> ok then Some (malloc_failed p) else Some (0, p\<lparr>nRow := nRow p + 1\<rparr>)
        })"

definition crsql_get_table_cb ::
  "string option list option \<Rightarrow> string list \<Rightarrow> tab_result \<Rightarrow> (int \<times> tab_result) option" where
  "crsql_get_table_cb argv colv p =
     (let nCol = length colv;
          need = (if nRow p = 0 \<and> argv \<noteq> None then nCol * 2 else nCol);
          (ok, p) = reserve need p in
      if \<not> ok then Some (malloc_failed p)
      else do {
        (ok, p) \<leftarrow> copy_heading colv p;
        if \<not> ok then Some (malloc_failed p)
        else if nRow p \<noteq> 0 \<and> nColumn p \<noteq> nCol then
          Some (1, p\<lparr>zErrMsg := Some (''sqlite3_get_table() called with two or more '' @
              ''incompatible queries''), tr_rc := SQLITE_ERROR\<rparr>)
        else copy_row argv p
      })"

text \<open>\<^verbatim>\<open>sqlite3_exec\<close> calls the callback for each row its statements yield, with the names of the columns
  and the values (no values when it only announces the columns), stops with \<^verbatim>\<open>SQLITE_ABORT\<close> when the
  callback asks for it, and otherwise returns the code of the statements.\<close>

type_synonym call = "string list \<times> string option list option"

fun exec_calls :: "call list \<Rightarrow> int \<Rightarrow> tab_result \<Rightarrow> (int \<times> tab_result) option" where
  "exec_calls [] rc p = Some (rc, p)"
| "exec_calls ((colv, argv) # cs) rc p = do {
     (stop, p) \<leftarrow> crsql_get_table_cb argv colv p;
     if stop \<noteq> 0 then Some (SQLITE_ABORT, p) else exec_calls cs rc p
   }"

text \<open>The calls for a single query.\<close>

abbreviation rows_of :: "string list \<Rightarrow> string option list list \<Rightarrow> call list" where
  "rows_of colv rows \<equiv> map (\<lambda>r. (colv, Some r)) rows"

definition call_ok :: "call \<Rightarrow> bool" where
  "call_ok call = (case call of (colv, argv) \<Rightarrow> (case argv of None \<Rightarrow> True | Some vs \<Rightarrow> length vs = length colv))"

definition low_byte :: "int \<Rightarrow> int" where
  "low_byte rc = rc mod 256"

text \<open>What the caller gets: the code, and either NULL or the array with the numbers of rows and
  columns (the caller's pointer is to slot 1).\<close>

record table_result =
  pazResult :: "string option list option"
  pnRow :: nat
  pnColumn :: nat

definition no_table :: table_result where
  "no_table = \<lparr>pazResult = None, pnRow = 0, pnColumn = 0\<rparr>"

text \<open>After the statements: errors give no table, otherwise the array is cut to its size.\<close>

definition finish_table :: "int \<Rightarrow> tab_result \<Rightarrow> int \<times> table_result" where
  "finish_table rc res =
     (if low_byte rc = SQLITE_ABORT then (tr_rc res, no_table)
      else if rc \<noteq> SQLITE_OK then (rc, no_table)
      else
        let (ok, res) = (if nAlloc res > nData res then take_alloc res else (True, res)) in
        if \<not> ok then (SQLITE_NOMEM, no_table)
        else (rc, \<lparr>pazResult = Some (tl (azResult res)), pnRow = nRow res, pnColumn = nColumn res\<rparr>))"

definition crsql_get_table ::
  "bool list \<Rightarrow> call list \<Rightarrow> int \<Rightarrow> (int \<times> table_result) option" where
  "crsql_get_table ms calls exec_rc =
     (let res = \<lparr>azResult = [None], zErrMsg = None, nAlloc = 20, nRow = 0, nColumn = 0,
                 tr_rc = SQLITE_OK, mem = ms\<rparr>;
          (ok, res) = take_alloc res in
      if \<not> ok then Some (SQLITE_NOMEM, no_table)
      else do {
        (rc, res) \<leftarrow> exec_calls calls exec_rc res;
        Some (finish_table rc res)
      })"

section \<open>The array never overflows\<close>

lemma take_alloc_same:
  assumes "take_alloc p = (ok, q)"
  shows "azResult q = azResult p" "nAlloc q = nAlloc p" "nRow q = nRow p" "nColumn q = nColumn p"
    "nData q = nData p"
  using assms by (auto simp: take_alloc_def nData_def split: list.splits)

lemma push_Some: "nData p < nAlloc p \<Longrightarrow> push z p = Some (p\<lparr>azResult := azResult p @ [z]\<rparr>)"
  by (simp add: push_def)

definition grown :: "tab_result \<Rightarrow> nat \<Rightarrow> tab_result \<Rightarrow> bool" where
  "grown p n q \<longleftrightarrow> nAlloc q = nAlloc p \<and> nRow q = nRow p \<and> nData q \<le> nData p + n"

lemma copy_names_fits:
  "nData p + length cs \<le> nAlloc p \<Longrightarrow>
     \<exists>ok q. copy_names cs p = Some (ok, q) \<and> grown p (length cs) q"
proof (induction cs arbitrary: p)
  case Nil
  show ?case by (auto simp: grown_def)
next
  case (Cons c cs)
  obtain ok q where t: "take_alloc p = (ok, q)" by fastforce
  note q = take_alloc_same [OF t]
  let ?q = "q\<lparr>azResult := azResult q @ [Some c]\<rparr>"
  have "nData ?q + length cs \<le> nAlloc ?q" using Cons.prems q by (simp add: nData_def)
  from Cons.IH [OF this] show ?case
    using t q Cons.prems by (cases ok) (auto simp: push_Some nData_def grown_def)
qed

lemma copy_values_fits:
  "nData p + length vs \<le> nAlloc p \<Longrightarrow>
     \<exists>ok q. copy_values vs p = Some (ok, q) \<and> grown p (length vs) q"
proof (induction vs arbitrary: p)
  case Nil
  show ?case by (auto simp: grown_def)
next
  case (Cons v vs)
  have step: "\<exists>ok r. copy_values vs (q\<lparr>azResult := azResult q @ [z]\<rparr>) = Some (ok, r) \<and>
      grown p (length (v # vs)) r \<and> push z q = Some (q\<lparr>azResult := azResult q @ [z]\<rparr>)"
    if q: "azResult q = azResult p" "nAlloc q = nAlloc p" "nRow q = nRow p" for q z
  proof -
    let ?q = "q\<lparr>azResult := azResult q @ [z]\<rparr>"
    have "nData ?q + length vs \<le> nAlloc ?q" using Cons.prems q by (simp add: nData_def)
    from Cons.IH [OF this] show ?thesis
      using q Cons.prems by (auto simp: push_def nData_def grown_def)
  qed
  show ?case
  proof (cases v)
    case None
    with step [of p None] show ?thesis by auto
  next
    case (Some s)
    obtain ok q where t: "take_alloc p = (ok, q)" by fastforce
    note q = take_alloc_same [OF t]
    show ?thesis
    proof (cases ok)
      case True
      with Some t step [OF q(1-3), of "Some (take (sqlite3Strlen30 s) s)"] show ?thesis by auto
    next
      case False
      with Some t q Cons.prems show ?thesis by (auto simp: grown_def)
    qed
  qed
qed

lemma reserve_fits:
  assumes "reserve need p = (ok, q)" and "nData p \<le> nAlloc p"
  shows "nData q = nData p" "nRow q = nRow p" "nData p + need \<le> nAlloc q" "nColumn q = nColumn p"
    "azResult q = azResult p"
  using assms take_alloc_same [of "p\<lparr>nAlloc := nAlloc p * 2 + need\<rparr>" ok q]
  by (auto simp: reserve_def nData_def split: if_splits)

lemma copy_heading_fits:
  assumes "nData p + (if nRow p = 0 then length colv else 0) \<le> nAlloc p"
  shows "\<exists>ok q. copy_heading colv p = Some (ok, q) \<and>
    grown p (if nRow p = 0 then length colv else 0) q"
  using assms copy_names_fits [of "p\<lparr>nColumn := length colv\<rparr>" colv]
  by (auto simp: copy_heading_def grown_def nData_def)

lemma copy_row_fits:
  assumes "nData p + (case argv of None \<Rightarrow> 0 | Some vs \<Rightarrow> length vs) \<le> nAlloc p"
  shows "\<exists>stop q. copy_row argv p = Some (stop, q) \<and> nData q \<le> nAlloc q"
proof (cases argv)
  case None
  with assms show ?thesis by (simp add: copy_row_def)
next
  case (Some vs)
  with assms copy_values_fits [of p vs] show ?thesis
    by (auto simp: copy_row_def malloc_failed_def grown_def nData_def)
qed

text \<open>The slots in use are always allocated, and every row has as many values as the query has
  columns (\<^verbatim>\<open>sqlite3_exec\<close>'s contract), so the callback never writes outside the array.\<close>

lemma get_table_cb_fits:
  assumes "nData p \<le> nAlloc p" and "\<And>vs. argv = Some vs \<Longrightarrow> length vs = length colv"
  shows "\<exists>stop q. crsql_get_table_cb argv colv p = Some (stop, q) \<and> nData q \<le> nAlloc q"
proof -
  define need where "need = (if nRow p = 0 \<and> argv \<noteq> None then length colv * 2 else length colv)"
  obtain ok1 p1 where r: "reserve need p = (ok1, p1)" by fastforce
  note p1 = reserve_fits [OF r assms(1)]
  have "nData p1 + (if nRow p1 = 0 then length colv else 0) \<le> nAlloc p1"
    using p1 by (auto simp: need_def split: if_splits)
  from copy_heading_fits [OF this] obtain ok2 p2 where
    h: "copy_heading colv p1 = Some (ok2, p2)" "grown p1 (if nRow p = 0 then length colv else 0) p2"
    using p1 by auto
  have "nData p2 + (case argv of None \<Rightarrow> 0 | Some vs \<Rightarrow> length vs) \<le> nAlloc p2"
    using h(2) p1 assms(2) by (auto simp: need_def grown_def split: option.splits if_splits)
  from copy_row_fits [OF this] obtain stop q where
    c: "copy_row argv p2 = Some (stop, q)" "nData q \<le> nAlloc q" by auto
  have "nData p1 \<le> nAlloc p1" "nData p2 \<le> nAlloc p2"
    using p1 \<open>nData p2 + _ \<le> nAlloc p2\<close> by simp_all
  with r h(1) c show ?thesis
    unfolding crsql_get_table_cb_def Let_def need_def [symmetric]
    by (simp add: malloc_failed_def nData_def)
qed

lemma exec_calls_fits:
  "nData p \<le> nAlloc p \<Longrightarrow> list_all call_ok calls \<Longrightarrow>
     \<exists>rc' q. exec_calls calls rc p = Some (rc', q) \<and> nData q \<le> nAlloc q"
proof (induction calls arbitrary: p)
  case (Cons call calls)
  obtain colv argv where call: "call = (colv, argv)" by (cases call)
  then have "length vs = length colv" if "argv = Some vs" for vs using Cons.prems(2) that by (simp add: call_ok_def)
  then obtain stop q where "crsql_get_table_cb argv colv p = Some (stop, q)" "nData q \<le> nAlloc q"
    using get_table_cb_fits [OF Cons.prems(1)] by blast
  with Cons call show ?case by auto
qed simp

text \<open>Collecting a table never writes outside the array it grows, whichever allocations fail and whatever
  the statements return, even several with different columns.\<close>

theorem get_table_in_bounds:
  assumes "list_all call_ok calls"
  shows "crsql_get_table ms calls exec_rc \<noteq> None"
proof -
  define p where "p = \<lparr>azResult = [None], zErrMsg = None, nAlloc = 20, nRow = 0, nColumn = 0,
    tr_rc = 0, mem = ms\<rparr>"
  obtain ok q where t: "take_alloc p = (ok, q)" by fastforce
  then have "nData q \<le> nAlloc q"
    using take_alloc_same [OF t] by (simp add: p_def nData_def)
  from exec_calls_fits [OF this assms, of exec_rc] t show ?thesis
    by (auto simp: crsql_get_table_def p_def [symmetric] Let_def split: prod.split)
qed

section \<open>The result\<close>

lemma take_alloc_Nil: "mem p = [] \<Longrightarrow> take_alloc p = (True, p)"
  by (simp add: take_alloc_def)

lemma copy_names_eq:
  "mem p = [] \<Longrightarrow> nData p + length cs \<le> nAlloc p \<Longrightarrow>
     copy_names cs p = Some (True, p\<lparr>azResult := azResult p @ map Some cs\<rparr>)"
  by (induction cs arbitrary: p) (simp_all add: take_alloc_Nil push_Some nData_def)

lemma strlen30_take: "length v < 2 ^ 30 \<Longrightarrow> take (sqlite3Strlen30 v) v = v"
proof -
  assume v: "length v < 2 ^ 30"
  have "and (mask 30) (length v) = take_bit 30 (length v)"
    by (simp add: take_bit_eq_mask and.commute)
  moreover have "take_bit 30 (length v) = length v" using v by (rule take_bit_nat_eq_self)
  moreover have "mask 30 = (1073741823 :: nat)" by (simp add: mask_eq_exp_minus_1)
  ultimately show ?thesis by (simp add: sqlite3Strlen30_def)
qed

definition short_row :: "string option list \<Rightarrow> bool" where
  "short_row r \<longleftrightarrow> list_all (\<lambda>v. case v of None \<Rightarrow> True | Some s \<Rightarrow> length s < 2 ^ 30) r"

lemma copy_values_eq:
  "mem p = [] \<Longrightarrow> nData p + length vs \<le> nAlloc p \<Longrightarrow> short_row vs \<Longrightarrow>
     copy_values vs p = Some (True, p\<lparr>azResult := azResult p @ vs\<rparr>)"
  by (induction vs p rule: copy_values.induct)
     (simp_all add: take_alloc_Nil push_Some nData_def short_row_def strlen30_take)

definition collected :: "string list \<Rightarrow> string option list list \<Rightarrow> tab_result \<Rightarrow> bool" where
  "collected colv rows p \<longleftrightarrow>
     azResult p = None # (if rows = [] then [] else map Some colv @ concat rows) \<and>
     nRow p = length rows \<and> nColumn p = (if rows = [] then 0 else length colv) \<and>
     nData p \<le> nAlloc p \<and> mem p = [] \<and> tr_rc p = SQLITE_OK"

lemma get_table_cb_collects:
  assumes "collected colv rows p" and "length r = length colv" and "short_row r"
  shows "\<exists>q. crsql_get_table_cb (Some r) colv p = Some (0, q) \<and> collected colv (rows @ [r]) q"
proof -
  define need where "need = (if nRow p = 0 then length colv * 2 else length colv)"
  obtain ok p1 where rv: "reserve need p = (ok, p1)" by fastforce
  have p1: "ok" "mem p1 = []" "tr_rc p1 = SQLITE_OK" "azResult p1 = azResult p" "nRow p1 = nRow p"
    "nColumn p1 = nColumn p" "nData p + need \<le> nAlloc p1"
    using rv assms(1) by (auto simp: reserve_def take_alloc_def collected_def split: if_splits)
  define p2 where "p2 = (if rows = []
    then p1\<lparr>nColumn := length colv, azResult := azResult p1 @ map Some colv\<rparr> else p1)"
  have h: "copy_heading colv p1 = Some (True, p2)"
  proof (cases "rows = []")
    case True
    then have "nData (p1\<lparr>nColumn := length colv\<rparr>) + length colv \<le> nAlloc (p1\<lparr>nColumn := length colv\<rparr>)"
      using p1 assms(1) by (auto simp: need_def collected_def nData_def)
    with True p1 assms(1) show ?thesis
      by (simp add: copy_heading_def copy_names_eq p2_def collected_def)
  next
    case False
    with p1 assms(1) show ?thesis by (simp add: copy_heading_def p2_def collected_def)
  qed
  have "nData p2 + length r \<le> nAlloc p2"
    using p1 assms by (auto simp: p2_def need_def collected_def nData_def)
  then have "copy_values r p2 = Some (True, p2\<lparr>azResult := azResult p2 @ r\<rparr>)"
    using p1 assms by (intro copy_values_eq) (auto simp: p2_def)
  then have row: "copy_row (Some r) p2 =
      Some (0, p2\<lparr>azResult := azResult p2 @ r, nRow := nRow p2 + 1\<rparr>)"
    by (simp add: copy_row_def)
  have "nRow p2 = 0 \<or> nColumn p2 = length colv"
    using p1 assms by (auto simp: p2_def collected_def split: if_splits)
  with rv p1(1) h row have "crsql_get_table_cb (Some r) colv p =
      Some (0, p2\<lparr>azResult := azResult p2 @ r, nRow := nRow p2 + 1\<rparr>)"
    by (simp add: crsql_get_table_cb_def need_def)
  moreover have "collected colv (rows @ [r]) (p2\<lparr>azResult := azResult p2 @ r, nRow := nRow p2 + 1\<rparr>)"
    using p1 assms \<open>nData p2 + length r \<le> nAlloc p2\<close>
    by (auto simp: p2_def collected_def nData_def)
  ultimately show ?thesis by blast
qed

lemma exec_calls_collects:
  "collected colv rows p \<Longrightarrow> list_all (\<lambda>r. length r = length colv \<and> short_row r) rs \<Longrightarrow>
     \<exists>q. exec_calls (rows_of colv rs) rc p = Some (rc, q) \<and> collected colv (rows @ rs) q"
proof (induction rs arbitrary: rows p)
  case (Cons r rs)
  then obtain q where q: "crsql_get_table_cb (Some r) colv p = Some (0, q)"
    "collected colv (rows @ [r]) q"
    using get_table_cb_collects [of colv rows p r] by auto
  with Cons.IH [OF q(2)] Cons.prems show ?case by auto
qed simp

text \<open>When memory suffices and the query succeeds, the array is the column names followed by
  all rows in order, with the number of rows and columns; a query without rows gives an empty
  array and no columns.\<close>

theorem get_table_result:
  assumes "list_all (\<lambda>r. length r = length colv \<and> short_row r) rows"
  shows "crsql_get_table [] (rows_of colv rows) SQLITE_OK =
    Some (SQLITE_OK, \<lparr>pazResult = Some (if rows = [] then [] else map Some colv @ concat rows),
      pnRow = length rows, pnColumn = (if rows = [] then 0 else length colv)\<rparr>)"
proof -
  define p where "p = \<lparr>azResult = [None], zErrMsg = None, nAlloc = 20, nRow = 0, nColumn = 0,
    tr_rc = 0, mem = []\<rparr>"
  have "collected colv [] p" by (simp add: p_def collected_def nData_def)
  from exec_calls_collects [OF this assms, of "0"] obtain q where
    q: "exec_calls (rows_of colv rows) 0 p = Some (0, q)" "collected colv rows q" by auto
  have t: "take_alloc p = (True, p)" by (simp add: take_alloc_def p_def)
  have "take_alloc q = (True, q)" using q by (simp add: take_alloc_def collected_def)
  with q t show ?thesis
    by (auto simp: crsql_get_table_def finish_table_def p_def [symmetric] Let_def low_byte_def collected_def
        split: if_splits)
qed

theorem get_table_result_witness:
  "crsql_get_table [] (rows_of [''a'', ''b''] [[Some ''x'', None], [Some ''y'', Some ''z'']]) SQLITE_OK =
    Some (SQLITE_OK, \<lparr>pazResult = Some [Some ''a'', Some ''b'', Some ''x'', None, Some ''y'', Some ''z''],
      pnRow = 2, pnColumn = 2\<rparr>)"
  using get_table_result [of "[''a'', ''b'']" "[[Some ''x'', None], [Some ''y'', Some ''z'']]"]
  by (simp add: short_row_def)

text \<open>A query that SQLite itself aborts (an extended code of \<^verbatim>\<open>SQLITE_ABORT\<close>, as after a
  rollback) before the first row is reported as a success without rows.\<close>

theorem get_table_hides_abort:
  "crsql_get_table [] [] 516 = Some (SQLITE_OK, no_table)"
  by (simp add: crsql_get_table_def finish_table_def take_alloc_def low_byte_def)

end
