(* ===== verification/Db_Model.thy ===== *)
theory Db_Model imports Vtab_Read Get_Table begin

text \<open>
  The state of a connection and the SQL statements that run on it.

  SQLite itself is not translated. Each statement the extension runs has a meaning here, a
  function on the database that says what SQLite documents for it; statements whose text comes
  from a peer (a key or a value pasted into SQL) have a meaning only when that text is a list of
  literals, and otherwise go to the parameter \<open>env\<close>, about which nothing is assumed.

  Every call into SQLite may fail: \<open>faults\<close> is a list of result codes, one taken per call, where
  0 means the call runs normally (as do all calls once the list is empty). A call that fails
  has no effect.

  Names of tables and columns are taken to hold no quote characters. Columns have no declared
  type affinity and the binary collation. \<^verbatim>\<open>CHECK\<close> constraints, foreign keys and the user's own
  triggers are not modelled.
\<close>

section \<open>Pointers and state\<close>

datatype 'a ptr = Null | Live 'a | Freed

record clock_row =
  ck_pk :: "sqlval list"
  ck_col :: string
  ck_vrsn :: int
  ck_dbv :: int
  ck_site :: "blob option"

record clock_table =
  ct_pks :: "string list"
  ct_rows :: "clock_row list"

type_synonym row = "string \<Rightarrow> sqlval"

text \<open>An index as \<^verbatim>\<open>pragma_index_list\<close> and \<^verbatim>\<open>pragma_index_info\<close> show it; the name of an indexed
  column is NULL for an expression or the rowid.\<close>

record index_entry =
  ix_name :: string
  ix_origin :: string
  ix_unique :: bool
  ix_cols :: "string option list"

text \<open>\<open>ut_hidden\<close> are the generated and hidden columns, \<open>ut_dflt_given\<close> the columns declared with
  a default value, \<open>ut_fks\<close> the number of foreign key columns.\<close>

record user_table =
  ut_cols :: "column_info list"
  ut_hidden :: "column_info list"
  ut_dflt_given :: "string list"
  ut_dflt :: row
  ut_indices :: "index_entry list"
  ut_fks :: nat
  ut_rows :: "row list"

text \<open>A statement in the body of a trigger: it records the column \<open>ts_col\<close> in the table \<open>ts_clock\<close> under
  the values the columns \<open>ts_keys\<close> have in the new or the old row, if the column \<open>ts_changed\<close> has
  changed.\<close>

record trig_stmt =
  ts_clock :: string
  ts_keys :: "string list"
  ts_old :: bool
  ts_col :: string
  ts_changed :: "string option"

record peer_row =
  pr_site :: blob
  pr_vrsn :: int
  pr_tag :: int
  pr_event :: int

text \<open>\<open>db_master\<close> lists the tables in the order of \<^verbatim>\<open>sqlite_master\<close> and \<open>db_indexes\<close> the indices made
  by name; a trigger is kept with the statements of its body. \<open>db_site_ids\<close> is the
  content of \<^verbatim>\<open>__crsql_siteid\<close>.\<close>

record database =
  db_master :: "string list"
  db_indexes :: "string list"
  db_site_ids :: "sqlval list"
  db_user :: "string \<Rightarrow> user_table option"
  db_clock :: "string \<Rightarrow> clock_table option"
  db_peers :: "peer_row list"
  db_trigs :: "(string \<times> trig_stmt list) list"
  db_schema_version :: int
  db_data_version :: int

text \<open>\<^verbatim>\<open>crsql_ExtData\<close>. A prepared statement that never changes is \<open>True\<close> while it is not NULL;
  \<open>pDbVersionStmt\<close> is the list of tables its text names.\<close>

record ext_data =
  pPragmaSchemaVersionStmt :: bool
  pPragmaDataVersionStmt :: bool
  pTrackPeersStmt :: bool
  pragmaDataVersion :: int
  dbVersion :: int
  pragmaSchemaVersion :: int
  pragmaSchemaVersionForTableInfos :: int
  siteId :: blob
  pDbVersionStmt :: "string list option"
  zpTableInfos :: "table_info list ptr"
  tableInfosLen :: nat

text \<open>\<open>tx\<close> is the database when the open transaction began, \<open>saves\<close> its savepoints, the newest first;
  \<open>implicit_tx\<close> says that the oldest savepoint began the transaction.\<close>

record conn =
  db :: database
  ext :: ext_data
  syncBit :: int
  faults :: "int list"
  tx :: "database option"
  saves :: "(string \<times> database) list"
  implicit_tx :: bool

definition upd_db :: "(database \<Rightarrow> database) \<Rightarrow> conn \<Rightarrow> conn" where
  "upd_db f c = c\<lparr>db := f (db c)\<rparr>"

definition upd_ext :: "(ext_data \<Rightarrow> ext_data) \<Rightarrow> conn \<Rightarrow> conn" where
  "upd_ext f c = c\<lparr>ext := f (ext c)\<rparr>"

lemma upd_simps [simp]:
  "db (upd_db f c) = f (db c)" "ext (upd_db f c) = ext c" "syncBit (upd_db f c) = syncBit c"
  "faults (upd_db f c) = faults c" "db (upd_ext g c) = db c" "ext (upd_ext g c) = g (ext c)"
  "syncBit (upd_ext g c) = syncBit c" "faults (upd_ext g c) = faults c"
  by (simp_all add: upd_db_def upd_ext_def)

abbreviation (input) same_tx :: "conn \<Rightarrow> conn \<Rightarrow> bool" where
  "same_tx c c' \<equiv> tx c' = tx c \<and> saves c' = saves c \<and> implicit_tx c' = implicit_tx c"

lemma upd_tx [simp]:
  "tx (upd_db f c) = tx c" "saves (upd_db f c) = saves c" "implicit_tx (upd_db f c) = implicit_tx c"
  "tx (upd_ext g c) = tx c" "saves (upd_ext g c) = saves c" "implicit_tx (upd_ext g c) = implicit_tx c"
  by (simp_all add: upd_db_def upd_ext_def)

section \<open>Calls that may fail\<close>

definition sql_call :: "conn \<Rightarrow> int \<times> conn" where
  "sql_call c = (case faults c of [] \<Rightarrow> (0, c)
     | f # fs \<Rightarrow> (if f \<in> {SQLITE_OK, SQLITE_ROW, SQLITE_DONE} then 0 else f, c\<lparr>faults := fs\<rparr>))"

text \<open>The outcome of preparing a statement and stepping it once: a failed \<^verbatim>\<open>prepare\<close>, the code of
  a step that gave no row (\<^verbatim>\<open>SQLITE_DONE\<close> or an error), or the row's first column.\<close>

datatype stepres = PrepFail int | Stepped int | GotRow sqlval

type_synonym query = "conn \<Rightarrow> stepres \<times> conn"
type_synonym command = "conn \<Rightarrow> int \<times> conn"

record env =
  raw_query :: "string \<Rightarrow> query"
  raw_exec :: "string \<Rightarrow> command"

definition run_query :: "query \<Rightarrow> query" where
  "run_query meaning c =
     (let (f, c) = sql_call c in
      if f \<noteq> 0 then (PrepFail f, c)
      else let (f, c) = sql_call c in
        if f \<noteq> 0 then (Stepped f, c) else meaning c)"

definition run_exec :: "command \<Rightarrow> command" where
  "run_exec meaning c =
     (let (f, c) = sql_call c in if f \<noteq> 0 then (f, c) else meaning c)"

lemma sql_call_ok [simp]: "faults c = [] \<Longrightarrow> sql_call c = (0, c)"
  by (simp add: sql_call_def)

lemma run_query_ok [simp]: "faults c = [] \<Longrightarrow> run_query m c = m c"
  by (simp add: run_query_def)

lemma run_exec_ok [simp]: "faults c = [] \<Longrightarrow> run_exec m c = m c"
  by (simp add: run_exec_def)

lemma sql_call_same:
  "db (snd (sql_call c)) = db c" "ext (snd (sql_call c)) = ext c"
  "syncBit (snd (sql_call c)) = syncBit c"
  by (auto simp: sql_call_def split: list.split)

lemma sql_call_sameD:
  assumes "sql_call c = (f, c')"
  shows "db c' = db c" "ext c' = ext c" "syncBit c' = syncBit c"
  using sql_call_same [of c] assms by simp_all

section \<open>Equality of values\<close>

text \<open>SQL's \<^verbatim>\<open>=\<close> compares numbers by value (an INTEGER may equal a REAL), texts and blobs byte by
  byte, and is never true of NULL. A decimal number is brought to the form \<open>m * 10 ^ e\<close> with
  \<open>m\<close> not divisible by 10.\<close>

function num_key :: "int \<Rightarrow> int \<Rightarrow> int \<times> int" where
  "num_key m e =
     (if m = 0 then (0, 0) else if m mod 10 = 0 then num_key (m div 10) (e + 1) else (m, e))"
  by pat_completeness auto

termination
proof (relation "measure (\<lambda>(m, e). nat \<bar>m\<bar>)")
  fix m e :: int
  assume "m \<noteq> 0" and "m mod 10 = 0"
  then obtain k where "m = 10 * k" "k \<noteq> 0" by (auto simp: mod_eq_0_iff_dvd dvd_def)
  then have "\<bar>m div 10\<bar> < \<bar>m\<bar>" by simp
  then show "((m div 10, e + 1), (m, e)) \<in> measure (\<lambda>(m, e). nat \<bar>m\<bar>)" by simp
qed simp

declare num_key.simps [simp del]

datatype keyval = KNum "int \<times> int" | KInf bool | KText string | KBlob blob

definition exponent :: "(bool \<times> string) option \<Rightarrow> int" where
  "exponent ex = (case ex of None \<Rightarrow> 0
     | Some (neg, ds) \<Rightarrow> if neg then - int (read_nat ds) else int (read_nat ds))"

fun sql_key :: "sqlval \<Rightarrow> keyval option" where
  "sql_key VNull = None"
| "sql_key (VInt i) = Some (KNum (num_key i 0))"
| "sql_key (VReal (Fin neg ip fp ex)) =
     (let m = int (read_nat (ip @ fp)) in
      Some (KNum (num_key (if neg then - m else m) (exponent ex - int (length fp)))))"
| "sql_key (VReal (Infinite neg)) = Some (KInf neg)"
| "sql_key (VText s) = Some (KText s)"
| "sql_key (VBlob b) = Some (KBlob b)"

definition sql_eq :: "sqlval \<Rightarrow> sqlval \<Rightarrow> bool" where
  "sql_eq v w \<longleftrightarrow> sql_key v \<noteq> None \<and> sql_key v = sql_key w"

definition sql_eqs :: "sqlval list \<Rightarrow> sqlval list \<Rightarrow> bool" where
  "sql_eqs vs ws \<longleftrightarrow> length vs = length ws \<and> list_all2 sql_eq vs ws"

definition not_null :: "sqlval list \<Rightarrow> bool" where
  "not_null vs \<longleftrightarrow> VNull \<notin> set vs"

lemma sql_key_None [simp]: "sql_key v = None \<longleftrightarrow> v = VNull"
  by (cases v rule: sql_key.cases) (simp_all add: Let_def)

lemma sql_eq_sym: "sql_eq v w \<Longrightarrow> sql_eq w v"
  by (auto simp: sql_eq_def)

lemma sql_eq_trans: "sql_eq u v \<Longrightarrow> sql_eq v w \<Longrightarrow> sql_eq u w"
  by (auto simp: sql_eq_def)

lemma sql_eq_refl: "v \<noteq> VNull \<Longrightarrow> sql_eq v v"
  by (simp add: sql_eq_def)

lemma sql_eq_VNull [simp]: "\<not> sql_eq VNull v" "\<not> sql_eq v VNull"
  by (auto simp: sql_eq_def)

lemma sql_eqs_sym: "sql_eqs vs ws \<Longrightarrow> sql_eqs ws vs"
  by (auto simp: sql_eqs_def list_all2_conv_all_nth intro: sql_eq_sym)

lemma sql_eqs_trans: "sql_eqs us vs \<Longrightarrow> sql_eqs vs ws \<Longrightarrow> sql_eqs us ws"
  unfolding sql_eqs_def using list_all2_trans [of sql_eq sql_eq sql_eq us vs ws] sql_eq_trans by auto

lemma sql_eqs_refl: "not_null vs \<Longrightarrow> sql_eqs vs vs"
  by (auto simp: sql_eqs_def list_all2_conv_all_nth not_null_def in_set_conv_nth intro!: sql_eq_refl)

lemma sql_eqs_cong: "sql_eqs vs ws \<Longrightarrow> sql_eqs us vs = sql_eqs us ws"
  using sql_eqs_sym sql_eqs_trans by blast

lemma sql_eqs_not_null: "sql_eqs vs ws \<Longrightarrow> not_null vs"
  by (auto simp: sql_eqs_def list_all2_conv_all_nth not_null_def in_set_conv_nth)

section \<open>Conditions on the key columns\<close>

text \<open>The condition a WHERE list states, when each part is a literal and each name a column of the
  table.\<close>

definition where_vals :: "string list \<Rightarrow> (string \<times> string) list \<Rightarrow> (string \<times> sqlval) list option" where
  "where_vals cols w =
     (if list_all (\<lambda>(n, p). n \<in> set cols) w
      then those (map (\<lambda>(n, p). map_option (Pair n) (eval_lit p)) w) else None)"

definition where_holds :: "(string \<times> sqlval) list \<Rightarrow> row \<Rightarrow> bool" where
  "where_holds w r \<longleftrightarrow> list_all (\<lambda>(n, v). sql_eq (r n) v) w"

definition clock_cell :: "clock_table \<Rightarrow> clock_row \<Rightarrow> row" where
  "clock_cell t r n = (case map_of (zip (ct_pks t) (ck_pk r)) n of Some v \<Rightarrow> v | None \<Rightarrow> VNull)"

lemma those_map_lits:
  "length ns = length vs \<Longrightarrow> list_all (\<lambda>v. wf_val v \<and> finite_val v) vs \<Longrightarrow>
     those (map (\<lambda>(n, p). map_option (Pair n) (eval_lit p)) (zip ns (map quote_val vs))) =
     Some (zip ns vs)"
  by (induction ns vs rule: list_induct2) (simp_all add: eval_lit_quote)

lemma where_vals_quotes:
  assumes "length ns = length vs" and "list_all (\<lambda>v. wf_val v \<and> finite_val v) vs"
    and "set ns \<subseteq> set cols"
  shows "where_vals cols (zip ns (map quote_val vs)) = Some (zip ns vs)"
  using assms those_map_lits [OF assms(1,2)]
  by (auto simp: where_vals_def list_all_iff dest: set_zip_leftD)

lemma where_holds_zip:
  "distinct ns \<Longrightarrow> length ns = length vs \<Longrightarrow>
     where_holds (zip ns vs) r \<longleftrightarrow> sql_eqs vs (map r ns)"
proof (induction ns vs rule: list_induct2')
  case (4 n ns v vs)
  then show ?case
    by (auto simp: where_holds_def sql_eqs_def intro: sql_eq_sym)
qed (auto simp: where_holds_def sql_eqs_def)

lemma clock_cells:
  "distinct (ct_pks t) \<Longrightarrow> length (ct_pks t) = length (ck_pk r) \<Longrightarrow>
     map (clock_cell t r) (ct_pks t) = ck_pk r"
  by (rule nth_equalityI) (simp_all add: clock_cell_def map_of_zip_nth)

lemma where_holds_clock:
  assumes "distinct (ct_pks t)" and "length (ct_pks t) = length (ck_pk r)"
    and "length vs = length (ct_pks t)"
  shows "where_holds (zip (ct_pks t) vs) (clock_cell t r) \<longleftrightarrow> sql_eqs vs (ck_pk r)"
  using assms by (simp add: where_holds_zip clock_cells)

section \<open>Tables by name\<close>

text \<open>\<^verbatim>\<open>LIKE\<close> ignores the case of ASCII letters; \<^verbatim>\<open>%\<close> matches any text and \<^verbatim>\<open>_\<close> any character.\<close>

definition fold_case :: "char \<Rightarrow> char" where
  "fold_case c = (let n = (of_char c :: nat) in if 65 \<le> n \<and> n \<le> 90 then char_of (n + 32) else c)"

fun like :: "string \<Rightarrow> string \<Rightarrow> bool" where
  "like [] s \<longleftrightarrow> s = []"
| "like (p # ps) [] \<longleftrightarrow> p = CHR ''%'' \<and> like ps []"
| "like (p # ps) (c # cs) \<longleftrightarrow>
     (if p = CHR ''%'' then like ps (c # cs) \<or> like (p # ps) cs
      else (p = CHR ''_'' \<or> fold_case p = fold_case c) \<and> like ps cs)"

definition clock_tables_select :: "database \<Rightarrow> string list" where
  "clock_tables_select d = filter (like ''%__crsql_clock'') (db_master d)"

definition clock_name :: "string \<Rightarrow> string" where
  "clock_name tbl = tbl @ ''__crsql_clock''"

lemma like_suffix_self: "list_all (\<lambda>c. c \<noteq> CHR ''%'') p \<Longrightarrow> like p p"
  by (induction p) auto

lemma like_percent: "like ps s \<Longrightarrow> like (CHR ''%'' # ps) (u @ s)"
  by (induction u) (cases s; cases ps; auto)+

lemma like_clock_name: "like ''%__crsql_clock'' (clock_name tbl)"
  unfolding clock_name_def by (rule like_percent, rule like_suffix_self) simp

text \<open>A query for the names of the clock tables, run through \<^verbatim>\<open>crsql_get_table\<close>.\<close>

definition get_clock_tables :: "conn \<Rightarrow> (int \<times> table_result) option \<times> conn" where
  "get_clock_tables c =
     (let (f, c) = sql_call c in
      (crsql_get_table [] (rows_of [''tbl_name'']
         (if f \<noteq> 0 then [] else map (\<lambda>n. [Some n]) (clock_tables_select (db c)))) f, c))"

section \<open>The bit that turns the triggers off\<close>

text \<open>\<^verbatim>\<open>crsql_internal_sync_bit\<close>: without argument it reads, with one (as
  \<^verbatim>\<open>sqlite3_value_int\<close> reads it) it writes and returns NULL.\<close>

definition crsqlSyncBit :: "int list \<Rightarrow> conn \<Rightarrow> sqlval \<times> conn" where
  "crsqlSyncBit args c =
     (case args of
        [] \<Rightarrow> (VInt (syncBit c), c)
      | newValue # _ \<Rightarrow> (VNull, c\<lparr>syncBit := newValue\<rparr>))"

definition SET_SYNC_BIT :: command where
  "SET_SYNC_BIT c = (let (v, c) = crsqlSyncBit [1] c in (SQLITE_OK, c))"

definition CLEAR_SYNC_BIT :: command where
  "CLEAR_SYNC_BIT c = (let (v, c) = crsqlSyncBit [0] c in (SQLITE_OK, c))"

lemma SET_SYNC_BIT_eq: "SET_SYNC_BIT c = (0, c\<lparr>syncBit := 1\<rparr>)"
  by (simp add: SET_SYNC_BIT_def crsqlSyncBit_def)

lemma CLEAR_SYNC_BIT_eq: "CLEAR_SYNC_BIT c = (0, c\<lparr>syncBit := 0\<rparr>)"
  by (simp add: CLEAR_SYNC_BIT_def crsqlSyncBit_def)

end
