(* ===== verification/Ext_Data.thy ===== *)
theory Ext_Data imports Db_Model begin

text \<open>
  The data kept per connection (\<^verbatim>\<open>core/src/ext-data.c\<close>): the cached database version, the cached
  descriptions of the replicated tables, and the functions of \<^verbatim>\<open>tableinfo.c\<close> and \<^verbatim>\<open>util.c\<close> that
  fill them from the database.

  A function returns its C result (a result code, where the C function has one), the error message
  if it sets one, and the new connection. An outer \<open>None\<close> is undefined behaviour: a failed
  assertion, a use of freed memory or a double free.
\<close>

abbreviation (input) MIN_POSSIBLE_DB_VERSION :: int where "MIN_POSSIBLE_DB_VERSION \<equiv> 0"

abbreviation (input) CRSQL_CLOCK_LEN :: nat where "CRSQL_CLOCK_LEN \<equiv> 13"

section \<open>Reading table descriptions\<close>

definition crsql_getCount :: "query \<Rightarrow> conn \<Rightarrow> int \<times> conn" where
  "crsql_getCount q c =
     (case run_query q c of
        (PrepFail rc, c) \<Rightarrow> (- rc, c)
      | (Stepped rc, c) \<Rightarrow> (- rc, c)
      | (GotRow v, c) \<Rightarrow> ((case v of VInt i \<Rightarrow> i | _ \<Rightarrow> 0), c))"

text \<open>\<^verbatim>\<open>pragma_table_info\<close> of a table: nothing when there is no such table. The columns of a clock
  table are never asked for.\<close>

definition pragma_table_info :: "database \<Rightarrow> string \<Rightarrow> column_info list" where
  "pragma_table_info d tbl = (case db_user d tbl of None \<Rightarrow> [] | Some t \<Rightarrow> ut_cols t)"

definition count_columns :: "string \<Rightarrow> query" where
  "count_columns tbl c = (GotRow (VInt (int (length (pragma_table_info (db c) tbl)))), c)"

text \<open>The loop over the rows still to come: each step may fail, and a failing step ends the loop
  like the end of the rows does. \<open>None\<close>: more rows than counted.\<close>

fun read_columns :: "nat \<Rightarrow> column_info list \<Rightarrow> conn \<Rightarrow> column_info list option \<times> conn" where
  "read_columns room [] c = (let (f, c) = sql_call c in (Some [], c))"
| "read_columns room (col # cols) c =
     (let (f, c) = sql_call c in
      if f \<noteq> 0 then (Some [], c)
      else case room of
        0 \<Rightarrow> (None, c)
      | Suc room \<Rightarrow>
          (case read_columns room cols c of
             (None, c) \<Rightarrow> (None, c)
           | (Some infos, c) \<Rightarrow> (Some (col # infos), c)))"

text \<open>The first step and the loop after it.\<close>

definition crsql_getTableInfo ::
  "string \<Rightarrow> conn \<Rightarrow> (int \<times> table_info option \<times> string option \<times> conn) option" where
  "crsql_getTableInfo tblName c =
     (let (numColInfos, c) = crsql_getCount (count_columns tblName) c in
      if numColInfos < 0 then
        Some (numColInfos, None, Some (''Failed to find columns for crr -- '' @ tblName), c)
      else let (f, c) = sql_call c in
      if f \<noteq> 0 then Some (f, None, Some (''Failed to prepare select for crr -- '' @ tblName), c)
      else let (f, c) = sql_call c; cols = pragma_table_info (db c) tblName;
               rc = (if f \<noteq> 0 then f else if cols = [] then SQLITE_DONE else SQLITE_ROW) in
      if rc \<noteq> SQLITE_ROW then
        Some (rc, None, Some (''Failed to parse crr definition -- '' @ tblName), c)
      else if nat numColInfos = 0 then Some (SQLITE_ERROR, None, None, c)
      else case read_columns (nat numColInfos - 1) (tl cols) c of
        (None, c) \<Rightarrow> Some (SQLITE_ERROR, None, None, c)
      | (Some infos, c) \<Rightarrow>
          if length (hd cols # infos) < nat numColInfos then
            Some (SQLITE_ERROR, None, Some (''Number of fetched columns did not match expected number of '' @
              ''columns''), c)
          else do {
            t \<leftarrow> crsql_tableInfo tblName (hd cols # infos);
            Some (SQLITE_OK, Some t, None, c)
          })"

fun pull_infos ::
  "string list \<Rightarrow> conn \<Rightarrow> (int \<times> table_info list \<times> string option \<times> conn) option" where
  "pull_infos [] c = Some (SQLITE_OK, [], None, c)"
| "pull_infos (n # ns) c = do {
     let baseTableName = take (length n - CRSQL_CLOCK_LEN) n;
     (rc, t, err, c) \<leftarrow> crsql_getTableInfo baseTableName c;
     case t of
       None \<Rightarrow> Some (rc, [], err, c)
     | Some t \<Rightarrow> do {
         (rc, ts, err, c) \<leftarrow> pull_infos ns c;
         Some (rc, t # ts, err, c)
       }
   }"

text \<open>What it writes through its pointer arguments: \<open>None\<close> when it leaves them alone.\<close>

definition crsql_pullAllTableInfos ::
  "conn \<Rightarrow> (int \<times> table_info list option \<times> string option \<times> conn) option" where
  "crsql_pullAllTableInfos c = do {
     let (res, c) = get_clock_tables c;
     (rc, zzClockTableNames) \<leftarrow> res;
     if rc \<noteq> SQLITE_OK then
       Some (SQLITE_ERROR, None, Some ''crsql internal error discovering crr tables.'', c)
     else if pnRow zzClockTableNames = 0 then Some (SQLITE_OK, None, None, c)
     else do {
       az \<leftarrow> pazResult zzClockTableNames;
       (rc, ts, err, c) \<leftarrow> pull_infos (map fmt_s (take (pnRow zzClockTableNames) (tl az))) c;
       if rc \<noteq> SQLITE_OK then Some (rc, None, err, c) else Some (SQLITE_OK, Some ts, None, c)
     }
   }"

text \<open>\<^verbatim>\<open>crsql_freeAllTableInfos\<close>: whether it is defined on this pointer and length.\<close>

definition crsql_freeAllTableInfos :: "table_info list ptr \<Rightarrow> nat \<Rightarrow> unit option" where
  "crsql_freeAllTableInfos tableInfos len =
     (case tableInfos of
        Null \<Rightarrow> if len = 0 then Some () else None
      | Live ts \<Rightarrow> if len \<le> length ts then Some () else None
      | Freed \<Rightarrow> None)"

section \<open>Schema and data versions\<close>

abbreviation (input) DB_VERSION_SCHEMA_VERSION :: int where "DB_VERSION_SCHEMA_VERSION \<equiv> 0"
abbreviation (input) TABLE_INFO_SCHEMA_VERSION :: int where "TABLE_INFO_SCHEMA_VERSION \<equiv> 1"

text \<open>Stepping a NULL statement is \<^verbatim>\<open>SQLITE_MISUSE\<close>.\<close>

definition step_perma :: "bool \<Rightarrow> conn \<Rightarrow> int \<times> conn" where
  "step_perma stmt c = (if \<not> stmt then (SQLITE_MISUSE, c)
     else let (f, c) = sql_call c in (if f \<noteq> 0 then f else SQLITE_ROW, c))"

definition crsql_fetchPragmaSchemaVersion :: "int \<Rightarrow> conn \<Rightarrow> int \<times> conn" where
  "crsql_fetchPragmaSchemaVersion which c =
     (let (rc, c) = step_perma (pPragmaSchemaVersionStmt (ext c)) c in
      if rc = SQLITE_ROW then
        let version = db_schema_version (db c) in
        if which = DB_VERSION_SCHEMA_VERSION then
          (if version > pragmaSchemaVersion (ext c)
           then (1, upd_ext (pragmaSchemaVersion_update (\<lambda>_. version)) c) else (0, c))
        else
          (if version > pragmaSchemaVersionForTableInfos (ext c)
           then (1, upd_ext (pragmaSchemaVersionForTableInfos_update (\<lambda>_. version)) c) else (0, c))
      else (-1, c))"

definition crsql_fetchPragmaDataVersion :: "conn \<Rightarrow> int \<times> conn" where
  "crsql_fetchPragmaDataVersion c =
     (let (rc, c) = step_perma (pPragmaDataVersionStmt (ext c)) c in
      if rc \<noteq> SQLITE_ROW then (-1, c)
      else let version = db_data_version (db c) in
        if version \<noteq> pragmaDataVersion (ext c)
        then (1, upd_ext (pragmaDataVersion_update (\<lambda>_. version)) c) else (0, c))"

section \<open>The database version\<close>

text \<open>A table that only looks like a clock table has no \<^verbatim>\<open>__crsql_db_version\<close> column, and preparing
  the union over the clock tables fails.\<close>

definition db_versions :: "database \<Rightarrow> string \<Rightarrow> int list option" where
  "db_versions d n = map_option (\<lambda>t. map ck_dbv (ct_rows t)) (db_clock d n)"

definition max_version :: "database \<Rightarrow> string list \<Rightarrow> stepres" where
  "max_version d names =
     (case those (map (db_versions d) names) of
        None \<Rightarrow> Stepped SQLITE_ERROR
      | Some vss \<Rightarrow>
          (case concat vss of [] \<Rightarrow> GotRow VNull | v # vs \<Rightarrow> GotRow (VInt (fold max vs v))))"

definition crsql_recreateDbVersionStmt :: "conn \<Rightarrow> (int \<times> conn) option" where
  "crsql_recreateDbVersionStmt c = do {
     let c = upd_ext (pDbVersionStmt_update (\<lambda>_. None)) c;
     let (res, c) = get_clock_tables c;
     (ignored_rc, rClockTableNames) \<leftarrow> res;
     if pnRow rClockTableNames = 0 then Some (-1, c)
     else do {
       az \<leftarrow> pazResult rClockTableNames;
       let names = map fmt_s (take (pnRow rClockTableNames) (tl az));
       let (f, c) = sql_call c;
       let rc = (if f \<noteq> 0 then f
                 else if list_all (\<lambda>n. db_versions (db c) n \<noteq> None) names then SQLITE_OK
                 else SQLITE_ERROR);
       Some (rc, if rc = SQLITE_OK then upd_ext (pDbVersionStmt_update (\<lambda>_. Some names)) c else c)
     }
   }"

definition set_dbVersion :: "int \<Rightarrow> conn \<Rightarrow> conn" where
  "set_dbVersion v = upd_ext (dbVersion_update (\<lambda>_. v))"

text \<open>Stepping the statement, from line 215 on. A NULL statement cannot be stepped.\<close>

definition step_db_version :: "conn \<Rightarrow> stepres \<times> conn" where
  "step_db_version c =
     (case pDbVersionStmt (ext c) of
        None \<Rightarrow> (Stepped SQLITE_MISUSE, c)
      | Some names \<Rightarrow>
          (let (f, c) = sql_call c in (if f \<noteq> 0 then Stepped f else max_version (db c) names, c)))"

definition read_db_version :: "conn \<Rightarrow> int \<times> string option \<times> conn" where
  "read_db_version c =
     (case step_db_version c of
        (GotRow v, c) \<Rightarrow>
          (case v of
             VNull \<Rightarrow> (SQLITE_OK, None, set_dbVersion MIN_POSSIBLE_DB_VERSION c)
           | VInt i \<Rightarrow> (SQLITE_OK, None, set_dbVersion i c)
           | _ \<Rightarrow> (SQLITE_OK, None, set_dbVersion 0 c))
      | (Stepped rc, c) \<Rightarrow>
          if rc = SQLITE_DONE then (SQLITE_OK, None, set_dbVersion MIN_POSSIBLE_DB_VERSION c)
          else (SQLITE_ERROR, Some ''errors when stepping version statement'', c)
      | (PrepFail rc, c) \<Rightarrow> (SQLITE_ERROR, Some ''errors when stepping version statement'', c))"

definition crsql_fetchDbVersionFromStorage ::
  "conn \<Rightarrow> (int \<times> string option \<times> conn) option" where
  "crsql_fetchDbVersionFromStorage c =
     (let (bSchemaChanged, c) =
        (if pDbVersionStmt (ext c) = None then (1, c)
         else crsql_fetchPragmaSchemaVersion DB_VERSION_SCHEMA_VERSION c) in
      if bSchemaChanged < 0 then
        Some (SQLITE_ERROR, Some ''failed to fetch the pragma schema version'', c)
      else if bSchemaChanged > 0 then do {
        (rc, c) \<leftarrow> crsql_recreateDbVersionStmt c;
        if rc = -1 then Some (SQLITE_OK, None, set_dbVersion MIN_POSSIBLE_DB_VERSION c)
        else if rc \<noteq> SQLITE_OK then
          Some (rc, Some ''failed to create the db version statement'', c)
        else Some (read_db_version c)
      }
      else Some (read_db_version c))"

definition crsql_getDbVersion :: "conn \<Rightarrow> (int \<times> string option \<times> conn) option" where
  "crsql_getDbVersion c =
     (let (rc, c) = crsql_fetchPragmaDataVersion c in
      if rc = -1 then Some (SQLITE_ERROR, Some ''failed to fetch PRAGMA data_version'', c)
      else if dbVersion (ext c) \<noteq> -1 \<and> rc = 0 then Some (SQLITE_OK, None, c)
      else crsql_fetchDbVersionFromStorage c)"

section \<open>Keeping the table descriptions up to date\<close>

definition set_infos :: "table_info list ptr \<Rightarrow> nat \<Rightarrow> conn \<Rightarrow> conn" where
  "set_infos p n = upd_ext (\<lambda>x. x\<lparr>zpTableInfos := p, tableInfosLen := n\<rparr>)"

text \<open>Releasing memory leaves the pointer as it is, now dangling.\<close>

definition freed_ptr :: "'a ptr \<Rightarrow> 'a ptr" where
  "freed_ptr p = (case p of Null \<Rightarrow> Null | _ \<Rightarrow> Freed)"

definition crsql_ensureTableInfosAreUpToDate ::
  "conn \<Rightarrow> (int \<times> string option \<times> conn) option" where
  "crsql_ensureTableInfosAreUpToDate c =
     (let (bSchemaChanged, c) = crsql_fetchPragmaSchemaVersion TABLE_INFO_SCHEMA_VERSION c in
      if bSchemaChanged < 0 then Some (SQLITE_ERROR, None, c)
      else if bSchemaChanged \<noteq> 0 \<or> zpTableInfos (ext c) = Null then do {
        crsql_freeAllTableInfos (zpTableInfos (ext c)) (tableInfosLen (ext c));
        let c = set_infos (freed_ptr (zpTableInfos (ext c))) (tableInfosLen (ext c)) c;
        (rc, pulled, err, c) \<leftarrow> crsql_pullAllTableInfos c;
        let c = (case pulled of None \<Rightarrow> c | Some ts \<Rightarrow> set_infos (Live ts) (length ts) c);
        if rc \<noteq> SQLITE_OK then do {
          crsql_freeAllTableInfos (zpTableInfos (ext c)) (tableInfosLen (ext c));
          Some (rc, err, set_infos Null 0 c)
        }
        else Some (rc, err, c)
      }
      else Some (SQLITE_OK, None, c))"

section \<open>Creation and release\<close>

definition fresh_ext :: "blob \<Rightarrow> ext_data" where
  "fresh_ext mem_site =
     \<lparr>pPragmaSchemaVersionStmt = True, pPragmaDataVersionStmt = True, pTrackPeersStmt = True,
      pragmaDataVersion = -1, dbVersion = -1, pragmaSchemaVersion = -1,
      pragmaSchemaVersionForTableInfos = -1, siteId = mem_site, pDbVersionStmt = None,
      zpTableInfos = Null, tableInfosLen = 0\<rparr>"

text \<open>\<open>mem_site\<close> is what the 16 allocated bytes hold; \<open>False\<close> is the NULL result.\<close>

definition crsql_newExtData :: "blob \<Rightarrow> conn \<Rightarrow> bool \<times> conn" where
  "crsql_newExtData mem_site c =
     (let (rc, c) = sql_call c in
      if rc \<noteq> SQLITE_OK then (False, c)
      else let (rc, c) = sql_call c in
      if rc \<noteq> SQLITE_OK then (False, c)
      else let (f, c) = sql_call c;
               rc = (if f \<noteq> 0 then f
                     else if ''crsql_tracked_peers'' \<in> set (db_master (db c)) then SQLITE_OK
                     else SQLITE_ERROR) in
      if rc \<noteq> SQLITE_OK then (False, c)
      else let (rc, c) = crsql_fetchPragmaDataVersion (c\<lparr>ext := fresh_ext mem_site\<rparr>) in
      if rc = -1 then (False, c) else (True, c))"

definition crsql_finalize :: "conn \<Rightarrow> conn" where
  "crsql_finalize = upd_ext (\<lambda>x. x\<lparr>pDbVersionStmt := None, pPragmaSchemaVersionStmt := False,
     pPragmaDataVersionStmt := False, pTrackPeersStmt := False\<rparr>)"

definition crsql_freeExtData :: "conn \<Rightarrow> unit option" where
  "crsql_freeExtData c = crsql_freeAllTableInfos (zpTableInfos (ext c)) (tableInfosLen (ext c))"

section \<open>What the functions compute\<close>

named_theorems ext_simps

lemma get_clock_tables_ok [ext_simps]:
  assumes "faults c = []" and "list_all (\<lambda>n. length n < 2 ^ 30) (clock_tables_select (db c))"
  shows "get_clock_tables c = (Some (SQLITE_OK,
    \<lparr>pazResult = Some (if clock_tables_select (db c) = [] then []
        else Some ''tbl_name'' # map Some (clock_tables_select (db c))),
      pnRow = length (clock_tables_select (db c)),
      pnColumn = (if clock_tables_select (db c) = [] then 0 else 1)\<rparr>), c)"
proof -
  let ?ns = "clock_tables_select (db c)"
  have "list_all (\<lambda>r. length r = length [''tbl_name''] \<and> short_row r) (map (\<lambda>n. [Some n]) ?ns)"
    using assms(2) by (auto simp: list_all_iff short_row_def)
  from get_table_result [OF this] assms(1) show ?thesis
    by (auto simp: get_clock_tables_def concat_map_singleton)
qed

definition names_short :: "database \<Rightarrow> bool" where
  "names_short d \<longleftrightarrow> list_all (\<lambda>n. length n < 2 ^ 30) (clock_tables_select d)"

definition clocks_ok :: "database \<Rightarrow> bool" where
  "clocks_ok d \<longleftrightarrow> names_short d \<and> list_all (\<lambda>n. db_clock d n \<noteq> None) (clock_tables_select d)"

text \<open>The largest version in any clock table, 0 without one.\<close>

definition all_versions :: "database \<Rightarrow> int list" where
  "all_versions d = concat (map (\<lambda>n. case db_clock d n of None \<Rightarrow> []
     | Some t \<Rightarrow> map ck_dbv (ct_rows t)) (clock_tables_select d))"

definition storage_version :: "database \<Rightarrow> int" where
  "storage_version d = (case all_versions d of [] \<Rightarrow> 0 | v # vs \<Rightarrow> fold max vs v)"

text \<open>The prepared statement names all clock tables unless the schema has changed since.\<close>

definition stmts_live :: "conn \<Rightarrow> bool" where
  "stmts_live c \<longleftrightarrow> pPragmaSchemaVersionStmt (ext c) \<and> pPragmaDataVersionStmt (ext c)"

definition version_stmt_ok :: "conn \<Rightarrow> bool" where
  "version_stmt_ok c \<longleftrightarrow>
     (case pDbVersionStmt (ext c) of None \<Rightarrow> True
      | Some names \<Rightarrow> db_schema_version (db c) \<le> pragmaSchemaVersion (ext c) \<longrightarrow>
          names = clock_tables_select (db c) \<and> names \<noteq> [])"

definition ready :: "conn \<Rightarrow> bool" where
  "ready c \<longleftrightarrow> faults c = [] \<and> stmts_live c \<and> version_stmt_ok c \<and> clocks_ok (db c)"

lemma step_perma_ok [ext_simps]: "faults c = [] \<Longrightarrow> stmt \<Longrightarrow> step_perma stmt c = (SQLITE_ROW, c)"
  by (simp add: step_perma_def)

lemma those_versions:
  "list_all (\<lambda>n. db_clock d n \<noteq> None) ns \<Longrightarrow>
     those (map (db_versions d) ns) = Some (map (\<lambda>n. case db_clock d n of None \<Rightarrow> []
       | Some t \<Rightarrow> map ck_dbv (ct_rows t)) ns)"
  by (induction ns) (auto simp: db_versions_def)

lemma max_version_storage:
  "clocks_ok d \<Longrightarrow> max_version d (clock_tables_select d) =
     GotRow (if all_versions d = [] then VNull else VInt (storage_version d))"
  by (cases "all_versions d")
     (simp_all add: max_version_def those_versions clocks_ok_def storage_version_def
      all_versions_def [symmetric])

lemma read_db_version_storage:
  assumes "faults c = []" and "clocks_ok (db c)"
    and "pDbVersionStmt (ext c) = Some (clock_tables_select (db c))"
  shows "read_db_version c = (SQLITE_OK, None, set_dbVersion (storage_version (db c)) c)"
  using assms
  by (simp add: read_db_version_def step_db_version_def max_version_storage storage_version_def)

lemma recreate_ok:
  assumes "faults c = []" and "clocks_ok (db c)"
  shows "crsql_recreateDbVersionStmt c =
    (let names = clock_tables_select (db c) in
     if names = [] then Some (-1, upd_ext (pDbVersionStmt_update (\<lambda>_. None)) c)
     else Some (SQLITE_OK, upd_ext (pDbVersionStmt_update (\<lambda>_. Some names)) c))"
proof -
  let ?c = "upd_ext (pDbVersionStmt_update (\<lambda>_. None)) c"
  have r: "get_clock_tables ?c = (Some (SQLITE_OK,
    \<lparr>pazResult = Some (if clock_tables_select (db c) = [] then []
        else Some ''tbl_name'' # map Some (clock_tables_select (db c))),
      pnRow = length (clock_tables_select (db c)),
      pnColumn = (if clock_tables_select (db c) = [] then 0 else 1)\<rparr>), ?c)"
    using assms by (subst get_clock_tables_ok) (simp_all add: clocks_ok_def names_short_def)
  have m: "map fmt_s (map Some xs) = xs" for xs
    by (simp add: fmt_s_def comp_def)
  have "list_all (\<lambda>n. db_versions (db c) n \<noteq> None) (clock_tables_select (db c))"
    using assms(2) by (simp add: clocks_ok_def db_versions_def)
  with r assms(1) show ?thesis
    by (simp add: crsql_recreateDbVersionStmt_def Let_def m upd_ext_def del: map_map)
qed

lemma storage_version_empty: "clock_tables_select d = [] \<Longrightarrow> storage_version d = 0"
  by (simp add: storage_version_def all_versions_def)

definition only_ext :: "conn \<Rightarrow> conn \<Rightarrow> bool" where
  "only_ext c c' \<longleftrightarrow> db c' = db c \<and> syncBit c' = syncBit c \<and> faults c' = faults c \<and>
     siteId (ext c') = siteId (ext c) \<and> zpTableInfos (ext c') = zpTableInfos (ext c) \<and>
     tableInfosLen (ext c') = tableInfosLen (ext c) \<and>
     pragmaSchemaVersionForTableInfos (ext c') = pragmaSchemaVersionForTableInfos (ext c) \<and>
     pTrackPeersStmt (ext c') = pTrackPeersStmt (ext c) \<and> same_tx c c'"

lemma fetch_from_storage:
  assumes "ready c"
  shows "\<exists>c'. crsql_fetchDbVersionFromStorage c = Some (SQLITE_OK, None, c') \<and>
    dbVersion (ext c') = storage_version (db c) \<and> only_ext c c' \<and> ready c' \<and>
    pragmaDataVersion (ext c') = pragmaDataVersion (ext c)"
proof -
  have f: "faults c = []" and ok: "clocks_ok (db c)" and live: "stmts_live c"
    using assms by (auto simp: ready_def)
  let ?names = "clock_tables_select (db c)"
  have rebuilt: "\<exists>c'. (do {
        (rc, c) \<leftarrow> crsql_recreateDbVersionStmt c1;
        if rc = -1 then Some (SQLITE_OK, None, set_dbVersion MIN_POSSIBLE_DB_VERSION c)
        else if rc \<noteq> SQLITE_OK then
          Some (rc, Some ''failed to create the db version statement'', c)
        else Some (read_db_version c)
      }) = Some (SQLITE_OK, None, c') \<and> dbVersion (ext c') = storage_version (db c) \<and>
      only_ext c c' \<and> ready c' \<and> pragmaDataVersion (ext c') = pragmaDataVersion (ext c)"
    if c1: "c1 = upd_ext (pragmaSchemaVersion_update g) c" for c1 g
  proof -
    have "faults c1 = []" "clocks_ok (db c1)" using f ok c1 by simp_all
    then show ?thesis
      using f ok live c1 read_db_version_storage
        [of "upd_ext (pDbVersionStmt_update (\<lambda>_. Some ?names)) c1"]
      by (cases "?names = []")
         (auto simp: recreate_ok Let_def set_dbVersion_def only_ext_def ready_def stmts_live_def
           version_stmt_ok_def storage_version_empty)
  qed
  show ?thesis
  proof (cases "pDbVersionStmt (ext c)")
    case None
    have "c = upd_ext (pragmaSchemaVersion_update (\<lambda>x. x)) c" by (simp add: upd_ext_def)
    from rebuilt [OF this] None show ?thesis by (simp add: crsql_fetchDbVersionFromStorage_def)
  next
    case (Some names)
    show ?thesis
    proof (cases "db_schema_version (db c) > pragmaSchemaVersion (ext c)")
      case True
      then have "crsql_fetchPragmaSchemaVersion DB_VERSION_SCHEMA_VERSION c =
          (1, upd_ext (pragmaSchemaVersion_update (\<lambda>_. db_schema_version (db c))) c)"
        using f live by (simp add: crsql_fetchPragmaSchemaVersion_def stmts_live_def ext_simps)
      with rebuilt [OF refl] Some show ?thesis
        by (simp add: crsql_fetchDbVersionFromStorage_def)
    next
      case False
      then have "crsql_fetchPragmaSchemaVersion DB_VERSION_SCHEMA_VERSION c = (0, c)"
        using f live by (simp add: crsql_fetchPragmaSchemaVersion_def stmts_live_def ext_simps)
      moreover have "names = ?names"
        using assms False Some by (simp add: ready_def version_stmt_ok_def)
      ultimately show ?thesis
        using Some f ok assms read_db_version_storage [of c]
        by (auto simp: crsql_fetchDbVersionFromStorage_def set_dbVersion_def only_ext_def ready_def
            stmts_live_def version_stmt_ok_def)
    qed
  qed
qed

text \<open>Whether the cached version may be used.\<close>

definition version_cached :: "conn \<Rightarrow> bool" where
  "version_cached c \<longleftrightarrow> dbVersion (ext c) \<noteq> -1 \<and> db_data_version (db c) = pragmaDataVersion (ext c)"

lemma getDbVersion_cached:
  "faults c = [] \<Longrightarrow> stmts_live c \<Longrightarrow> version_cached c \<Longrightarrow>
     crsql_getDbVersion c = Some (SQLITE_OK, None, c)"
  by (simp add: crsql_getDbVersion_def crsql_fetchPragmaDataVersion_def stmts_live_def
      version_cached_def ext_simps)

lemma getDbVersion_stored:
  assumes "ready c" and "\<not> version_cached c"
  shows "\<exists>c'. crsql_getDbVersion c = Some (SQLITE_OK, None, c') \<and>
    dbVersion (ext c') = storage_version (db c) \<and> only_ext c c' \<and> ready c' \<and>
    pragmaDataVersion (ext c') = db_data_version (db c)"
proof -
  define c1 where "c1 = (if db_data_version (db c) \<noteq> pragmaDataVersion (ext c)
    then upd_ext (pragmaDataVersion_update (\<lambda>_. db_data_version (db c))) c else c)"
  have "ready c1" "only_ext c c1" "db c1 = db c"
    and dv: "pragmaDataVersion (ext c1) = db_data_version (db c)"
    using assms(1)
    by (auto simp: c1_def ready_def stmts_live_def version_stmt_ok_def only_ext_def
        split: option.splits)
  moreover have "crsql_getDbVersion c = crsql_fetchDbVersionFromStorage c1"
    using assms by (auto simp: crsql_getDbVersion_def crsql_fetchPragmaDataVersion_def c1_def
        ready_def stmts_live_def version_cached_def ext_simps)
  ultimately show ?thesis
    using fetch_from_storage [of c1] dv by (auto simp: only_ext_def)
qed

text \<open>C20. Reading the database version succeeds and changes nothing but the cache: a version cached
  since the last commit of any connection is returned as it is, otherwise the result is the
  largest version in any clock table, or 0 when there is none.\<close>

theorem getDbVersion_result:
  assumes "ready c"
  shows "\<exists>c'. crsql_getDbVersion c = Some (SQLITE_OK, None, c') \<and>
    dbVersion (ext c') = (if version_cached c then dbVersion (ext c) else storage_version (db c)) \<and>
    only_ext c c' \<and> ready c' \<and> pragmaDataVersion (ext c') = db_data_version (db c)"
proof (cases "version_cached c")
  case True
  with assms getDbVersion_cached [of c] show ?thesis
    by (auto simp: ready_def only_ext_def version_cached_def)
next
  case False
  with getDbVersion_stored [OF assms] show ?thesis by auto
qed

definition test_clock :: clock_table where
  "test_clock = \<lparr>ct_pks = [''a''], ct_rows =
     [\<lparr>ck_pk = [VInt 1], ck_col = ''b'', ck_vrsn = 1, ck_dbv = 3, ck_site = None\<rparr>,
      \<lparr>ck_pk = [VInt 2], ck_col = ''b'', ck_vrsn = 4, ck_dbv = 7, ck_site = None\<rparr>]\<rparr>"

definition test_user :: user_table where
  "test_user = \<lparr>ut_cols = [mk_col 0 ''a'' 1, mk_col 1 ''b'' 0], ut_hidden = [], ut_dflt_given = [],
     ut_dflt = (\<lambda>_. VNull), ut_indices =
       [\<lparr>ix_name = ''sqlite_autoindex_foo_1'', ix_origin = ''pk'', ix_unique = True,
         ix_cols = [Some ''a'']\<rparr>], ut_fks = 0, ut_rows = []\<rparr>"

definition test_db :: database where
  "test_db = \<lparr>db_master = [''crsql_tracked_peers'', ''foo'', ''foo__crsql_clock''],
     db_indexes = [], db_site_ids = [],
     db_user = (\<lambda>n. if n = ''foo'' then Some test_user else None),
     db_clock = (\<lambda>n. if n = ''foo__crsql_clock'' then Some test_clock else None),
     db_peers = [], db_trigs = [], db_schema_version = 5, db_data_version = 2\<rparr>"

definition test_conn :: conn where
  "test_conn = \<lparr>db = test_db, ext = fresh_ext (replicate 16 7), syncBit = 0, faults = [],
     tx = None, saves = [], implicit_tx = False\<rparr>"

lemma test_select: "clock_tables_select test_db = [''foo__crsql_clock'']"
  by code_simp

lemma ready_test_conn: "ready test_conn"
  by (simp add: ready_def test_conn_def stmts_live_def version_stmt_ok_def clocks_ok_def
      names_short_def test_select fresh_ext_def) (simp add: test_db_def)

theorem getDbVersion_result_witness:
  "\<exists>c'. crsql_getDbVersion test_conn = Some (SQLITE_OK, None, c') \<and> dbVersion (ext c') = 7"
proof -
  have "storage_version test_db = 7" by code_simp
  then show ?thesis
    using getDbVersion_result [OF ready_test_conn]
    by (auto simp: test_conn_def version_cached_def fresh_ext_def)
qed

text \<open>When listing the clock tables fails, the version is nevertheless reported as 0, with
  success and whatever versions the clock tables hold: the result code is dropped.\<close>

theorem getDbVersion_hides_failure:
  assumes "faults c = [0, e]" and "e \<notin> {SQLITE_OK, SQLITE_ROW, SQLITE_DONE}" and "stmts_live c"
    and "dbVersion (ext c) = -1" and "pDbVersionStmt (ext c) = None"
  shows "\<exists>c'. crsql_getDbVersion c = Some (SQLITE_OK, None, c') \<and> dbVersion (ext c') = 0 \<and>
    db c' = db c"
proof -
  define c1 where "c1 = c\<lparr>faults := [e]\<rparr>"
  define c2 where "c2 = (if db_data_version (db c) \<noteq> pragmaDataVersion (ext c)
    then upd_ext (pragmaDataVersion_update (\<lambda>_. db_data_version (db c))) c1 else c1)"
  have "crsql_getDbVersion c = crsql_fetchDbVersionFromStorage c2"
    using assms by (auto simp: crsql_getDbVersion_def crsql_fetchPragmaDataVersion_def
        step_perma_def sql_call_def stmts_live_def c1_def c2_def)
  moreover have "faults c2 = [e]" "pDbVersionStmt (ext c2) = None" "db c2 = db c"
    using assms by (auto simp: c1_def c2_def)
  moreover have "\<exists>rc. crsql_get_table [] [] e = Some (rc, no_table)"
    using assms(2) by (auto simp: crsql_get_table_def finish_table_def take_alloc_def Let_def)
  then have "\<exists>rc. get_clock_tables (upd_ext (pDbVersionStmt_update (\<lambda>_. None)) c2) =
      (Some (rc, no_table), (upd_ext (pDbVersionStmt_update (\<lambda>_. None)) c2)\<lparr>faults := []\<rparr>)"
    using assms(2) \<open>faults c2 = [e]\<close> by (simp add: get_clock_tables_def sql_call_def)
  ultimately show ?thesis
    by (auto simp: crsql_fetchDbVersionFromStorage_def crsql_recreateDbVersionStmt_def
        no_table_def set_dbVersion_def)
qed

theorem getDbVersion_hides_failure_witness:
  "storage_version (db test_conn) = 7 \<and>
   (\<exists>c'. crsql_getDbVersion (test_conn\<lparr>faults := [0, 7]\<rparr>) = Some (SQLITE_OK, None, c') \<and>
     dbVersion (ext c') = 0)"
proof -
  have "storage_version test_db = 7" by code_simp
  then show ?thesis
    using getDbVersion_hides_failure [of "test_conn\<lparr>faults := [0, 7]\<rparr>" 7]
    by (auto simp: test_conn_def stmts_live_def fresh_ext_def)
qed

section \<open>The table descriptions\<close>

text \<open>The description of the table behind a clock table, \<open>None\<close> when that table is gone.\<close>

definition base_info :: "database \<Rightarrow> string \<Rightarrow> table_info option" where
  "base_info d n =
     (let tbl = take (length n - CRSQL_CLOCK_LEN) n in
      if pragma_table_info d tbl = [] then None
      else crsql_tableInfo tbl (pragma_table_info d tbl))"

definition cols_ok :: "database \<Rightarrow> bool" where
  "cols_ok d \<longleftrightarrow> list_all (\<lambda>n. list_all (\<lambda>c. ci_pk c \<ge> 0)
     (pragma_table_info d (take (length n - CRSQL_CLOCK_LEN) n))) (clock_tables_select d)"

lemma read_columns_all:
  "faults c = [] \<Longrightarrow> length cols \<le> room \<Longrightarrow> read_columns room cols c = (Some cols, c)"
  by (induction cols arbitrary: room) (auto simp: Suc_le_length_iff split: nat.split)

lemma getTableInfo_ok:
  assumes "faults c = []" and "list_all (\<lambda>k. ci_pk k \<ge> 0) (pragma_table_info (db c) tbl)"
  shows "crsql_getTableInfo tbl c =
    (if pragma_table_info (db c) tbl = []
     then Some (SQLITE_DONE, None, Some (''Failed to parse crr definition -- '' @ tbl), c)
     else map_option (\<lambda>t. (SQLITE_OK, Some t, None, c))
       (crsql_tableInfo tbl (pragma_table_info (db c) tbl)))"
proof -
  have count: "crsql_getCount (count_columns tbl) c =
      (int (length (pragma_table_info (db c) tbl)), c)"
    using assms by (simp add: crsql_getCount_def count_columns_def)
  show ?thesis
  proof (cases "pragma_table_info (db c) tbl")
    case Nil
    with count assms(1) show ?thesis by (simp add: crsql_getTableInfo_def)
  next
    case (Cons k ks)
    with count assms(1) show ?thesis
      by (auto simp: crsql_getTableInfo_def read_columns_all split: bind_split option.split)
  qed
qed

lemma tableInfo_exists:
  "list_all (\<lambda>c. ci_pk c \<ge> 0) cols \<Longrightarrow> crsql_tableInfo name cols \<noteq> None"
  by (simp add: crsql_tableInfo_def nonPks_eq pks_eq)

lemma pull_infos_ok:
  assumes "faults c = []"
    and "list_all (\<lambda>n. list_all (\<lambda>k. ci_pk k \<ge> 0)
      (pragma_table_info (db c) (take (length n - CRSQL_CLOCK_LEN) n))) ns"
  shows "\<exists>rc ts err. pull_infos ns c = Some (rc, ts, err, c) \<and>
    (rc = SQLITE_OK \<longleftrightarrow> list_all (\<lambda>n. base_info (db c) n \<noteq> None) ns) \<and>
    (rc = SQLITE_OK \<longrightarrow> those (map (base_info (db c)) ns) = Some ts \<and> err = None)"
  using assms
proof (induction ns)
  case (Cons n ns)
  let ?tbl = "take (length n - CRSQL_CLOCK_LEN) n"
  have g: "crsql_getTableInfo ?tbl c =
    (if pragma_table_info (db c) ?tbl = []
     then Some (SQLITE_DONE, None, Some (''Failed to parse crr definition -- '' @ ?tbl), c)
     else map_option (\<lambda>t. (SQLITE_OK, Some t, None, c))
       (crsql_tableInfo ?tbl (pragma_table_info (db c) ?tbl)))"
    using Cons.prems by (intro getTableInfo_ok) auto
  show ?case
  proof (cases "base_info (db c) n")
    case None
    then have "pragma_table_info (db c) ?tbl = []"
      using Cons.prems tableInfo_exists [of "pragma_table_info (db c) ?tbl" ?tbl]
      by (auto simp: base_info_def Let_def split: if_splits)
    with g None show ?thesis by simp
  next
    case (Some t)
    then have "crsql_getTableInfo ?tbl c = Some (SQLITE_OK, Some t, None, c)"
      using g by (auto simp: base_info_def Let_def split: if_splits)
    with Cons Some show ?thesis by auto
  qed
qed simp

definition current_infos :: "database \<Rightarrow> table_info list option" where
  "current_infos d = those (map (base_info d) (clock_tables_select d))"

text \<open>The cached descriptions are absent, or of the current schema if that was the last one seen.\<close>

definition infos_inv :: "conn \<Rightarrow> bool" where
  "infos_inv c \<longleftrightarrow>
     (case zpTableInfos (ext c) of
        Null \<Rightarrow> tableInfosLen (ext c) = 0
      | Live ts \<Rightarrow> tableInfosLen (ext c) = length ts \<and>
          (db_schema_version (db c) \<le> pragmaSchemaVersionForTableInfos (ext c) \<longrightarrow>
             current_infos (db c) = Some ts)
      | Freed \<Rightarrow> False)"

lemma pullAll_ok:
  assumes "faults c = []" and "names_short (db c)" and "cols_ok (db c)"
  shows "\<exists>rc err. crsql_pullAllTableInfos c =
      Some (rc, if rc = SQLITE_OK \<and> clock_tables_select (db c) \<noteq> [] then current_infos (db c)
        else None, err, c) \<and>
    (rc = SQLITE_OK \<longleftrightarrow> list_all (\<lambda>n. base_info (db c) n \<noteq> None) (clock_tables_select (db c))) \<and>
    (rc = SQLITE_OK \<longrightarrow> err = None)"
proof (cases "clock_tables_select (db c) = []")
  case True
  with assms show ?thesis
    by (simp add: crsql_pullAllTableInfos_def get_clock_tables_ok names_short_def)
next
  case False
  let ?ns = "clock_tables_select (db c)"
  obtain rc ts err where p: "pull_infos ?ns c = Some (rc, ts, err, c)"
    "rc = SQLITE_OK \<longleftrightarrow> list_all (\<lambda>n. base_info (db c) n \<noteq> None) ?ns"
    "rc = SQLITE_OK \<longrightarrow> those (map (base_info (db c)) ?ns) = Some ts \<and> err = None"
    using pull_infos_ok [of c ?ns] assms by (auto simp: cols_ok_def)
  have "map fmt_s (map Some xs) = xs" for xs
    by (simp add: fmt_s_def comp_def)
  with p False assms show ?thesis
    by (auto simp: crsql_pullAllTableInfos_def get_clock_tables_ok names_short_def current_infos_def
        simp del: map_map)
qed

lemma fetch_schema_infos:
  assumes "faults c = []" and "stmts_live c"
  shows "crsql_fetchPragmaSchemaVersion TABLE_INFO_SCHEMA_VERSION c =
    (if db_schema_version (db c) > pragmaSchemaVersionForTableInfos (ext c)
     then (1, upd_ext (pragmaSchemaVersionForTableInfos_update (\<lambda>_. db_schema_version (db c))) c)
     else (0, c))"
  using assms by (simp add: crsql_fetchPragmaSchemaVersion_def stmts_live_def ext_simps)

definition only_infos :: "conn \<Rightarrow> conn \<Rightarrow> bool" where
  "only_infos c c' \<longleftrightarrow> db c' = db c \<and> syncBit c' = syncBit c \<and> faults c' = faults c \<and>
     siteId (ext c') = siteId (ext c) \<and> dbVersion (ext c') = dbVersion (ext c) \<and>
     pragmaDataVersion (ext c') = pragmaDataVersion (ext c) \<and>
     pragmaSchemaVersion (ext c') = pragmaSchemaVersion (ext c) \<and>
     pDbVersionStmt (ext c') = pDbVersionStmt (ext c) \<and> stmts_live c' = stmts_live c \<and>
     pTrackPeersStmt (ext c') = pTrackPeersStmt (ext c) \<and> same_tx c c'"

lemma ensure_up_to_date_aux:
  assumes "faults c = []" and "stmts_live c" and "names_short (db c)" and "cols_ok (db c)"
    and "infos_inv c" and "clock_tables_select (db c) \<noteq> []" and "current_infos (db c) = Some ts"
  shows "\<exists>c'. crsql_ensureTableInfosAreUpToDate c = Some (SQLITE_OK, None, c') \<and>
    zpTableInfos (ext c') = Live ts \<and> tableInfosLen (ext c') = length ts \<and> infos_inv c' \<and>
    only_infos c c'"
proof -
  define c1 where "c1 = snd (crsql_fetchPragmaSchemaVersion TABLE_INFO_SCHEMA_VERSION c)"
  have c1: "only_infos c c1" "zpTableInfos (ext c1) = zpTableInfos (ext c)"
    "tableInfosLen (ext c1) = tableInfosLen (ext c)"
    "db_schema_version (db c) \<le> pragmaSchemaVersionForTableInfos (ext c1)"
    using assms(1,2) by (auto simp: c1_def fetch_schema_infos only_infos_def stmts_live_def)
  have free: "crsql_freeAllTableInfos (zpTableInfos (ext c)) (tableInfosLen (ext c)) = Some ()"
    using assms(5) by (auto simp: infos_inv_def crsql_freeAllTableInfos_def split: ptr.splits)
  have all: "list_all (\<lambda>n. base_info (db c) n \<noteq> None) (clock_tables_select (db c))"
  proof -
    have "those xs = Some ys \<Longrightarrow> list_all (\<lambda>x. x \<noteq> None) xs" for xs :: "'a option list" and ys
      by (induction xs arbitrary: ys) (auto split: option.splits)
    from this [OF assms(7) [unfolded current_infos_def]] show ?thesis by (simp add: list_all_iff)
  qed
  define c2 where "c2 = set_infos (freed_ptr (zpTableInfos (ext c))) (tableInfosLen (ext c)) c1"
  have "faults c2 = []" "db c2 = db c" using c1 assms(1) by (auto simp: c2_def only_infos_def set_infos_def)
  then obtain err where pull: "crsql_pullAllTableInfos c2 = Some (SQLITE_OK, Some ts, None, c2)"
    using pullAll_ok [of c2] assms all by auto
  define c3 where "c3 = set_infos (Live ts) (length ts) c2"
  have c3: "zpTableInfos (ext c3) = Live ts" "tableInfosLen (ext c3) = length ts" "infos_inv c3"
    "only_infos c c3"
    using c1 assms(7)
    by (auto simp: c3_def c2_def set_infos_def infos_inv_def only_infos_def stmts_live_def)
  show ?thesis
  proof (cases "db_schema_version (db c) > pragmaSchemaVersionForTableInfos (ext c) \<or>
      zpTableInfos (ext c) = Null")
    case True
    then have "crsql_ensureTableInfosAreUpToDate c = Some (SQLITE_OK, None, c3)"
      using assms(1,2) free pull
      by (auto simp: crsql_ensureTableInfosAreUpToDate_def fetch_schema_infos c1_def c2_def c3_def
          Let_def)
    with c3 show ?thesis by blast
  next
    case False
    then have "crsql_ensureTableInfosAreUpToDate c = Some (SQLITE_OK, None, c)"
      using assms(1,2) by (simp add: crsql_ensureTableInfosAreUpToDate_def fetch_schema_infos)
    moreover have "zpTableInfos (ext c) = Live ts" "tableInfosLen (ext c) = length ts"
      using False assms(5,7) by (auto simp: infos_inv_def split: ptr.splits)
    ultimately show ?thesis using assms(5) by (auto simp: only_infos_def)
  qed
qed

text \<open>C21. When there is a clock table, the cached descriptions after the update are those of the tables
  that exist now, whatever was cached before: when the schema is unchanged they are kept, otherwise the old ones are
  released once and all are read again.\<close>

theorem ensure_up_to_date:
  assumes "faults c = []" and "stmts_live c" and "names_short (db c)" and "cols_ok (db c)"
    and "infos_inv c" and "clock_tables_select (db c) \<noteq> []" and "current_infos (db c) = Some ts"
  shows "\<exists>c'. crsql_ensureTableInfosAreUpToDate c = Some (SQLITE_OK, None, c') \<and>
    zpTableInfos (ext c') = Live ts \<and> tableInfosLen (ext c') = length ts \<and> infos_inv c' \<and>
    only_infos c c'"
  using ensure_up_to_date_aux [OF assms] .

theorem ensure_up_to_date_witness:
  "\<exists>c' t. crsql_ensureTableInfosAreUpToDate test_conn = Some (SQLITE_OK, None, c') \<and>
     zpTableInfos (ext c') = Live [t] \<and> ti_tblName t = ''foo''"
proof -
  have infos: "current_infos test_db = Some [test_foo]" by code_simp
  have "cols_ok test_db" by code_simp
  then have "\<exists>c'. crsql_ensureTableInfosAreUpToDate test_conn = Some (SQLITE_OK, None, c') \<and>
      zpTableInfos (ext c') = Live [test_foo] \<and> tableInfosLen (ext c') = length [test_foo] \<and>
      infos_inv c' \<and> only_infos test_conn c'"
    using ready_test_conn infos
    by (intro ensure_up_to_date)
       (auto simp: ready_def clocks_ok_def test_conn_def test_select infos_inv_def fresh_ext_def)
  then show ?thesis by (auto simp: test_foo_def)
qed

section \<open>Two errors in the update of the descriptions\<close>

text \<open>When the schema has changed and reading the new descriptions fails (as it does when a
  replicated table was dropped and its clock table stayed), the descriptions that were cached
  are released twice.\<close>

theorem ensure_double_free:
  assumes "faults c = []" and "stmts_live c" and "names_short (db c)" and "cols_ok (db c)"
    and "zpTableInfos (ext c) = Live ts" and "tableInfosLen (ext c) = length ts"
    and "db_schema_version (db c) > pragmaSchemaVersionForTableInfos (ext c)"
    and "list_ex (\<lambda>n. base_info (db c) n = None) (clock_tables_select (db c))"
  shows "crsql_ensureTableInfosAreUpToDate c = None"
proof -
  define c1 where "c1 = upd_ext (pragmaSchemaVersionForTableInfos_update (\<lambda>_. db_schema_version (db c))) c"
  define c2 where "c2 = set_infos Freed (length ts) c1"
  have c2: "faults c2 = []" "db c2 = db c" "zpTableInfos (ext c2) = Freed"
    using assms by (auto simp: c2_def c1_def set_infos_def)
  have "\<not> list_all (\<lambda>n. base_info (db c) n \<noteq> None) (clock_tables_select (db c))"
    using assms(8) by (auto simp: list_ex_iff list_all_iff)
  then obtain rc err where "crsql_pullAllTableInfos c2 = Some (rc, None, err, c2)" "rc \<noteq> SQLITE_OK"
    using pullAll_ok [of c2] c2 assms by auto
  with c2 assms show ?thesis
    by (simp add: crsql_ensureTableInfosAreUpToDate_def fetch_schema_infos c1_def c2_def freed_ptr_def
        crsql_freeAllTableInfos_def)
qed

text \<open>The test database after \<^verbatim>\<open>DROP TABLE foo\<close>, on a connection that had read the descriptions.\<close>

definition dropped_conn :: conn where
  "dropped_conn = \<lparr>db = test_db\<lparr>db_master := [''crsql_tracked_peers'', ''foo__crsql_clock''],
       db_user := (\<lambda>_. None), db_schema_version := 6\<rparr>,
     ext = (fresh_ext (replicate 16 7))\<lparr>zpTableInfos := Live [test_foo], tableInfosLen := 1,
       pragmaSchemaVersionForTableInfos := 5\<rparr>, syncBit = 0, faults = [], tx = None, saves = [],
     implicit_tx = False\<rparr>"

theorem ensure_double_free_witness:
  "crsql_ensureTableInfosAreUpToDate dropped_conn = None"
proof -
  have "clock_tables_select (db dropped_conn) = [''foo__crsql_clock'']" by code_simp
  then have "names_short (db dropped_conn)" by (simp add: names_short_def)
  moreover have "cols_ok (db dropped_conn)" by code_simp
  moreover have
    "list_ex (\<lambda>n. base_info (db dropped_conn) n = None) (clock_tables_select (db dropped_conn))"
    by code_simp
  ultimately show ?thesis
    by (intro ensure_double_free [of _ "[test_foo]"])
       (simp_all add: dropped_conn_def test_db_def stmts_live_def fresh_ext_def)
qed

text \<open>When the last clock table disappears, the update reports success and leaves the cached
  pointer at the released descriptions, with their old number: the next use reads freed
  memory.\<close>

theorem ensure_leaves_dangling:
  assumes "faults c = []" and "stmts_live c" and "clock_tables_select (db c) = []"
    and "zpTableInfos (ext c) = Live ts" and "tableInfosLen (ext c) = length ts"
    and "db_schema_version (db c) > pragmaSchemaVersionForTableInfos (ext c)"
  shows "\<exists>c'. crsql_ensureTableInfosAreUpToDate c = Some (SQLITE_OK, None, c') \<and>
    zpTableInfos (ext c') = Freed \<and> tableInfosLen (ext c') = length ts"
proof -
  define c2 where "c2 = set_infos Freed (length ts)
    (upd_ext (pragmaSchemaVersionForTableInfos_update (\<lambda>_. db_schema_version (db c))) c)"
  have "faults c2 = []" "db c2 = db c" using assms by (auto simp: c2_def set_infos_def)
  then have "crsql_pullAllTableInfos c2 = Some (SQLITE_OK, None, None, c2)"
    using assms(3) by (simp add: crsql_pullAllTableInfos_def get_clock_tables_ok)
  then show ?thesis
    using assms
    by (auto simp: crsql_ensureTableInfosAreUpToDate_def fetch_schema_infos c2_def freed_ptr_def
        crsql_freeAllTableInfos_def set_infos_def)
qed

theorem ensure_leaves_dangling_witness:
  "\<exists>c'. crsql_ensureTableInfosAreUpToDate
      (dropped_conn\<lparr>db := (db dropped_conn)\<lparr>db_master := [''crsql_tracked_peers'']\<rparr>\<rparr>) =
        Some (SQLITE_OK, None, c') \<and>
    zpTableInfos (ext c') = Freed \<and> tableInfosLen (ext c') = 1"
proof -
  let ?c = "dropped_conn\<lparr>db := (db dropped_conn)\<lparr>db_master := [''crsql_tracked_peers'']\<rparr>\<rparr>"
  have "clock_tables_select (db ?c) = []" by code_simp
  then show ?thesis
    using ensure_leaves_dangling [of ?c "[test_foo]"]
    by (simp add: dropped_conn_def test_db_def stmts_live_def fresh_ext_def)
qed

section \<open>The SQL functions\<close>

text \<open>\<^verbatim>\<open>crsql_dbversion()\<close> and \<^verbatim>\<open>crsql_nextdbversion()\<close>: an error message or the value. Adding 1 to
  the largest 64-bit integer is undefined in C.\<close>

definition dbVersionFunc :: "conn \<Rightarrow> ((string option + int) \<times> conn) option" where
  "dbVersionFunc c = do {
     (rc, errmsg, c) \<leftarrow> crsql_getDbVersion c;
     if rc \<noteq> SQLITE_OK then Some (Inl errmsg, c) else Some (Inr (dbVersion (ext c)), c)
   }"

definition nextDbVersionFunc :: "conn \<Rightarrow> ((string option + int) \<times> conn) option" where
  "nextDbVersionFunc c = do {
     (rc, errmsg, c) \<leftarrow> crsql_getDbVersion c;
     if rc \<noteq> SQLITE_OK then Some (Inl errmsg, c)
     else if int64 (dbVersion (ext c) + 1) then Some (Inr (dbVersion (ext c) + 1), c)
     else None
   }"

text \<open>The version the next write of a connection gets.\<close>

definition current_version :: "conn \<Rightarrow> int" where
  "current_version c = (if version_cached c then dbVersion (ext c) else storage_version (db c))"

lemma nextDbVersion_ok:
  assumes "ready c" and "int64 (current_version c + 1)"
  shows "\<exists>c'. nextDbVersionFunc c = Some (Inr (current_version c + 1), c') \<and>
    dbVersion (ext c') = current_version c \<and> only_ext c c' \<and> ready c' \<and>
    pragmaDataVersion (ext c') = db_data_version (db c)"
proof -
  have "\<exists>c'. crsql_getDbVersion c = Some (SQLITE_OK, None, c') \<and>
    dbVersion (ext c') = current_version c \<and> only_ext c c' \<and> ready c' \<and>
    pragmaDataVersion (ext c') = db_data_version (db c)"
  proof (cases "version_cached c")
    case True
    with getDbVersion_cached [of c] assms show ?thesis
      by (auto simp: ready_def current_version_def only_ext_def version_cached_def)
  next
    case False
    with getDbVersion_stored [OF assms(1)] show ?thesis by (simp add: current_version_def)
  qed
  then obtain c' where "crsql_getDbVersion c = Some (SQLITE_OK, None, c')"
    "dbVersion (ext c') = current_version c" "only_ext c c'" "ready c'"
    "pragmaDataVersion (ext c') = db_data_version (db c)" by blast
  with assms(2) show ?thesis by (simp add: nextDbVersionFunc_def)
qed

end
