(* ===== verification/Seen_Peers.thy ===== *)
theory Seen_Peers imports Ext_Data begin

text \<open>
  \<^verbatim>\<open>core/src/seen-peers.c\<close>: the peers whose changes were applied in the current transaction, each
  with the largest version received from it, and their storage in the table of tracked peers
  when the transaction commits.

  \<open>capacity\<close> is the C field; \<open>slots\<close> is how many slots the array really has. Writing past them is
  undefined: \<open>None\<close>. The empty site id stands for the NULL pointer SQLite passes for an empty
  or NULL value.
\<close>

section \<open>The array of peers\<close>

abbreviation (input) CRSQL_SEEN_PEERS_INITIAL_SIZE :: nat where
  "CRSQL_SEEN_PEERS_INITIAL_SIZE \<equiv> 5"

record seen_peer =
  sp_siteId :: blob
  sp_clock :: int

record seen_peers =
  peers :: "seen_peer list"
  capacity :: nat
  slots :: nat

definition crsql_newSeenPeers :: seen_peers where
  "crsql_newSeenPeers = \<lparr>peers = [], capacity = CRSQL_SEEN_PEERS_INITIAL_SIZE,
     slots = CRSQL_SEEN_PEERS_INITIAL_SIZE\<rparr>"

text \<open>The search for a peer that is already there: the updated list, if it was found.\<close>

fun update_seen :: "seen_peer list \<Rightarrow> blob \<Rightarrow> int \<Rightarrow> seen_peer list option" where
  "update_seen [] sid clock = None"
| "update_seen (p # ps) sid clock =
     (if crsql_siteIdCmp sid (sp_siteId p) = 0
      then Some ((if sp_clock p < clock then p\<lparr>sp_clock := clock\<rparr> else p) # ps)
      else map_option ((#) p) (update_seen ps sid clock))"

text \<open>\<open>realloc_ok\<close>: whether \<^verbatim>\<open>sqlite3_realloc\<close> succeeds, when it is called.\<close>

definition crsql_trackSeenPeer ::
  "bool \<Rightarrow> seen_peers \<Rightarrow> blob \<Rightarrow> int \<Rightarrow> (int \<times> seen_peers) option" where
  "crsql_trackSeenPeer realloc_ok a sid clock =
     (case update_seen (peers a) sid clock of
        Some ps \<Rightarrow> Some (SQLITE_OK, a\<lparr>peers := ps\<rparr>)
      | None \<Rightarrow>
          (let full = (length (peers a) = capacity a);
               a = (if full then a\<lparr>capacity := capacity a * 2\<rparr> else a) in
           if full \<and> \<not> realloc_ok then Some (SQLITE_ERROR, a)
           else
             let a = (if full then a\<lparr>slots := capacity a\<rparr> else a) in
             if length (peers a) < slots a
             then Some (SQLITE_OK, a\<lparr>peers := peers a @ [\<lparr>sp_siteId = sid, sp_clock = clock\<rparr>]\<rparr>)
             else None))"

definition crsql_resetSeenPeers :: "seen_peers \<Rightarrow> seen_peers" where
  "crsql_resetSeenPeers a = a\<lparr>peers := []\<rparr>"

text \<open>The abstract content: the version seen of each site.\<close>

definition seen :: "seen_peers \<Rightarrow> blob \<Rightarrow> int option" where
  "seen a s = map_option sp_clock (find (\<lambda>p. sp_siteId p = s) (peers a))"

definition peers_inv :: "seen_peers \<Rightarrow> bool" where
  "peers_inv a \<longleftrightarrow> length (peers a) \<le> capacity a \<and> capacity a \<le> slots a \<and> 0 < capacity a \<and>
     distinct (map sp_siteId (peers a))"

definition max_opt :: "int option \<Rightarrow> int option \<Rightarrow> int option" where
  "max_opt x y = (case (x, y) of (None, _) \<Rightarrow> y | (_, None) \<Rightarrow> x | (Some a, Some b) \<Rightarrow> Some (max a b))"

lemma siteIdCmp_0_iff [simp]: "crsql_siteIdCmp a b = 0 \<longleftrightarrow> a = b"
  by (simp add: siteIdCmp_lexcmp word_bytes.lexcmp_0_iff)

lemma update_seen_None: "update_seen ps s v = None \<longleftrightarrow> s \<notin> sp_siteId ` set ps"
  by (induction ps) auto

lemma update_seen_ids: "update_seen ps s v = Some qs \<Longrightarrow> map sp_siteId qs = map sp_siteId ps"
  by (induction ps arbitrary: qs) (auto split: if_splits)

lemma update_seen_find:
  "update_seen ps s v = Some qs \<Longrightarrow>
     map_option sp_clock (find (\<lambda>p. sp_siteId p = t) qs) =
     (if t = s then max_opt (map_option sp_clock (find (\<lambda>p. sp_siteId p = t) ps)) (Some v)
      else map_option sp_clock (find (\<lambda>p. sp_siteId p = t) ps))"
  by (induction ps arbitrary: qs) (auto simp: max_opt_def split: if_splits)

lemma seen_None: "seen a s = None \<longleftrightarrow> s \<notin> sp_siteId ` set (peers a)"
  by (auto simp: seen_def find_None_iff)

lemma trackSeenPeer_max_aux:
  assumes "peers_inv a"
  shows "\<exists>a'. crsql_trackSeenPeer True a s v = Some (SQLITE_OK, a') \<and> peers_inv a' \<and>
    seen a' = (seen a)(s := max_opt (seen a s) (Some v))"
proof (cases "update_seen (peers a) s v")
  case (Some ps)
  have ids: "map sp_siteId ps = map sp_siteId (peers a)" using Some by (rule update_seen_ids)
  then have "length ps = length (peers a)" by (metis length_map)
  with ids assms have "peers_inv (a\<lparr>peers := ps\<rparr>)" by (simp add: peers_inv_def)
  moreover have "seen (a\<lparr>peers := ps\<rparr>) = (seen a)(s := max_opt (seen a s) (Some v))"
    using update_seen_find [OF Some] by (auto simp: seen_def fun_eq_iff)
  ultimately show ?thesis using Some by (simp add: crsql_trackSeenPeer_def)
next
  case None
  then have fresh: "s \<notin> sp_siteId ` set (peers a)" by (simp add: update_seen_None)
  define a1 where "a1 = (if length (peers a) = capacity a
    then a\<lparr>capacity := capacity a * 2, slots := capacity a * 2\<rparr> else a)"
  define a' where "a' = a1\<lparr>peers := peers a @ [\<lparr>sp_siteId = s, sp_clock = v\<rparr>]\<rparr>"
  have "length (peers a) < slots a1" using assms by (auto simp: peers_inv_def a1_def)
  then have "crsql_trackSeenPeer True a s v = Some (SQLITE_OK, a')"
    using None by (auto simp: crsql_trackSeenPeer_def a1_def a'_def Let_def)
  moreover have "peers_inv a'"
    using assms fresh by (auto simp: peers_inv_def a'_def a1_def)
  moreover have "seen a' = (seen a)(s := max_opt (seen a s) (Some v))"
    using fresh seen_None [of a s]
    by (auto simp: seen_def a'_def find_append max_opt_def fun_eq_iff split: option.splits)
  ultimately show ?thesis by blast
qed

text \<open>C25. Recording a peer takes the larger of the versions seen of it and leaves all other peers
  alone, for any number of peers: the array grows before a write could fall outside it, and no
  peer is ever listed twice.\<close>

theorem trackSeenPeer_refines_max:
  assumes "peers_inv a"
  shows "\<exists>a'. crsql_trackSeenPeer True a s v = Some (SQLITE_OK, a') \<and> peers_inv a' \<and>
    seen a' = (seen a)(s := max_opt (seen a s) (Some v))"
  using trackSeenPeer_max_aux [OF assms] .

lemma peers_inv_new: "peers_inv crsql_newSeenPeers"
  by (simp add: peers_inv_def crsql_newSeenPeers_def)

lemma seen_new: "seen crsql_newSeenPeers = (\<lambda>_. None)"
  by (simp add: seen_def crsql_newSeenPeers_def fun_eq_iff)

theorem trackSeenPeer_refines_max_witness:
  "\<exists>a'. crsql_trackSeenPeer True crsql_newSeenPeers [1] 7 = Some (SQLITE_OK, a') \<and> seen a' [1] = Some 7"
  using trackSeenPeer_refines_max [OF peers_inv_new, of "[1]" 7]
  by (auto simp: seen_new max_opt_def)

lemma reset_inv:
  "peers_inv a \<Longrightarrow> peers_inv (crsql_resetSeenPeers a)" "seen (crsql_resetSeenPeers a) s = None"
  by (simp_all add: peers_inv_def crsql_resetSeenPeers_def seen_def)

text \<open>C39. When growing the array fails, the call reports an error but has already doubled the
  recorded capacity: the next new peer is written past the end of the array, unless its own
  call happens to grow it.\<close>

theorem trackSeenPeer_overflow:
  assumes "peers_inv a" and "length (peers a) = slots a"
    and "s \<notin> sp_siteId ` set (peers a)" and "t \<notin> sp_siteId ` set (peers a)"
  shows "\<exists>a'. crsql_trackSeenPeer False a s v = Some (SQLITE_ERROR, a') \<and>
    crsql_trackSeenPeer ok a' t w = None"
proof -
  have "length (peers a) = capacity a" "0 < capacity a" using assms(1,2) by (auto simp: peers_inv_def)
  then show ?thesis
    using assms(2-4) update_seen_None [of "peers a" s v] update_seen_None [of "peers a" t w]
    by (simp add: crsql_trackSeenPeer_def)
qed

definition five_peers :: seen_peers where
  "five_peers = \<lparr>peers = map (\<lambda>i. \<lparr>sp_siteId = [i], sp_clock = 1\<rparr>) [1, 2, 3, 4, 5], capacity = 5, slots = 5\<rparr>"

theorem trackSeenPeer_overflow_witness:
  "\<exists>a'. crsql_trackSeenPeer False five_peers [6] 1 = Some (SQLITE_ERROR, a') \<and>
    crsql_trackSeenPeer True a' [7] 1 = None"
  by (rule trackSeenPeer_overflow) (simp_all add: five_peers_def peers_inv_def)

section \<open>Storing the peers on commit\<close>

text \<open>The statement \<^verbatim>\<open>pTrackPeersStmt\<close> with its four parameters: the site id must not be NULL, and
  a row with the same site, tag and event keeps the larger version.\<close>

definition peer_key :: "peer_row \<Rightarrow> blob \<times> int \<times> int" where
  "peer_key p = (pr_site p, pr_tag p, pr_event p)"

definition peer_upsert :: "peer_row \<Rightarrow> peer_row list \<Rightarrow> peer_row list" where
  "peer_upsert new ps =
     (if list_ex (\<lambda>p. peer_key p = peer_key new) ps
      then map (\<lambda>p. if peer_key p = peer_key new
                    then p\<lparr>pr_vrsn := max (pr_vrsn p) (pr_vrsn new)\<rparr> else p) ps
      else ps @ [new])"

definition track_peer :: "peer_row \<Rightarrow> command" where
  "track_peer new c =
     (if pr_site new = [] then (SQLITE_CONSTRAINT, c)
      else (SQLITE_DONE, upd_db (db_peers_update (peer_upsert new)) c))"

text \<open>The four \<^verbatim>\<open>bind\<close> calls, whose codes are added up.\<close>

definition bind_four :: "conn \<Rightarrow> int \<times> conn" where
  "bind_four c =
     (let stmt = pTrackPeersStmt (ext c); code = (\<lambda>f. if stmt then f else SQLITE_MISUSE);
          (f1, c) = sql_call c; (f2, c) = sql_call c; (f3, c) = sql_call c; (f4, c) = sql_call c in
      (code f1 + code f2 + code f3 + code f4, c))"

fun write_peers :: "seen_peer list \<Rightarrow> conn \<Rightarrow> int \<times> conn" where
  "write_peers [] c = (SQLITE_OK, c)"
| "write_peers (p # ps) c =
     (let (rc, c) = bind_four c in
      if rc \<noteq> SQLITE_OK then (rc, c)
      else let (rc, c) = run_exec (track_peer \<lparr>pr_site = sp_siteId p, pr_vrsn = sp_clock p,
                                     pr_tag = 0, pr_event = 0\<rparr>) c in
      if rc \<noteq> SQLITE_DONE then (rc, c)
      else let (f1, c) = sql_call c; (f2, c) = sql_call c; rc = f1 + f2 in
      if rc \<noteq> SQLITE_OK then (rc, c) else write_peers ps c)"

definition crsql_writeTrackedPeers :: "seen_peers \<Rightarrow> conn \<Rightarrow> int \<times> conn" where
  "crsql_writeTrackedPeers a c =
     (if length (peers a) = 0 then (SQLITE_OK, c) else write_peers (peers a) c)"

definition tracked :: "database \<Rightarrow> blob \<Rightarrow> int option" where
  "tracked d s = map_option pr_vrsn (find (\<lambda>p. peer_key p = (s, 0, 0)) (db_peers d))"

lemma find_map_update:
  "find P (map f xs) = map_option f (find (P \<circ> f) xs)"
  by (induction xs) auto

lemma find_peer_upsert:
  "map_option pr_vrsn (find (\<lambda>p. peer_key p = k) (peer_upsert new ps)) =
     (if k = peer_key new
      then max_opt (map_option pr_vrsn (find (\<lambda>p. peer_key p = k) ps)) (Some (pr_vrsn new))
      else map_option pr_vrsn (find (\<lambda>p. peer_key p = k) ps))"
proof (cases "list_ex (\<lambda>p. peer_key p = peer_key new) ps")
  case True
  define f where "f = (\<lambda>p. if peer_key p = peer_key new
    then p\<lparr>pr_vrsn := max (pr_vrsn p) (pr_vrsn new)\<rparr> else p)"
  have key: "peer_key (f p) = peer_key p" for p by (simp add: f_def peer_key_def)
  have "peer_upsert new ps = map f ps" using True by (simp add: peer_upsert_def f_def)
  then have "find (\<lambda>p. peer_key p = k) (peer_upsert new ps) =
      map_option f (find (\<lambda>p. peer_key p = k) ps)"
    by (simp add: find_map_update comp_def key)
  moreover have "find (\<lambda>p. peer_key p = peer_key new) ps \<noteq> None"
    using True unfolding find_None_iff list_ex_iff by blast
  moreover have "peer_key x = k" if "find (\<lambda>p. peer_key p = k) ps = Some x" for x
    using that unfolding find_Some_iff by blast
  ultimately show ?thesis
    by (cases "find (\<lambda>p. peer_key p = k) ps") (auto simp: f_def max_opt_def)
next
  case False
  then have "find (\<lambda>p. peer_key p = peer_key new) ps = None"
    by (auto simp: find_None_iff list_ex_iff)
  with False show ?thesis
    by (auto simp: peer_upsert_def find_append max_opt_def split: option.splits)
qed

lemma write_peers_result:
  assumes "faults c = []" and "pTrackPeersStmt (ext c)" and "list_all (\<lambda>p. sp_siteId p \<noteq> []) ps"
    and "distinct (map sp_siteId ps)"
  shows "\<exists>ps'. write_peers ps c = (SQLITE_OK, upd_db (db_peers_update (\<lambda>_. ps')) c) \<and>
    (\<forall>s. map_option pr_vrsn (find (\<lambda>p. peer_key p = (s, 0, 0)) ps') =
      max_opt (tracked (db c) s) (map_option sp_clock (find (\<lambda>p. sp_siteId p = s) ps)))"
  using assms
proof (induction ps arbitrary: c)
  case Nil
  have "c = upd_db (db_peers_update (\<lambda>_. db_peers (db c))) c" by (simp add: upd_db_def)
  moreover have "max_opt x None = x" for x by (simp add: max_opt_def split: option.split)
  ultimately show ?case by (intro exI [of _ "db_peers (db c)"]) (simp add: tracked_def)
next
  case (Cons p ps)
  define new where "new = \<lparr>pr_site = sp_siteId p, pr_vrsn = sp_clock p, pr_tag = 0, pr_event = 0\<rparr>"
  define c1 where "c1 = upd_db (db_peers_update (peer_upsert new)) c"
  have c1: "faults c1 = []" "pTrackPeersStmt (ext c1)" using Cons.prems by (simp_all add: c1_def)
  have step: "write_peers (p # ps) c = write_peers ps c1"
    using Cons.prems c1 by (simp add: bind_four_def track_peer_def new_def [symmetric] c1_def Let_def)
       (simp add: new_def)
  obtain ps' where ps': "write_peers ps c1 = (SQLITE_OK, upd_db (db_peers_update (\<lambda>_. ps')) c1)"
    "\<And>s. map_option pr_vrsn (find (\<lambda>p. peer_key p = (s, 0, 0)) ps') =
      max_opt (tracked (db c1) s) (map_option sp_clock (find (\<lambda>p. sp_siteId p = s) ps))"
    using Cons.IH [OF c1] Cons.prems by auto
  have key: "peer_key new = (sp_siteId p, 0, 0)" by (simp add: new_def peer_key_def)
  have t: "tracked (db c1) s =
      (if s = sp_siteId p then max_opt (tracked (db c) s) (Some (sp_clock p)) else tracked (db c) s)" for s
    using find_peer_upsert [of "(s, 0, 0)" new "db_peers (db c)"]
    by (auto simp: tracked_def c1_def key) (simp_all add: new_def)
  have none: "find (\<lambda>q. sp_siteId q = sp_siteId p) ps = None"
    using Cons.prems(4) by (auto simp: find_None_iff image_iff)
  have "map_option pr_vrsn (find (\<lambda>p. peer_key p = (s, 0, 0)) ps') =
      max_opt (tracked (db c) s) (map_option sp_clock (find (\<lambda>q. sp_siteId q = s) (p # ps)))" for s
    using ps'(2) [of s] t [of s] none by (auto simp: max_opt_def split: option.splits)
  moreover have "upd_db (db_peers_update (\<lambda>_. ps')) c1 = upd_db (db_peers_update (\<lambda>_. ps')) c"
    by (simp add: c1_def upd_db_def)
  ultimately show ?case using step ps'(1) by auto
qed

text \<open>C26. Committing stores every peer seen in the transaction: afterwards the version tracked for a
  site is the larger of the one tracked before and the one seen, and sites that were not seen
  keep theirs.\<close>

theorem writeTrackedPeers_result:
  assumes "peers_inv a" and "list_all (\<lambda>p. sp_siteId p \<noteq> []) (peers a)" and "faults c = []"
    and "pTrackPeersStmt (ext c)"
  shows "\<exists>ps'. crsql_writeTrackedPeers a c = (SQLITE_OK, upd_db (db_peers_update (\<lambda>_. ps')) c) \<and>
    tracked (db (upd_db (db_peers_update (\<lambda>_. ps')) c)) s = max_opt (tracked (db c) s) (seen a s)"
proof -
  have "crsql_writeTrackedPeers a c = write_peers (peers a) c"
    by (cases "peers a") (simp_all add: crsql_writeTrackedPeers_def)
  with write_peers_result [of c "peers a"] assms show ?thesis
    by (auto simp: peers_inv_def tracked_def seen_def)
qed

theorem writeTrackedPeers_result_witness:
  "\<exists>ps'. crsql_writeTrackedPeers five_peers test_conn =
      (SQLITE_OK, upd_db (db_peers_update (\<lambda>_. ps')) test_conn) \<and>
    tracked (db (upd_db (db_peers_update (\<lambda>_. ps')) test_conn)) [3] = Some 1"
proof -
  have "peers_inv five_peers" "list_all (\<lambda>p. sp_siteId p \<noteq> []) (peers five_peers)"
    by (simp_all add: five_peers_def peers_inv_def)
  moreover have "faults test_conn = []" "pTrackPeersStmt (ext test_conn)"
    by (simp_all add: test_conn_def fresh_ext_def)
  moreover have "seen five_peers [3] = Some 1" "tracked (db test_conn) [3] = None"
    by (simp_all add: seen_def five_peers_def tracked_def test_conn_def test_db_def)
  ultimately show ?thesis
    using writeTrackedPeers_result [of five_peers test_conn "[3]"] by (auto simp: max_opt_def)
qed

end
