(* ===== verification/Sql_Layout.thy ===== *)
theory Sql_Layout imports Sqlite_Base begin

text \<open>
  Texts of statements up to their layout: SQL takes any run of blanks for one. A text the C code
  makes is given the meaning of a statement when it is that statement as printed here.
\<close>

definition blank :: "char \<Rightarrow> bool" where
  "blank ch \<longleftrightarrow> ch = CHR '' '' \<or> ch = CHR 0x0A \<or> ch = CHR 0x09"

text \<open>The flag says that the character before was a blank.\<close>

fun layout :: "bool \<Rightarrow> string \<Rightarrow> string" where
  "layout b [] = []"
| "layout b (ch # s) =
     (if blank ch then (if b then layout True s else CHR '' '' # layout True s) else ch # layout False s)"

definition ends_blank :: "bool \<Rightarrow> string \<Rightarrow> bool" where
  "ends_blank b s = (if s = [] then b else blank (last s))"

definition same_sql :: "string \<Rightarrow> string \<Rightarrow> bool" where
  "same_sql s t \<longleftrightarrow> layout False (s @ '' '') = layout False (t @ '' '')"

lemma layout_append: "layout b (s @ t) = layout b s @ layout (ends_blank b s) t"
  by (induction s arbitrary: b) (auto simp: ends_blank_def)

text \<open>Texts that may replace each other inside of others.\<close>

definition like_sql :: "string \<Rightarrow> string \<Rightarrow> bool" where
  "like_sql s t \<longleftrightarrow> (\<forall>b. layout b s = layout b t \<and> ends_blank b s = ends_blank b t)"

lemma like_sql_refl [simp]: "like_sql s s"
  by (simp add: like_sql_def)

lemma ends_blank_append: "ends_blank b (s @ t) = ends_blank (ends_blank b s) t"
  by (simp add: ends_blank_def)

lemma like_sql_append: "like_sql s t \<Longrightarrow> like_sql s' t' \<Longrightarrow> like_sql (s @ s') (t @ t')"
  by (simp add: like_sql_def layout_append ends_blank_append)

lemma like_sql_concat: "(\<And>x. x \<in> set xs \<Longrightarrow> like_sql (f x) (g x)) \<Longrightarrow> like_sql (concat (map f xs)) (concat (map g xs))"
  by (induction xs) (auto intro: like_sql_append)

lemma like_sql_same: "like_sql s t \<Longrightarrow> same_sql s t"
  by (simp add: like_sql_def same_sql_def layout_append)

lemma ends_blank_Cons [simp]: "ends_blank b (ch # s) = ends_blank (blank ch) s"
  by (simp add: ends_blank_def)

lemma ends_blank_Nil [simp]: "ends_blank b [] = b"
  by (simp add: ends_blank_def)

lemma blank_chars [simp]: "blank (CHR '' '')" "blank (CHR 0x0A)"
  by (simp_all add: blank_def)

lemmas layout_simps = like_sql_def layout_append ends_blank_append dq_def

end
