(* ===== verification/Triggers.thy ===== *)
theory Triggers imports Seen_Peers Sql_Layout begin

text \<open>
  \<^verbatim>\<open>core/src/triggers.c\<close>: the triggers that record local writes in the clock tables. Their texts,
  the functions that create and drop them, and what they do when a row of a replicated table is
  inserted, updated or deleted.

  A statement keeps the text the C code passes to SQLite next to its meaning
  (\<open>exec_text zSql meaning\<close>). The text of a trigger decides what the trigger does: a trigger is made only
  of a text that is, up to its layout, the printed form of statements, and these are what runs when
  it fires (\<open>exec_trigger\<close>).
\<close>

definition exec_text :: "string \<Rightarrow> command \<Rightarrow> command" where
  "exec_text zSql meaning = run_exec meaning"

lemma exec_text_ok [simp]: "faults c = [] \<Longrightarrow> exec_text zSql m c = m c"
  by (simp add: exec_text_def)

section \<open>Texts\<close>

definition pk_list :: "table_info \<Rightarrow> string option \<Rightarrow> string" where
  "pk_list info prefix =
     (if ti_pks info = [] then fmt_s prefix @ dq ''rowid''
      else fmt_s (identifier_list (ti_pks info) prefix))"

definition sub_trigger :: "string \<Rightarrow> string \<Rightarrow> string \<Rightarrow> string \<Rightarrow> string" where
  "sub_trigger tbl pkList pkNewList col =
    ''INSERT INTO '' @ dq (tbl @ ''__crsql_clock'') @ '' (        '' @ pkList @
    '',        __crsql_col_name,        __crsql_col_version,        '' @
    ''__crsql_db_version,        __crsql_site_id      ) SELECT         '' @ pkNewList @
    '',        '' @ fmt_Q col @
    '',        1,        crsql_nextdbversion(),        NULL      WHERE '' @
    ''crsql_internal_sync_bit() = 0 ON CONFLICT DO UPDATE SET        '' @
    ''__crsql_col_version = __crsql_col_version + 1,        '' @
    ''__crsql_db_version = crsql_nextdbversion(),        __crsql_site_id = '' @ ''NULL;'' @
    [CHR 0x0A]"

text \<open>For a table without other columns one text is made, and then none is joined.\<close>

definition crsql_insertTriggerQuery :: "table_info \<Rightarrow> string \<Rightarrow> string \<Rightarrow> string" where
  "crsql_insertTriggerQuery info pkList pkNewList =
     (let tbl = ti_tblName info;
          subTriggers = (if ti_nonPks info = [] then [sub_trigger tbl pkList pkNewList PKS_ONLY_CID_SENTINEL]
            else map (\<lambda>c. sub_trigger tbl pkList pkNewList (ci_name c)) (ti_nonPks info)) in
      concat (take (length (ti_nonPks info)) subTriggers))"

definition insert_trigger_text :: "string \<Rightarrow> string \<Rightarrow> string" where
  "insert_trigger_text tbl body =
    ''CREATE TRIGGER IF NOT EXISTS '' @ dq (tbl @ ''__crsql_itrig'') @
    ''      AFTER INSERT ON '' @ dq tbl @ ''    BEGIN      '' @ body @ ''    END;''"

definition update_sub_trigger :: "string \<Rightarrow> string \<Rightarrow> string \<Rightarrow> string \<Rightarrow> string" where
  "update_sub_trigger tbl pkList pkNewList col =
    ''INSERT INTO '' @ dq (tbl @ ''__crsql_clock'') @ '' (        '' @ pkList @
    '',        __crsql_col_name,        __crsql_col_version,        '' @
    ''__crsql_db_version,        __crsql_site_id      ) SELECT '' @ pkNewList @ '', '' @
    fmt_Q col @ '', 1, crsql_nextdbversion(), NULL WHERE crsql_internal_sync_bit() = 0 '' @
    ''AND NEW.'' @ dq (fmt_w col) @ '' != OLD.'' @ dq (fmt_w col) @
    ''      ON CONFLICT DO UPDATE SET        __crsql_col_version = '' @
    ''__crsql_col_version + 1,        __crsql_db_version = '' @
    ''crsql_nextdbversion(),        __crsql_site_id = NULL;'' @ [CHR 0x0A]"

definition update_trigger_text :: "string \<Rightarrow> string \<Rightarrow> string" where
  "update_trigger_text tbl body =
    ''CREATE TRIGGER IF NOT EXISTS '' @ dq (tbl @ ''__crsql_utrig'') @
    ''      AFTER UPDATE ON '' @ dq tbl @ ''    BEGIN      '' @ body @ ''    END;''"

definition crsql_deleteTriggerQuery :: "table_info \<Rightarrow> string" where
  "crsql_deleteTriggerQuery info =
     (let tbl = ti_tblName info; pkList = pk_list info None; pkOldList = pk_list info (Some ''OLD.'') in
    ''CREATE TRIGGER IF NOT EXISTS '' @ dq (tbl @ ''__crsql_dtrig'') @
    ''      AFTER DELETE ON '' @ dq tbl @ ''    BEGIN      INSERT INTO '' @
    dq (tbl @ ''__crsql_clock'') @ '' (        '' @ pkList @
    '',        __crsql_col_name,        __crsql_col_version,        '' @
    ''__crsql_db_version,        __crsql_site_id      ) SELECT         '' @ pkOldList @
    '',        '' @ fmt_Q DELETE_CID_SENTINEL @
    '',        1,        crsql_nextdbversion(),        NULL      WHERE '' @
    ''crsql_internal_sync_bit() = 0 ON CONFLICT DO UPDATE SET      '' @
    ''__crsql_col_version = __crsql_col_version + 1,      '' @
    ''__crsql_db_version = crsql_nextdbversion(),      __crsql_site_id = '' @
    ''NULL;      END; '')"

section \<open>Creating and dropping\<close>

text \<open>\<^verbatim>\<open>CREATE TRIGGER IF NOT EXISTS\<close> and \<^verbatim>\<open>DROP TRIGGER IF EXISTS\<close>; a change of the schema raises the
  schema version.\<close>

definition bump_schema :: "database \<Rightarrow> database" where
  "bump_schema d = d\<lparr>db_schema_version := db_schema_version d + 1\<rparr>"

definition create_trigger :: "string \<Rightarrow> string \<Rightarrow> trig_stmt list \<Rightarrow> command" where
  "create_trigger name tbl body c =
     (if tbl \<notin> set (db_master (db c)) then (SQLITE_ERROR, c)
      else if name \<in> fst ` set (db_trigs (db c)) then (SQLITE_OK, c)
      else (SQLITE_OK, upd_db (\<lambda>d. bump_schema (d\<lparr>db_trigs := (name, body) # db_trigs d\<rparr>)) c))"

text \<open>A trigger printed. No key columns at all stand for the rowid.\<close>

definition keys_text :: "string \<Rightarrow> string list \<Rightarrow> string" where
  "keys_text prefix ks =
     (if ks = [] then prefix @ dq ''rowid'' else join_sep '','' (map (\<lambda>k. prefix @ dq (fmt_w k)) ks))"

definition print_stmt :: "trig_stmt \<Rightarrow> string" where
  "print_stmt s =
     ''INSERT INTO '' @ dq (ts_clock s) @ '' ( '' @ keys_text [] (ts_keys s) @ '', __crsql_col_name, '' @
     ''__crsql_col_version, __crsql_db_version, __crsql_site_id ) SELECT '' @
     keys_text (if ts_old s then ''OLD.'' else ''NEW.'') (ts_keys s) @ '', '' @ fmt_Q (ts_col s) @
     '', 1, crsql_nextdbversion(), NULL WHERE crsql_internal_sync_bit() = 0 '' @
     (case ts_changed s of None \<Rightarrow> []
      | Some k \<Rightarrow> ''AND NEW.'' @ dq (fmt_w k) @ '' != OLD.'' @ dq (fmt_w k) @ '' '') @
     ''ON CONFLICT DO UPDATE SET __crsql_col_version = __crsql_col_version + 1, '' @
     ''__crsql_db_version = crsql_nextdbversion(), __crsql_site_id = NULL; ''"

definition print_trigger :: "string \<Rightarrow> string \<Rightarrow> string \<Rightarrow> trig_stmt list \<Rightarrow> string" where
  "print_trigger name event tbl body =
     ''CREATE TRIGGER IF NOT EXISTS '' @ dq name @ '' AFTER '' @ event @ '' ON '' @ dq tbl @ '' BEGIN '' @
     concat (map print_stmt body) @ ''END;''"

definition exec_trigger :: "string \<Rightarrow> string \<Rightarrow> string \<Rightarrow> string \<Rightarrow> trig_stmt list \<Rightarrow> command" where
  "exec_trigger zSql name event tbl body =
     run_exec (if same_sql zSql (print_trigger name event tbl body) then create_trigger name tbl body
       else (\<lambda>c. (SQLITE_ERROR, c)))"

text \<open>The bodies of the three triggers of a table.\<close>

definition insert_stmts :: "table_info \<Rightarrow> trig_stmt list" where
  "insert_stmts info = map (\<lambda>k. \<lparr>ts_clock = clock_name (ti_tblName info), ts_keys = map ci_name (ti_pks info),
     ts_old = False, ts_col = ci_name k, ts_changed = None\<rparr>) (ti_nonPks info)"

definition update_stmts :: "table_info \<Rightarrow> trig_stmt list" where
  "update_stmts info = map (\<lambda>k. \<lparr>ts_clock = clock_name (ti_tblName info), ts_keys = map ci_name (ti_pks info),
     ts_old = False, ts_col = ci_name k, ts_changed = Some (ci_name k)\<rparr>) (ti_nonPks info)"

definition delete_stmts :: "table_info \<Rightarrow> trig_stmt list" where
  "delete_stmts info = [\<lparr>ts_clock = clock_name (ti_tblName info), ts_keys = map ci_name (ti_pks info),
     ts_old = True, ts_col = DELETE_CID_SENTINEL, ts_changed = None\<rparr>]"

definition drop_trigger :: "string \<Rightarrow> command" where
  "drop_trigger name c =
     (if name \<in> fst ` set (db_trigs (db c))
      then (SQLITE_OK, upd_db (\<lambda>d. bump_schema (d\<lparr>db_trigs := filter (\<lambda>t. fst t \<noteq> name) (db_trigs d)\<rparr>)) c)
      else (SQLITE_OK, c))"

definition itrig :: "string \<Rightarrow> string" where "itrig tbl = tbl @ ''__crsql_itrig''"
definition utrig :: "string \<Rightarrow> string" where "utrig tbl = tbl @ ''__crsql_utrig''"
definition dtrig :: "string \<Rightarrow> string" where "dtrig tbl = tbl @ ''__crsql_dtrig''"

definition crsql_createInsertTrigger :: "table_info \<Rightarrow> command" where
  "crsql_createInsertTrigger info c =
     (if ti_nonPks info = [] then (SQLITE_OK, c)
      else
        let tbl = ti_tblName info;
            joinedSubTriggers =
              crsql_insertTriggerQuery info (pk_list info None) (pk_list info (Some ''NEW.'')) in
        exec_trigger (insert_trigger_text tbl joinedSubTriggers) (itrig tbl) ''INSERT'' tbl (insert_stmts info) c)"

definition crsql_createUpdateTrigger :: "table_info \<Rightarrow> command" where
  "crsql_createUpdateTrigger info c =
     (if ti_nonPks info = [] then (SQLITE_OK, c)
      else
        let tbl = ti_tblName info;
            pkList = fmt_s (identifier_list (ti_pks info) None);
            pkNewList = fmt_s (identifier_list (ti_pks info) (Some ''NEW.''));
            joinedSubTriggers =
              concat (map (\<lambda>k. update_sub_trigger tbl pkList pkNewList (ci_name k)) (ti_nonPks info)) in
        exec_trigger (update_trigger_text tbl joinedSubTriggers) (utrig tbl) ''UPDATE'' tbl (update_stmts info) c)"

definition crsql_createDeleteTrigger :: "table_info \<Rightarrow> command" where
  "crsql_createDeleteTrigger info c =
     exec_trigger (crsql_deleteTriggerQuery info) (dtrig (ti_tblName info)) ''DELETE'' (ti_tblName info)
       (delete_stmts info) c"

text \<open>The texts the code makes are those of the statements.\<close>

lemma keys_text_pks:
  "keys_text (fmt_s prefix) (map ci_name (ti_pks info)) = pk_list info prefix"
  by (simp add: keys_text_def pk_list_def identifier_list_def join2_text_def ident_text_def [abs_def] fmt_s_def comp_def)

lemma keys_text_sides:
  "keys_text [] (map ci_name (ti_pks info)) = pk_list info None"
  "keys_text ''NEW.'' (map ci_name (ti_pks info)) = pk_list info (Some ''NEW.'')"
  "keys_text ''OLD.'' (map ci_name (ti_pks info)) = pk_list info (Some ''OLD.'')"
  using keys_text_pks [of None] keys_text_pks [of "Some ''NEW.''"] keys_text_pks [of "Some ''OLD.''"]
  by (simp_all add: fmt_s_def)

lemma body_end:
  assumes "\<And>x. x \<in> set xs \<Longrightarrow> like_sql (f x) (g x) \<and> ends_blank False (g x) \<and> g x \<noteq> []"
  shows "layout True (concat (map f xs) @ ''    END;'' @ r) = layout True (concat (map g xs) @ ''END;'' @ r)"
  using assms
proof (induction xs)
  case (Cons x xs)
  then have "like_sql (f x) (g x)" "ends_blank True (g x)" by (auto simp: ends_blank_def)
  with Cons show ?case by (simp add: like_sql_def layout_append)
qed (simp add: blank_def)

lemma sub_trigger_text:
  "like_sql (sub_trigger tbl pkList pkNewList col) (''INSERT INTO '' @ dq (tbl @ ''__crsql_clock'') @ '' ( '' @
     pkList @ '', __crsql_col_name, '' @ ''__crsql_col_version, __crsql_db_version, __crsql_site_id ) SELECT '' @
     pkNewList @ '', '' @ fmt_Q col @ '', 1, crsql_nextdbversion(), NULL WHERE crsql_internal_sync_bit() = 0 '' @
     ''ON CONFLICT DO UPDATE SET __crsql_col_version = __crsql_col_version + 1, '' @
     ''__crsql_db_version = crsql_nextdbversion(), __crsql_site_id = NULL; '')"
  unfolding sub_trigger_def by (simp add: layout_simps blank_def)

lemma update_sub_trigger_text:
  "like_sql (update_sub_trigger tbl pkList pkNewList col) (''INSERT INTO '' @ dq (tbl @ ''__crsql_clock'') @ '' ( '' @
     pkList @ '', __crsql_col_name, '' @ ''__crsql_col_version, __crsql_db_version, __crsql_site_id ) SELECT '' @
     pkNewList @ '', '' @ fmt_Q col @ '', 1, crsql_nextdbversion(), NULL WHERE crsql_internal_sync_bit() = 0 '' @
     ''AND NEW.'' @ dq (fmt_w col) @ '' != OLD.'' @ dq (fmt_w col) @ '' '' @
     ''ON CONFLICT DO UPDATE SET __crsql_col_version = __crsql_col_version + 1, '' @
     ''__crsql_db_version = crsql_nextdbversion(), __crsql_site_id = NULL; '')"
  unfolding update_sub_trigger_def by (simp add: layout_simps blank_def)

lemma print_stmt_end: "ends_blank False (print_stmt s)" "print_stmt s \<noteq> []"
  by (simp_all add: print_stmt_def ends_blank_append blank_def)

lemma insert_text:
  assumes "ti_nonPks info \<noteq> []"
  shows "same_sql (insert_trigger_text (ti_tblName info)
      (crsql_insertTriggerQuery info (pk_list info None) (pk_list info (Some ''NEW.''))))
    (print_trigger (itrig (ti_tblName info)) ''INSERT'' (ti_tblName info) (insert_stmts info))"
proof -
  let ?f = "\<lambda>k. sub_trigger (ti_tblName info) (pk_list info None) (pk_list info (Some ''NEW.'')) (ci_name k)"
  let ?g = "\<lambda>k. print_stmt \<lparr>ts_clock = clock_name (ti_tblName info), ts_keys = map ci_name (ti_pks info),
     ts_old = False, ts_col = ci_name k, ts_changed = None\<rparr>"
  have "like_sql (?f k) (?g k)" for k
    using sub_trigger_text [of "ti_tblName info" "pk_list info None" "pk_list info (Some ''NEW.'')" "ci_name k"]
    by (simp add: print_stmt_def clock_name_def keys_text_sides)
  then have "layout True (concat (map ?f (ti_nonPks info)) @ ''    END;'' @ '' '') =
      layout True (concat (map ?g (ti_nonPks info)) @ ''END;'' @ '' '')"
    using print_stmt_end by (intro body_end) simp
  then show ?thesis
    using assms
    by (simp add: same_sql_def insert_trigger_text_def crsql_insertTriggerQuery_def print_trigger_def insert_stmts_def
        Let_def itrig_def layout_append dq_def comp_def blank_def)
qed

lemma update_text:
  assumes "ti_pks info \<noteq> []"
  shows "same_sql (update_trigger_text (ti_tblName info) (concat (map (\<lambda>k. update_sub_trigger (ti_tblName info)
      (fmt_s (identifier_list (ti_pks info) None)) (fmt_s (identifier_list (ti_pks info) (Some ''NEW.''))) (ci_name k))
      (ti_nonPks info))))
    (print_trigger (utrig (ti_tblName info)) ''UPDATE'' (ti_tblName info) (update_stmts info))"
proof -
  let ?f = "\<lambda>k. update_sub_trigger (ti_tblName info) (pk_list info None) (pk_list info (Some ''NEW.'')) (ci_name k)"
  let ?g = "\<lambda>k. print_stmt \<lparr>ts_clock = clock_name (ti_tblName info), ts_keys = map ci_name (ti_pks info),
     ts_old = False, ts_col = ci_name k, ts_changed = Some (ci_name k)\<rparr>"
  have lists: "fmt_s (identifier_list (ti_pks info) p) = pk_list info p" for p using assms by (simp add: pk_list_def)
  have "like_sql (?f k) (?g k)" for k
    using update_sub_trigger_text [of "ti_tblName info" "pk_list info None" "pk_list info (Some ''NEW.'')" "ci_name k"]
    by (simp add: print_stmt_def clock_name_def keys_text_sides)
  then have "layout True (concat (map ?f (ti_nonPks info)) @ ''    END;'' @ '' '') =
      layout True (concat (map ?g (ti_nonPks info)) @ ''END;'' @ '' '')"
    using print_stmt_end by (intro body_end) simp
  then show ?thesis
    by (simp add: same_sql_def update_trigger_text_def print_trigger_def update_stmts_def lists
        utrig_def layout_append dq_def comp_def blank_def)
qed

lemma delete_text:
  "same_sql (crsql_deleteTriggerQuery info)
    (print_trigger (dtrig (ti_tblName info)) ''DELETE'' (ti_tblName info) (delete_stmts info))"
  by (simp add: same_sql_def crsql_deleteTriggerQuery_def print_trigger_def delete_stmts_def print_stmt_def
      clock_name_def keys_text_sides dtrig_def Let_def layout_append ends_blank_append dq_def blank_def)

lemma create_trigger_runs:
  "crsql_createInsertTrigger info c = (if ti_nonPks info = [] then (SQLITE_OK, c)
     else run_exec (create_trigger (itrig (ti_tblName info)) (ti_tblName info) (insert_stmts info)) c)"
  "ti_pks info \<noteq> [] \<Longrightarrow> crsql_createUpdateTrigger info c = (if ti_nonPks info = [] then (SQLITE_OK, c)
     else run_exec (create_trigger (utrig (ti_tblName info)) (ti_tblName info) (update_stmts info)) c)"
  "crsql_createDeleteTrigger info c =
     run_exec (create_trigger (dtrig (ti_tblName info)) (ti_tblName info) (delete_stmts info)) c"
  using insert_text update_text delete_text
  by (simp_all add: crsql_createInsertTrigger_def crsql_createUpdateTrigger_def crsql_createDeleteTrigger_def
      exec_trigger_def Let_def)

definition crsql_createCrrTriggers :: "table_info \<Rightarrow> command" where
  "crsql_createCrrTriggers info c =
     (let (rc, c) = crsql_createInsertTrigger info c in
      if rc = SQLITE_OK then
        let (rc, c) = crsql_createUpdateTrigger info c in
        if rc = SQLITE_OK then crsql_createDeleteTrigger info c else (rc, c)
      else (rc, c))"

definition crsql_removeCrrTriggersIfExist :: "string \<Rightarrow> command" where
  "crsql_removeCrrTriggersIfExist tblName c =
     (let (rc, c) = exec_text (''DROP TRIGGER IF EXISTS '' @ dq (itrig tblName))
            (drop_trigger (itrig tblName)) c in
      if rc \<noteq> SQLITE_OK then (rc, c)
      else let (rc, c) = exec_text (''DROP TRIGGER IF EXISTS '' @ dq (utrig tblName))
            (drop_trigger (utrig tblName)) c in
      if rc \<noteq> SQLITE_OK then (rc, c)
      else exec_text (''DROP TRIGGER IF EXISTS '' @ dq (dtrig tblName))
            (drop_trigger (dtrig tblName)) c)"

section \<open>What the triggers do\<close>

text \<open>A row of a clock table is identified by its key values and its column name.\<close>

definition same_clock :: "sqlval list \<Rightarrow> string \<Rightarrow> clock_row \<Rightarrow> bool" where
  "same_clock pk col r \<longleftrightarrow> ck_col r = col \<and> sql_eqs pk (ck_pk r)"

text \<open>\<^verbatim>\<open>INSERT ... ON CONFLICT DO UPDATE SET __crsql_col_version = __crsql_col_version + 1, ...\<close>\<close>

definition clock_bump :: "sqlval list \<Rightarrow> string \<Rightarrow> int \<Rightarrow> clock_row list \<Rightarrow> clock_row list" where
  "clock_bump pk col dbv rows =
     (if list_ex (same_clock pk col) rows
      then map (\<lambda>r. if same_clock pk col r
             then r\<lparr>ck_vrsn := ck_vrsn r + 1, ck_dbv := dbv, ck_site := None\<rparr> else r) rows
      else rows @ [\<lparr>ck_pk = pk, ck_col = col, ck_vrsn = 1, ck_dbv = dbv, ck_site = None\<rparr>])"

definition upd_clock :: "string \<Rightarrow> (clock_row list \<Rightarrow> clock_row list) \<Rightarrow> database \<Rightarrow> database" where
  "upd_clock name f d = d\<lparr>db_clock := (db_clock d)(name :=
     map_option (\<lambda>t. t\<lparr>ct_rows := f (ct_rows t)\<rparr>) (db_clock d name))\<rparr>"

text \<open>\<^verbatim>\<open>NEW.c != OLD.c\<close> is true of two values that are not NULL and not equal.\<close>

definition sql_neq :: "sqlval \<Rightarrow> sqlval \<Rightarrow> bool" where
  "sql_neq v w \<longleftrightarrow> v \<noteq> VNull \<and> w \<noteq> VNull \<and> \<not> sql_eq v w"

definition stmt_key :: "trig_stmt \<Rightarrow> row \<Rightarrow> row \<Rightarrow> sqlval list" where
  "stmt_key s old new = map (if ts_old s then old else new) (ts_keys s)"

definition stmt_changed :: "trig_stmt \<Rightarrow> row \<Rightarrow> row \<Rightarrow> bool" where
  "stmt_changed s old new = (case ts_changed s of None \<Rightarrow> True | Some k \<Rightarrow> sql_neq (new k) (old k))"

text \<open>One statement of a trigger body, guarded by the synchronisation bit and by the change of a column.
  The columns it lists must be those of the clock table.\<close>

definition trigger_stmt :: "trig_stmt \<Rightarrow> row \<Rightarrow> row \<Rightarrow> conn \<Rightarrow> (int \<times> conn) option" where
  "trigger_stmt s old new c =
     (case db_clock (db c) (ts_clock s) of
        None \<Rightarrow> Some (SQLITE_ERROR, c)
      | Some t \<Rightarrow>
          if ct_pks t \<noteq> ts_keys s then Some (SQLITE_ERROR, c)
          else if syncBit c \<noteq> 0 \<or> \<not> stmt_changed s old new then Some (SQLITE_OK, c)
          else do {
            (v, c) \<leftarrow> nextDbVersionFunc c;
            case v of
              Inl err \<Rightarrow> Some (SQLITE_ERROR, c)
            | Inr v \<Rightarrow> Some (SQLITE_OK,
                upd_db (upd_clock (ts_clock s) (clock_bump (stmt_key s old new) (ts_col s) v)) c)
          })"

fun trigger_body :: "trig_stmt list \<Rightarrow> row \<Rightarrow> row \<Rightarrow> conn \<Rightarrow> (int \<times> conn) option" where
  "trigger_body [] old new c = Some (SQLITE_OK, c)"
| "trigger_body (s # ss) old new c = do {
     (rc, c) \<leftarrow> trigger_stmt s old new c;
     if rc \<noteq> SQLITE_OK then Some (rc, c) else trigger_body ss old new c
   }"

definition pk_vals :: "table_info \<Rightarrow> row \<Rightarrow> sqlval list" where
  "pk_vals info r = map (r \<circ> ci_name) (ti_pks info)"

text \<open>The triggers of a table are found by the names the code gives them.\<close>

definition fire :: "string \<Rightarrow> row \<Rightarrow> row \<Rightarrow> conn \<Rightarrow> (int \<times> conn) option" where
  "fire name old new c =
     (case map_of (db_trigs (db c)) name of
        None \<Rightarrow> Some (SQLITE_OK, c)
      | Some body \<Rightarrow> trigger_body body old new c)"

definition after_insert :: "string \<Rightarrow> row \<Rightarrow> conn \<Rightarrow> (int \<times> conn) option" where
  "after_insert tbl new = fire (itrig tbl) new new"

definition after_update :: "string \<Rightarrow> row \<Rightarrow> row \<Rightarrow> conn \<Rightarrow> (int \<times> conn) option" where
  "after_update tbl old new = fire (utrig tbl) old new"

definition after_delete :: "string \<Rightarrow> row \<Rightarrow> conn \<Rightarrow> (int \<times> conn) option" where
  "after_delete tbl old = fire (dtrig tbl) old old"

section \<open>Writes of rows\<close>

text \<open>A statement that fails undoes its changes to the database.\<close>

definition atomic :: "(conn \<Rightarrow> (int \<times> conn) option) \<Rightarrow> conn \<Rightarrow> (int \<times> conn) option" where
  "atomic f c = do {
     (rc, c') \<leftarrow> f c;
     Some (rc, if rc \<noteq> SQLITE_OK then c'\<lparr>db := db c\<rparr> else c')
   }"

definition upd_rows :: "string \<Rightarrow> (row list \<Rightarrow> row list) \<Rightarrow> database \<Rightarrow> database" where
  "upd_rows tbl f d = d\<lparr>db_user := (db_user d)(tbl :=
     map_option (\<lambda>t. t\<lparr>ut_rows := f (ut_rows t)\<rparr>) (db_user d tbl))\<rparr>"

text \<open>Rows of one key: the primary key's columns are those of the table's description.\<close>

definition table_pks :: "user_table \<Rightarrow> string list" where
  "table_pks t = map ci_name (sort_key ci_pk (filter (\<lambda>k. ci_pk k > 0) (ut_cols t)))"

definition same_row :: "user_table \<Rightarrow> row \<Rightarrow> row \<Rightarrow> bool" where
  "same_row t r s \<longleftrightarrow> sql_eqs (map r (table_pks t)) (map s (table_pks t))"

definition nulls_ok :: "user_table \<Rightarrow> row \<Rightarrow> bool" where
  "nulls_ok t r \<longleftrightarrow> list_all (\<lambda>k. ci_notnull k = 0 \<or> r (ci_name k) \<noteq> VNull) (ut_cols t)"

definition insert_row :: "string \<Rightarrow> row \<Rightarrow> conn \<Rightarrow> (int \<times> conn) option" where
  "insert_row tbl r c = after_insert tbl r (upd_db (upd_rows tbl (\<lambda>rs. rs @ [r])) c)"

text \<open>Changing the row that is stored under the key of \<open>k\<close>, if there is one; the trigger sees the stored
  row. Removing the rows that satisfy a condition, one by one.\<close>

definition update_row :: "string \<Rightarrow> row \<Rightarrow> (row \<Rightarrow> row) \<Rightarrow> conn \<Rightarrow> (int \<times> conn) option" where
  "update_row tbl k f c =
     (case db_user (db c) tbl of
        None \<Rightarrow> Some (SQLITE_ERROR, c)
      | Some t \<Rightarrow>
          (case find (same_row t k) (ut_rows t) of
             None \<Rightarrow> Some (SQLITE_OK, c)
           | Some old \<Rightarrow> after_update tbl old (f old)
               (upd_db (upd_rows tbl (map (\<lambda>r. if same_row t k r then f r else r))) c)))"

text \<open>\<open>keep\<close> are the rows already passed over.\<close>

fun delete_rows :: "string \<Rightarrow> (row \<Rightarrow> bool) \<Rightarrow> row list \<Rightarrow> row list \<Rightarrow> conn \<Rightarrow> (int \<times> conn) option" where
  "delete_rows tbl P keep [] c = Some (SQLITE_OK, c)"
| "delete_rows tbl P keep (r # rs) c =
     (if P r then do {
        (rc, c) \<leftarrow> after_delete tbl r (upd_db (upd_rows tbl (\<lambda>_. keep @ rs)) c);
        if rc \<noteq> SQLITE_OK then Some (rc, c) else delete_rows tbl P keep rs c
      }
      else delete_rows tbl P (keep @ [r]) rs c)"

section \<open>The effect on the clocks\<close>

definition clock_lookup :: "clock_row list \<Rightarrow> sqlval list \<Rightarrow> string \<Rightarrow> clock_row option" where
  "clock_lookup rows pk col = find (same_clock pk col) rows"

lemma same_clock_key:
  "same_clock pk col r \<Longrightarrow> same_clock pk' col' r \<longleftrightarrow> col' = col \<and> sql_eqs pk' pk"
  by (auto simp: same_clock_def dest: sql_eqs_cong)

lemma lookup_bump:
  assumes "not_null pk"
  shows "clock_lookup (clock_bump pk col v rows) pk' col' =
    (if col' = col \<and> sql_eqs pk' pk
     then (case clock_lookup rows pk col of
        None \<Rightarrow> Some \<lparr>ck_pk = pk, ck_col = col, ck_vrsn = 1, ck_dbv = v, ck_site = None\<rparr>
      | Some r \<Rightarrow> Some (r\<lparr>ck_vrsn := ck_vrsn r + 1, ck_dbv := v, ck_site := None\<rparr>))
     else clock_lookup rows pk' col')"
proof -
  define f where "f = (\<lambda>r. if same_clock pk col r
    then r\<lparr>ck_vrsn := ck_vrsn r + 1, ck_dbv := v, ck_site := None\<rparr> else r)"
  define new where "new = \<lparr>ck_pk = pk, ck_col = col, ck_vrsn = 1, ck_dbv = v, ck_site = None\<rparr>"
  have same: "same_clock p k (f r) = same_clock p k r" for p k r
    by (simp add: f_def same_clock_def)
  have map: "find (same_clock pk' col') (map f rows) = map_option f (find (same_clock pk' col') rows)"
    by (rule find_map_key) (simp add: same)
  have eq: "same_clock pk' col' = same_clock pk col" if "col' = col" "sql_eqs pk' pk"
  proof
    fix r
    show "same_clock pk' col' r = same_clock pk col r"
      using that sql_eqs_sym sql_eqs_trans unfolding same_clock_def by blast
  qed
  show ?thesis
  proof (cases "list_ex (same_clock pk col) rows")
    case True
    then have bump: "clock_bump pk col v rows = map f rows" by (simp add: clock_bump_def f_def)
    from True have "find (same_clock pk col) rows \<noteq> None"
      unfolding find_None_iff list_ex_iff by blast
    then obtain r where r: "find (same_clock pk col) rows = Some r" "same_clock pk col r"
      unfolding find_Some_iff by (auto simp: find_Some_iff)
    have other: "\<not> same_clock pk col q" if "find (same_clock pk' col') rows = Some q"
      "\<not> (col' = col \<and> sql_eqs pk' pk)" for q
      using that same_clock_key [of pk col q pk' col'] by (auto simp: find_Some_iff)
    have fr: "same_clock pk col q \<Longrightarrow> f q = q\<lparr>ck_vrsn := ck_vrsn q + 1, ck_dbv := v, ck_site := None\<rparr>"
      "\<not> same_clock pk col q \<Longrightarrow> f q = q" for q
      by (simp_all add: f_def)
    show ?thesis
      using r other eq
      by (cases "find (same_clock pk' col') rows") (auto simp: clock_lookup_def bump map fr)
  next
    case False
    then have none: "find (same_clock pk col) rows = None"
      unfolding find_None_iff list_ex_iff by blast
    have "same_clock pk col new" using assms by (simp add: same_clock_def new_def sql_eqs_refl)
    with same_clock_key have "same_clock pk' col' new \<longleftrightarrow> col' = col \<and> sql_eqs pk' pk" by blast
    then show ?thesis
      using False none eq
      by (auto simp: clock_lookup_def clock_bump_def find_append new_def [symmetric] split: option.split)
  qed
qed

text \<open>What a trigger body does to the rows of the clock table.\<close>

definition bump_all :: "sqlval list \<Rightarrow> int \<Rightarrow> (string \<times> bool) list \<Rightarrow> clock_row list \<Rightarrow> clock_row list" where
  "bump_all pk v ss rows = fold (\<lambda>(col, changed). if changed then clock_bump pk col v else id) ss rows"

lemma upd_clock_simps [simp]:
  "db_master (upd_clock n f d) = db_master d" "db_schema_version (upd_clock n f d) = db_schema_version d"
  "db_data_version (upd_clock n f d) = db_data_version d" "db_user (upd_clock n f d) = db_user d"
  "db_trigs (upd_clock n f d) = db_trigs d" "db_peers (upd_clock n f d) = db_peers d"
  by (simp_all add: upd_clock_def)

lemma clock_upd_clock [simp]:
  "db_clock (upd_clock n f d) m = (if m = n then map_option (\<lambda>t. t\<lparr>ct_rows := f (ct_rows t)\<rparr>) (db_clock d n)
     else db_clock d m)"
  by (simp add: upd_clock_def)

lemma select_upd_clock [simp]: "clock_tables_select (upd_clock n f d) = clock_tables_select d"
  by (simp add: clock_tables_select_def)

lemma clocks_ok_upd_clock [simp]: "clocks_ok (upd_clock n f d) = clocks_ok d"
  by (auto simp: clocks_ok_def names_short_def list_all_iff)

lemma ready_upd_clock [simp]: "ready (upd_db (upd_clock n f) c) = ready c"
  by (auto simp: ready_def stmts_live_def version_stmt_ok_def split: option.splits)

lemma upd_clock_id: "upd_clock n (\<lambda>x. x) d = d"
  by (simp add: upd_clock_def option.map_ident)

lemma upd_clock_comp: "upd_clock n g (upd_clock n f d) = upd_clock n (g \<circ> f) d"
  by (auto simp: upd_clock_def option.map_comp comp_def)

lemma ready_faults: "ready c \<Longrightarrow> faults c = []"
  by (simp add: ready_def)

text \<open>The connection but for its database and the cached version.\<close>

definition quiet :: "conn \<Rightarrow> conn \<Rightarrow> bool" where
  "quiet c c' \<longleftrightarrow> siteId (ext c') = siteId (ext c) \<and> zpTableInfos (ext c') = zpTableInfos (ext c) \<and>
     tableInfosLen (ext c') = tableInfosLen (ext c) \<and>
     pragmaSchemaVersionForTableInfos (ext c') = pragmaSchemaVersionForTableInfos (ext c) \<and>
     pTrackPeersStmt (ext c') = pTrackPeersStmt (ext c) \<and> same_tx c c'"

lemma quiet_refl [simp]: "quiet c c"
  by (simp add: quiet_def)

lemma quiet_upd_db [simp]: "quiet (upd_db f c) c' = quiet c c'" "quiet c (upd_db f c') = quiet c c'"
  by (simp_all add: quiet_def)

lemma quiet_trans: "quiet a b \<Longrightarrow> quiet b c \<Longrightarrow> quiet a c"
  by (simp add: quiet_def)

lemma only_ext_quiet: "only_ext c c' \<Longrightarrow> quiet c c'"
  by (simp add: only_ext_def quiet_def)

text \<open>All writes of a transaction get the same version: the first use of the next version caches
  the current one, which the writes then leave alone.\<close>

text \<open>Statements that record changes of a row under the key \<open>pk\<close> in the clock table of a table.\<close>

definition stmts_for :: "table_info \<Rightarrow> sqlval list \<Rightarrow> row \<Rightarrow> row \<Rightarrow> trig_stmt list \<Rightarrow> bool" where
  "stmts_for info pk old new ss \<longleftrightarrow> list_all (\<lambda>s. ts_clock s = clock_name (ti_tblName info) \<and>
     ts_keys s = map ci_name (ti_pks info) \<and> stmt_key s old new = pk) ss"

definition stmt_bumps :: "row \<Rightarrow> row \<Rightarrow> trig_stmt list \<Rightarrow> (string \<times> bool) list" where
  "stmt_bumps old new ss = map (\<lambda>s. (ts_col s, stmt_changed s old new)) ss"

lemma stmts_simps [simp]:
  "stmts_for info (pk_vals info new) new new (insert_stmts info)"
  "stmts_for info (pk_vals info new) old new (update_stmts info)"
  "stmts_for info (pk_vals info old) old old (delete_stmts info)"
  "stmt_bumps new new (insert_stmts info) = map (\<lambda>k. (ci_name k, True)) (ti_nonPks info)"
  "stmt_bumps old new (update_stmts info) =
     map (\<lambda>k. (ci_name k, sql_neq (new (ci_name k)) (old (ci_name k)))) (ti_nonPks info)"
  "stmt_bumps old old (delete_stmts info) = [(DELETE_CID_SENTINEL, True)]"
  by (simp_all add: stmts_for_def stmt_bumps_def insert_stmts_def update_stmts_def delete_stmts_def stmt_key_def
      stmt_changed_def pk_vals_def list_all_iff)

lemma trigger_body_effect:
  assumes "ready c" and "syncBit c = 0" and "db_clock (db c) (clock_name (ti_tblName info)) = Some t"
    and "ct_pks t = map ci_name (ti_pks info)" and "0 \<le> current_version c"
    and "int64 (current_version c + 1)" and "stmts_for info pk old new ss"
  shows "\<exists>c'. trigger_body ss old new c = Some (SQLITE_OK, c') \<and>
    db c' = upd_clock (clock_name (ti_tblName info)) (bump_all pk (current_version c + 1) (stmt_bumps old new ss)) (db c) \<and>
    ready c' \<and> syncBit c' = syncBit c \<and> current_version c' = current_version c \<and> quiet c c'"
  using assms
proof (induction ss arbitrary: c t)
  case Nil
  have "bump_all pk (current_version c + 1) [] = (\<lambda>x. x)" by (simp add: bump_all_def fun_eq_iff)
  with Nil show ?case by (simp add: upd_clock_id stmt_bumps_def)
next
  case (Cons s ss)
  have s: "ts_clock s = clock_name (ti_tblName info)" "ts_keys s = map ci_name (ti_pks info)" "stmt_key s old new = pk"
    "stmts_for info pk old new ss"
    using Cons.prems(7) by (simp_all add: stmts_for_def)
  let ?bs = "stmt_bumps old new ss"
  show ?case
  proof (cases "stmt_changed s old new")
    case False
    then have "trigger_stmt s old new c = Some (SQLITE_OK, c)"
      using Cons.prems s by (simp add: trigger_stmt_def)
    moreover have "bump_all pk v (stmt_bumps old new (s # ss)) = bump_all pk v ?bs" for v
      using False by (simp add: bump_all_def stmt_bumps_def fun_eq_iff)
    ultimately show ?thesis using Cons.IH [OF Cons.prems(1-6) s(4)] by simp
  next
    case True
    obtain c1 where c1: "nextDbVersionFunc c = Some (Inr (current_version c + 1), c1)"
      "dbVersion (ext c1) = current_version c" "only_ext c c1" "ready c1"
      "pragmaDataVersion (ext c1) = db_data_version (db c)"
      using nextDbVersion_ok [OF Cons.prems(1,6)] by blast
    define c2 where "c2 = upd_db (upd_clock (clock_name (ti_tblName info))
      (clock_bump pk (ts_col s) (current_version c + 1))) c1"
    have step: "trigger_stmt s old new c = Some (SQLITE_OK, c2)"
      using Cons.prems s True c1 by (simp add: trigger_stmt_def c2_def)
    have "ready c2" using c1 by (simp add: c2_def)
    moreover have "syncBit c2 = 0" using c1(3) Cons.prems(2) by (simp add: c2_def only_ext_def)
    moreover have db2: "db c2 = upd_clock (clock_name (ti_tblName info))
        (clock_bump pk (ts_col s) (current_version c + 1)) (db c)"
      using c1(3) by (simp add: c2_def only_ext_def)
    moreover have "current_version c2 = current_version c"
      using c1 Cons.prems(5) db2
      by (auto simp: current_version_def version_cached_def c2_def only_ext_def)
    ultimately obtain c' where c': "trigger_body ss old new c2 = Some (SQLITE_OK, c')"
      "db c' = upd_clock (clock_name (ti_tblName info)) (bump_all pk (current_version c + 1) ?bs) (db c2)"
      "ready c'" "syncBit c' = syncBit c2" "current_version c' = current_version c" "quiet c2 c'"
      using Cons.IH [of c2] Cons.prems s(4) by (auto simp: split: if_splits)
    have "bump_all pk v (stmt_bumps old new (s # ss)) = bump_all pk v ?bs \<circ> clock_bump pk (ts_col s) v" for v
      using True by (simp add: bump_all_def stmt_bumps_def fun_eq_iff)
    moreover have "quiet c c'"
      using only_ext_quiet [OF c1(3)] c'(6) quiet_trans [of c c1 c'] by (simp add: c2_def)
    ultimately show ?thesis using c' step db2 \<open>syncBit c2 = 0\<close> Cons.prems(2)
      by (auto simp: upd_clock_comp comp_def)
  qed
qed

lemma trigger_body_sync:
  assumes "syncBit c \<noteq> 0" and "db_clock (db c) (clock_name (ti_tblName info)) = Some t"
    and "ct_pks t = map ci_name (ti_pks info)" and "stmts_for info pk old new ss"
  shows "trigger_body ss old new c = Some (SQLITE_OK, c)"
  using assms(4)
proof (induction ss)
  case (Cons s ss)
  then show ?case using assms(1-3) by (simp add: trigger_stmt_def stmts_for_def)
qed simp

lemma lookup_bump_all:
  assumes "not_null pk" and "distinct (map fst ss)"
  shows "clock_lookup (bump_all pk v ss rows) pk' col' =
    (if sql_eqs pk' pk \<and> (col', True) \<in> set ss
     then (case clock_lookup rows pk col' of
        None \<Rightarrow> Some \<lparr>ck_pk = pk, ck_col = col', ck_vrsn = 1, ck_dbv = v, ck_site = None\<rparr>
      | Some r \<Rightarrow> Some (r\<lparr>ck_vrsn := ck_vrsn r + 1, ck_dbv := v, ck_site := None\<rparr>))
     else clock_lookup rows pk' col')"
  using assms(2)
proof (induction ss arbitrary: rows)
  case Nil
  show ?case by (simp add: bump_all_def)
next
  case (Cons s ss)
  obtain col changed where s: "s = (col, changed)" by (cases s)
  define rows1 where "rows1 = (if changed then clock_bump pk col v rows else rows)"
  have all: "bump_all pk v (s # ss) rows = bump_all pk v ss rows1"
    by (simp add: bump_all_def s rows1_def)
  have notin: "(col, True) \<notin> set ss" using Cons.prems s by (auto simp: image_iff)
  have "distinct (map fst ss)" using Cons.prems by simp
  from Cons.IH [OF this, of rows1] show ?case
    using notin assms(1) unfolding all
    by (auto simp: rows1_def s lookup_bump split: option.split)
qed

section \<open>Local writes of a replicated table\<close>

text \<open>A statement of the user: it fails as a whole or runs with its triggers.\<close>

definition run_stmt :: "(conn \<Rightarrow> (int \<times> conn) option) \<Rightarrow> conn \<Rightarrow> (int \<times> conn) option" where
  "run_stmt f c = (let (e, c) = sql_call c in if e \<noteq> 0 then Some (e, c) else atomic f c)"

definition local_insert :: "string \<Rightarrow> row \<Rightarrow> conn \<Rightarrow> (int \<times> conn) option" where
  "local_insert tbl r = run_stmt (\<lambda>c.
     case db_user (db c) tbl of
       None \<Rightarrow> Some (SQLITE_ERROR, c)
     | Some t \<Rightarrow>
         if \<not> nulls_ok t r \<or> list_ex (same_row t r) (ut_rows t) then Some (SQLITE_CONSTRAINT, c)
         else insert_row tbl r c)"

text \<open>An update of the row stored under the key of \<open>k\<close>, whose new key no other row may have.\<close>

definition clash :: "user_table \<Rightarrow> row \<Rightarrow> row \<Rightarrow> bool" where
  "clash t old new \<longleftrightarrow> list_ex (\<lambda>r. \<not> same_row t old r \<and> same_row t new r) (ut_rows t)"

definition local_update :: "string \<Rightarrow> row \<Rightarrow> (row \<Rightarrow> row) \<Rightarrow> conn \<Rightarrow> (int \<times> conn) option" where
  "local_update tbl k f = run_stmt (\<lambda>c.
     case db_user (db c) tbl of
       None \<Rightarrow> Some (SQLITE_ERROR, c)
     | Some t \<Rightarrow>
         (case find (same_row t k) (ut_rows t) of
            None \<Rightarrow> Some (SQLITE_OK, c)
          | Some old \<Rightarrow>
              if \<not> nulls_ok t (f old) \<or> clash t old (f old) then Some (SQLITE_CONSTRAINT, c)
              else update_row tbl k f c))"

definition local_delete :: "string \<Rightarrow> (row \<Rightarrow> bool) \<Rightarrow> conn \<Rightarrow> (int \<times> conn) option" where
  "local_delete tbl P = run_stmt (\<lambda>c.
     case db_user (db c) tbl of
       None \<Rightarrow> Some (SQLITE_ERROR, c)
     | Some t \<Rightarrow> delete_rows tbl P [] (ut_rows t) c)"

text \<open>A replicated table: its clock table has the key columns of the description and the triggers
  are installed.\<close>

definition clock_rows :: "database \<Rightarrow> string \<Rightarrow> clock_row list" where
  "clock_rows d tbl = (case db_clock d (clock_name tbl) of None \<Rightarrow> [] | Some t \<Rightarrow> ct_rows t)"

definition crr :: "table_info \<Rightarrow> database \<Rightarrow> bool" where
  "crr info d \<longleftrightarrow>
     (case db_clock d (clock_name (ti_tblName info)) of None \<Rightarrow> False
      | Some ct \<Rightarrow> ct_pks ct = map ci_name (ti_pks info)) \<and>
     (ti_nonPks info \<noteq> [] \<longrightarrow>
        map_of (db_trigs d) (itrig (ti_tblName info)) = Some (insert_stmts info) \<and>
        map_of (db_trigs d) (utrig (ti_tblName info)) = Some (update_stmts info)) \<and>
     map_of (db_trigs d) (dtrig (ti_tblName info)) = Some (delete_stmts info) \<and>
     distinct (map ci_name (ti_nonPks info))"

text \<open>The clock of a row and column after a local write at version \<open>v\<close>.\<close>

definition bumped :: "sqlval list \<Rightarrow> string \<Rightarrow> int \<Rightarrow> clock_row option \<Rightarrow> clock_row option" where
  "bumped pk col v old =
     (case old of
        None \<Rightarrow> Some \<lparr>ck_pk = pk, ck_col = col, ck_vrsn = 1, ck_dbv = v, ck_site = None\<rparr>
      | Some r \<Rightarrow> Some (r\<lparr>ck_vrsn := ck_vrsn r + 1, ck_dbv := v, ck_site := None\<rparr>))"

lemma upd_rows_simps [simp]:
  "db_master (upd_rows n f d) = db_master d" "db_schema_version (upd_rows n f d) = db_schema_version d"
  "db_data_version (upd_rows n f d) = db_data_version d" "db_clock (upd_rows n f d) = db_clock d"
  "db_trigs (upd_rows n f d) = db_trigs d" "db_peers (upd_rows n f d) = db_peers d"
  by (simp_all add: upd_rows_def)

lemma user_upd_rows [simp]:
  "db_user (upd_rows n f d) m = (if m = n then map_option (\<lambda>t. t\<lparr>ut_rows := f (ut_rows t)\<rparr>) (db_user d n)
     else db_user d m)"
  by (simp add: upd_rows_def)

lemma ready_upd_rows [simp]: "ready (upd_db (upd_rows n f) c) = ready c"
  by (auto simp: ready_def stmts_live_def version_stmt_ok_def clocks_ok_def names_short_def
      clock_tables_select_def split: option.splits)

lemma current_version_upd_rows [simp]: "current_version (upd_db (upd_rows n f) c) = current_version c"
  by (simp add: current_version_def version_cached_def storage_version_def all_versions_def
      clock_tables_select_def)

lemma crr_upd_rows [simp]: "crr info (upd_rows n f d) = crr info d"
  by (simp add: crr_def)

lemma crr_upd_clock [simp]: "crr info (upd_clock n f d) = crr info d"
  by (auto simp: crr_def split: option.splits)

definition writable :: "table_info \<Rightarrow> conn \<Rightarrow> bool" where
  "writable info c \<longleftrightarrow> ready c \<and> syncBit c = 0 \<and> crr info (db c) \<and> 0 \<le> current_version c \<and>
     int64 (current_version c + 1)"

lemma writable_upd_rows [simp]: "writable info (upd_db (upd_rows n f) c) = writable info c"
  by (simp add: writable_def)

lemma fire_effect:
  assumes "writable info c" and "map_of (db_trigs (db c)) name = Some ss" and "stmts_for info pk old new ss"
  shows "\<exists>c'. fire name old new c = Some (SQLITE_OK, c') \<and>
    db c' = upd_clock (clock_name (ti_tblName info))
      (bump_all pk (current_version c + 1) (stmt_bumps old new ss)) (db c) \<and>
    writable info c' \<and> current_version c' = current_version c \<and> quiet c c'"
proof -
  obtain t where "db_clock (db c) (clock_name (ti_tblName info)) = Some t"
    "ct_pks t = map ci_name (ti_pks info)"
    using assms(1) by (auto simp: writable_def crr_def split: option.splits)
  with trigger_body_effect [of c info t pk old new ss] assms show ?thesis
    by (auto simp: writable_def fire_def)
qed

lemma clock_rows_upd_clock:
  "db_clock d (clock_name tbl) \<noteq> None \<Longrightarrow>
     clock_rows (upd_clock (clock_name tbl) f d) tbl = f (clock_rows d tbl)"
  by (auto simp: clock_rows_def)

lemma crr_clock: "crr info d \<Longrightarrow> db_clock d (clock_name (ti_tblName info)) \<noteq> None"
  by (auto simp: crr_def split: option.splits)

lemma clock_rows_upd_rows [simp]: "clock_rows (upd_rows n f d) tbl = clock_rows d tbl"
  by (simp add: clock_rows_def)

lemma run_stmt_ok: "faults c = [] \<Longrightarrow> f c = Some (SQLITE_OK, c') \<Longrightarrow> run_stmt f c = Some (SQLITE_OK, c')"
  by (simp add: run_stmt_def atomic_def)

lemma after_insert_effect:
  assumes "writable info c"
  shows "\<exists>c'. after_insert (ti_tblName info) r c = Some (SQLITE_OK, c') \<and>
    db c' = upd_clock (clock_name (ti_tblName info)) (bump_all (pk_vals info r) (current_version c + 1)
      (map (\<lambda>k. (ci_name k, True)) (ti_nonPks info))) (db c) \<and>
    writable info c' \<and> current_version c' = current_version c \<and> quiet c c' \<or>
    ti_nonPks info = [] \<and> map_of (db_trigs (db c)) (itrig (ti_tblName info)) \<noteq> Some (insert_stmts info)"
proof (cases "map_of (db_trigs (db c)) (itrig (ti_tblName info)) = Some (insert_stmts info)")
  case True
  from fire_effect [OF assms this stmts_simps(1)] show ?thesis by (simp add: after_insert_def)
next
  case False
  with assms show ?thesis by (auto simp: writable_def crr_def)
qed

lemma insert_effect:
  assumes "writable info c" and "ti_nonPks info \<noteq> []"
    and "db_user (db c) (ti_tblName info) = Some t" and "nulls_ok t r"
    and "\<not> list_ex (same_row t r) (ut_rows t)"
  shows "\<exists>c'. local_insert (ti_tblName info) r c = Some (SQLITE_OK, c') \<and>
    db c' = upd_clock (clock_name (ti_tblName info)) (bump_all (pk_vals info r) (current_version c + 1)
      (map (\<lambda>k. (ci_name k, True)) (ti_nonPks info))) (upd_rows (ti_tblName info) (\<lambda>rs. rs @ [r]) (db c)) \<and>
    writable info c' \<and> current_version c' = current_version c \<and> quiet c c'"
proof -
  let ?tbl = "ti_tblName info" and ?ss = "map (\<lambda>k. (ci_name k, True)) (ti_nonPks info)"
  define c1 where "c1 = upd_db (upd_rows ?tbl (\<lambda>rs. rs @ [r])) c"
  have w: "writable info c1" using assms(1) by (simp add: c1_def)
  obtain c' where c': "after_insert ?tbl r c1 = Some (SQLITE_OK, c')"
    "db c' = upd_clock (clock_name ?tbl) (bump_all (pk_vals info r) (current_version c + 1) ?ss) (db c1)"
    "writable info c'" "current_version c' = current_version c" "quiet c c'"
    using after_insert_effect [OF w, of r] assms(2) by (auto simp: c1_def)
  have "faults c = []" using assms(1) by (simp add: writable_def ready_faults)
  then have "local_insert ?tbl r c = Some (SQLITE_OK, c')"
    using assms c'(1) unfolding local_insert_def
    by (intro run_stmt_ok) (simp_all add: insert_row_def c1_def)
  with c' show ?thesis by (simp add: c1_def)
qed

lemma insert_is_recorded_aux:
  assumes "writable info c" and "ti_nonPks info \<noteq> []" and "not_null (pk_vals info r)"
    and "db_user (db c) (ti_tblName info) = Some t" and "nulls_ok t r"
    and "\<not> list_ex (same_row t r) (ut_rows t)"
  shows "\<exists>c'. local_insert (ti_tblName info) r c = Some (SQLITE_OK, c') \<and>
    db_user (db c') (ti_tblName info) = Some (t\<lparr>ut_rows := ut_rows t @ [r]\<rparr>) \<and>
    clock_lookup (clock_rows (db c') (ti_tblName info)) pk col =
      (if sql_eqs pk (pk_vals info r) \<and> col \<in> ci_name ` set (ti_nonPks info)
       then bumped (pk_vals info r) col (current_version c + 1)
         (clock_lookup (clock_rows (db c) (ti_tblName info)) (pk_vals info r) col)
       else clock_lookup (clock_rows (db c) (ti_tblName info)) pk col) \<and>
    writable info c' \<and> current_version c' = current_version c"
proof -
  let ?tbl = "ti_tblName info" and ?ss = "map (\<lambda>k. (ci_name k, True)) (ti_nonPks info)"
  obtain c' where c': "local_insert ?tbl r c = Some (SQLITE_OK, c')"
    "db c' = upd_clock (clock_name ?tbl) (bump_all (pk_vals info r) (current_version c + 1) ?ss)
      (upd_rows ?tbl (\<lambda>rs. rs @ [r]) (db c))" "writable info c'" "current_version c' = current_version c"
    using insert_effect [OF assms(1,2,4-6)] by auto
  have crr: "crr info (db c)" using assms(1) by (simp add: writable_def)
  have rows: "clock_rows (db c') ?tbl =
      bump_all (pk_vals info r) (current_version c + 1) ?ss (clock_rows (db c) ?tbl)"
    using c'(2) crr_clock [OF crr] by (simp add: clock_rows_upd_clock)
  have "distinct (map fst ?ss)" using crr by (simp add: crr_def comp_def)
  from lookup_bump_all [OF assms(3) this] show ?thesis
    using rows c' assms(4) by (auto simp: bumped_def image_iff)
qed

text \<open>C10. Inserting a row into a replicated table records every column that is not part of the key:
  its clock starts at version 1, or goes up by one if the row existed before, with the next
  database version and no site; the clocks of all other rows and columns stay as they were.\<close>

theorem insert_is_recorded:
  assumes "writable info c" and "ti_nonPks info \<noteq> []" and "not_null (pk_vals info r)"
    and "db_user (db c) (ti_tblName info) = Some t" and "nulls_ok t r"
    and "\<not> list_ex (same_row t r) (ut_rows t)"
  shows "\<exists>c'. local_insert (ti_tblName info) r c = Some (SQLITE_OK, c') \<and>
    db_user (db c') (ti_tblName info) = Some (t\<lparr>ut_rows := ut_rows t @ [r]\<rparr>) \<and>
    clock_lookup (clock_rows (db c') (ti_tblName info)) pk col =
      (if sql_eqs pk (pk_vals info r) \<and> col \<in> ci_name ` set (ti_nonPks info)
       then bumped (pk_vals info r) col (current_version c + 1)
         (clock_lookup (clock_rows (db c) (ti_tblName info)) (pk_vals info r) col)
       else clock_lookup (clock_rows (db c) (ti_tblName info)) pk col) \<and>
    writable info c' \<and> current_version c' = current_version c"
  using insert_is_recorded_aux [OF assms] .

definition foo_info :: table_info where
  "foo_info = test_foo"

definition crr_conn :: conn where
  "crr_conn = test_conn\<lparr>db := test_db\<lparr>db_trigs := [(itrig ''foo'', insert_stmts foo_info),
     (utrig ''foo'', update_stmts foo_info), (dtrig ''foo'', delete_stmts foo_info)]\<rparr>\<rparr>"

lemma writable_crr_conn: "writable foo_info crr_conn"
proof -
  have "storage_version (db crr_conn) = 7" by code_simp
  then have "current_version crr_conn = 7"
    by (simp add: current_version_def version_cached_def crr_conn_def test_conn_def fresh_ext_def)
  moreover have "clock_tables_select (db crr_conn) = [''foo__crsql_clock'']" by code_simp
  then have "ready crr_conn"
    by (simp add: ready_def stmts_live_def version_stmt_ok_def clocks_ok_def names_short_def)
       (simp add: crr_conn_def test_conn_def fresh_ext_def test_db_def)
  moreover have "crr foo_info (db crr_conn)" by code_simp
  ultimately show ?thesis
    by (simp add: writable_def int64_def) (simp add: crr_conn_def test_conn_def)
qed

lemma current_version_crr_conn: "current_version crr_conn = 7"
proof -
  have "storage_version (db crr_conn) = 7" by code_simp
  then show ?thesis
    by (simp add: current_version_def version_cached_def crr_conn_def test_conn_def fresh_ext_def)
qed

definition row_of :: "sqlval \<Rightarrow> sqlval \<Rightarrow> row" where
  "row_of a b = (\<lambda>n. if n = ''a'' then a else if n = ''b'' then b else VNull)"

theorem insert_is_recorded_witness:
  "\<exists>c' k. local_insert ''foo'' (row_of (VInt 1) (VText ''x'')) crr_conn = Some (SQLITE_OK, c') \<and>
     clock_lookup (clock_rows (db c') ''foo'') [VInt 1] ''b'' = Some k \<and> ck_vrsn k = 2 \<and> ck_dbv k = 8"
proof -
  let ?r = "row_of (VInt 1) (VText ''x'')"
  have t: "db_user (db crr_conn) (ti_tblName foo_info) = Some test_user"
    by (simp add: crr_conn_def test_db_def foo_info_def test_foo_def)
  have pk: "pk_vals foo_info ?r = [VInt 1]"
    by (simp add: pk_vals_def foo_info_def test_foo_def mk_col_def row_of_def)
  have old: "clock_lookup (clock_rows (db crr_conn) ''foo'') [VInt 1] ''b'' =
      Some \<lparr>ck_pk = [VInt 1], ck_col = ''b'', ck_vrsn = 1, ck_dbv = 3, ck_site = None\<rparr>"
    by code_simp
  have ok: "nulls_ok test_user ?r" "\<not> list_ex (same_row test_user ?r) (ut_rows test_user)"
    "ti_nonPks foo_info \<noteq> []" "ti_tblName foo_info = ''foo''" "ci_name ` set (ti_nonPks foo_info) = {''b''}"
    by (simp_all add: nulls_ok_def test_user_def mk_col_def foo_info_def test_foo_def)
  have "sql_eqs [VInt 1] [VInt 1]" by (rule sql_eqs_refl) (simp add: not_null_def)
  moreover have "not_null (pk_vals foo_info ?r)" by (simp add: pk not_null_def)
  ultimately show ?thesis
    using insert_is_recorded [where info = foo_info and r = ?r, OF writable_crr_conn ok(3) _ t ok(1,2),
        of "[VInt 1]" "''b''"]
    by (auto simp: pk ok old bumped_def current_version_crr_conn)
qed

lemma bump_all_none: "list_all (\<lambda>s. \<not> snd s) ss \<Longrightarrow> bump_all pk v ss = (\<lambda>rows. rows)"
  by (induction ss) (auto simp: bump_all_def fun_eq_iff)

lemma find_same_row:
  assumes "find (same_row t k) rs = Some old"
  shows "same_row t old = same_row t k"
proof -
  have "same_row t k old" using assms by (auto simp: find_Some_iff)
  then show ?thesis
    unfolding same_row_def fun_eq_iff using sql_eqs_sym sql_eqs_trans by blast
qed

lemma update_effect:
  assumes "writable info c" and "ti_nonPks info \<noteq> []"
    and "db_user (db c) (ti_tblName info) = Some t" and "find (same_row t k) (ut_rows t) = Some old"
    and "nulls_ok t (f old)" and "\<not> clash t old (f old)"
  shows "\<exists>c'. local_update (ti_tblName info) k f c = Some (SQLITE_OK, c') \<and>
    db c' = upd_clock (clock_name (ti_tblName info)) (bump_all (pk_vals info (f old)) (current_version c + 1)
      (map (\<lambda>k. (ci_name k, sql_neq (f old (ci_name k)) (old (ci_name k)))) (ti_nonPks info)))
      (upd_rows (ti_tblName info) (map (\<lambda>r. if same_row t k r then f r else r)) (db c)) \<and>
    writable info c' \<and> current_version c' = current_version c \<and> quiet c c'"
proof -
  let ?tbl = "ti_tblName info"
  let ?ss = "map (\<lambda>k. (ci_name k, sql_neq (f old (ci_name k)) (old (ci_name k)))) (ti_nonPks info)"
  define c1 where "c1 = upd_db (upd_rows ?tbl (map (\<lambda>r. if same_row t k r then f r else r))) c"
  have w: "writable info c1" using assms(1) by (simp add: c1_def)
  have "crr info (db c)" using assms(1) by (simp add: writable_def)
  then have "map_of (db_trigs (db c1)) (utrig ?tbl) = Some (update_stmts info)"
    using assms(2) by (simp add: crr_def c1_def)
  from fire_effect [OF w this stmts_simps(2)] obtain c' where
    c': "after_update ?tbl old (f old) c1 = Some (SQLITE_OK, c')"
    "db c' = upd_clock (clock_name ?tbl) (bump_all (pk_vals info (f old)) (current_version c + 1) ?ss) (db c1)"
    "writable info c'" "current_version c' = current_version c" "quiet c c'"
    by (auto simp: c1_def after_update_def)
  have "faults c = []" using assms(1) by (simp add: writable_def ready_faults)
  then have "local_update ?tbl k f c = Some (SQLITE_OK, c')"
    using assms c'(1) unfolding local_update_def
    by (intro run_stmt_ok) (simp_all add: update_row_def c1_def)
  with c' show ?thesis by (simp add: c1_def)
qed

text \<open>An update that finds no row does nothing.\<close>

lemma update_nothing:
  assumes "faults c = []" and "db_user (db c) tbl = Some t" and "find (same_row t k) (ut_rows t) = None"
  shows "local_update tbl k f c = Some (SQLITE_OK, c)"
  using assms unfolding local_update_def by (intro run_stmt_ok) simp_all

lemma update_is_recorded_aux:
  assumes "writable info c" and "ti_nonPks info \<noteq> []" and "not_null (pk_vals info (f old))"
    and "db_user (db c) (ti_tblName info) = Some t" and "find (same_row t k) (ut_rows t) = Some old"
    and "nulls_ok t (f old)" and "\<not> clash t old (f old)"
  shows "\<exists>c'. local_update (ti_tblName info) k f c = Some (SQLITE_OK, c') \<and>
    db_user (db c') (ti_tblName info) =
      Some (t\<lparr>ut_rows := map (\<lambda>r. if same_row t k r then f r else r) (ut_rows t)\<rparr>) \<and>
    clock_lookup (clock_rows (db c') (ti_tblName info)) pk col =
      (if sql_eqs pk (pk_vals info (f old)) \<and> col \<in> ci_name ` set (ti_nonPks info) \<and>
          sql_neq (f old col) (old col)
       then bumped (pk_vals info (f old)) col (current_version c + 1)
         (clock_lookup (clock_rows (db c) (ti_tblName info)) (pk_vals info (f old)) col)
       else clock_lookup (clock_rows (db c) (ti_tblName info)) pk col)"
proof -
  let ?tbl = "ti_tblName info"
  let ?ss = "map (\<lambda>k. (ci_name k, sql_neq (f old (ci_name k)) (old (ci_name k)))) (ti_nonPks info)"
  obtain c' where c': "local_update ?tbl k f c = Some (SQLITE_OK, c')"
    "db c' = upd_clock (clock_name ?tbl) (bump_all (pk_vals info (f old)) (current_version c + 1) ?ss)
      (upd_rows ?tbl (map (\<lambda>r. if same_row t k r then f r else r)) (db c))"
    using update_effect [where f = f, OF assms(1,2,4-7)] by auto
  have crr: "crr info (db c)" using assms(1) by (simp add: writable_def)
  have rows: "clock_rows (db c') ?tbl =
      bump_all (pk_vals info (f old)) (current_version c + 1) ?ss (clock_rows (db c) ?tbl)"
    using c'(2) crr_clock [OF crr] by (simp add: clock_rows_upd_clock)
  have "distinct (map fst ?ss)" using crr by (simp add: crr_def comp_def)
  from lookup_bump_all [OF assms(3) this] show ?thesis
    using rows c' assms(4) by (auto simp: bumped_def image_iff)
qed

text \<open>C11. Updating a stored row changes the row and records exactly the columns whose old and new
  values are both not NULL and differ, under the key the row has then; no other clock changes.\<close>

theorem update_is_recorded:
  assumes "writable info c" and "ti_nonPks info \<noteq> []" and "not_null (pk_vals info (f old))"
    and "db_user (db c) (ti_tblName info) = Some t" and "find (same_row t k) (ut_rows t) = Some old"
    and "nulls_ok t (f old)" and "\<not> clash t old (f old)"
  shows "\<exists>c'. local_update (ti_tblName info) k f c = Some (SQLITE_OK, c') \<and>
    db_user (db c') (ti_tblName info) =
      Some (t\<lparr>ut_rows := map (\<lambda>r. if same_row t k r then f r else r) (ut_rows t)\<rparr>) \<and>
    clock_lookup (clock_rows (db c') (ti_tblName info)) pk col =
      (if sql_eqs pk (pk_vals info (f old)) \<and> col \<in> ci_name ` set (ti_nonPks info) \<and>
          sql_neq (f old col) (old col)
       then bumped (pk_vals info (f old)) col (current_version c + 1)
         (clock_lookup (clock_rows (db c) (ti_tblName info)) (pk_vals info (f old)) col)
       else clock_lookup (clock_rows (db c) (ti_tblName info)) pk col)"
  using assms by (rule update_is_recorded_aux)

definition filled_conn :: conn where
  "filled_conn = upd_db (upd_rows ''foo'' (\<lambda>_. [row_of (VInt 1) (VText ''x''), row_of (VInt 2) VNull])) crr_conn"

text \<open>The update of the first row of the filled table.\<close>

lemma filled_first:
  defines "t \<equiv> test_user\<lparr>ut_rows := [row_of (VInt 1) (VText ''x''), row_of (VInt 2) VNull]\<rparr>"
  shows "writable foo_info filled_conn" "db_user (db filled_conn) (ti_tblName foo_info) = Some t"
    "find (same_row t (row_of (VInt 1) x)) (ut_rows t) = Some (row_of (VInt 1) (VText ''x''))"
    "pk_vals foo_info (row_of a b) = [a]" "nulls_ok t (row_of (VInt n) b)"
    "\<not> clash t (row_of (VInt 1) (VText ''x'')) (row_of (VInt 1) b)" "\<not> clash t (row_of (VInt 1) (VText ''x'')) (row_of (VInt 5) b)"
    "ti_nonPks foo_info \<noteq> []" "ti_tblName foo_info = ''foo''" "ci_name ` set (ti_nonPks foo_info) = {''b''}"
    "same_row t (row_of (VInt 1) x) (row_of (VInt 1) y)" "\<not> same_row t (row_of (VInt 1) x) (row_of (VInt 2) y)"
proof -
  show "writable foo_info filled_conn" using writable_crr_conn by (simp add: filled_conn_def)
  show "db_user (db filled_conn) (ti_tblName foo_info) = Some t"
    by (simp add: filled_conn_def crr_conn_def test_db_def foo_info_def test_foo_def t_def)
  have pks: "table_pks t = [''a'']" by (simp add: table_pks_def t_def test_user_def mk_col_def)
  moreover have "sql_eq (VInt 1) (VInt 1)" "\<not> sql_eq (VInt 1) (VInt 2)" "\<not> sql_eq (VInt 5) (VInt 2)" by code_simp+
  ultimately show "find (same_row t (row_of (VInt 1) x)) (ut_rows t) = Some (row_of (VInt 1) (VText ''x''))"
    "\<not> clash t (row_of (VInt 1) (VText ''x'')) (row_of (VInt 1) b)" "\<not> clash t (row_of (VInt 1) (VText ''x'')) (row_of (VInt 5) b)"
    "same_row t (row_of (VInt 1) x) (row_of (VInt 1) y)" "\<not> same_row t (row_of (VInt 1) x) (row_of (VInt 2) y)"
    by (simp_all add: same_row_def sql_eqs_def t_def clash_def row_of_def)
  show "pk_vals foo_info (row_of a b) = [a]"
    by (simp add: pk_vals_def foo_info_def test_foo_def mk_col_def row_of_def)
  show "nulls_ok t (row_of (VInt n) b)" "ti_nonPks foo_info \<noteq> []" "ti_tblName foo_info = ''foo''"
    "ci_name ` set (ti_nonPks foo_info) = {''b''}"
    by (simp_all add: nulls_ok_def t_def test_user_def mk_col_def foo_info_def test_foo_def row_of_def)
qed

theorem update_is_recorded_witness:
  "\<exists>c' k. local_update ''foo'' (row_of (VInt 1) VNull) (\<lambda>r. row_of (VInt 1) (VInt 5)) filled_conn =
       Some (SQLITE_OK, c') \<and> map (\<lambda>r. r ''b'') (ut_rows (the (db_user (db c') ''foo''))) = [VInt 5, VNull] \<and>
     clock_lookup (clock_rows (db c') ''foo'') [VInt 1] ''b'' = Some k \<and> ck_vrsn k = 2"
proof -
  let ?f = "\<lambda>r. row_of (VInt 1) (VInt 5)" and ?old = "row_of (VInt 1) (VText ''x'')"
  have old: "clock_lookup (clock_rows (db filled_conn) ''foo'') [VInt 1] ''b'' =
      Some \<lparr>ck_pk = [VInt 1], ck_col = ''b'', ck_vrsn = 1, ck_dbv = 3, ck_site = None\<rparr>"
    by code_simp
  have cells: "row_of a b ''b'' = b" for a b by (simp add: row_of_def)
  have neq: "sql_neq (VInt 5) (VText ''x'')" by (simp add: sql_neq_def sql_eq_def)
  have "sql_eqs [VInt 1] [VInt 1]" by (rule sql_eqs_refl) (simp add: not_null_def)
  moreover have "not_null (pk_vals foo_info (?f ?old))" by (simp add: filled_first(4) not_null_def)
  moreover have "\<not> clash (test_user\<lparr>ut_rows := [?old, row_of (VInt 2) VNull]\<rparr>) ?old (?f ?old)"
    by (rule filled_first(6))
  ultimately show ?thesis
    using update_is_recorded [where f = ?f and pk = "[VInt 1]" and col = "''b''", OF filled_first(1,8) _
        filled_first(2) filled_first(3) [of VNull] filled_first(5)]
      neq by (auto simp: filled_first(4,9-12) cells old bumped_def)
qed

text \<open>C37. An update that changes columns of a stored row only from or to NULL, or only the columns of the
  key, changes the row but no clock: the trigger compares with \<^verbatim>\<open>!=\<close>, which is not true when one side
  is NULL, and does not look at the key.\<close>

theorem unrecorded_updates:
  assumes "writable info c" and "ti_nonPks info \<noteq> []"
    and "db_user (db c) (ti_tblName info) = Some t" and "find (same_row t k) (ut_rows t) = Some old"
    and "nulls_ok t (f old)" and "\<not> clash t old (f old)"
    and "\<And>j. j \<in> set (ti_nonPks info) \<Longrightarrow>
      old (ci_name j) = VNull \<or> f old (ci_name j) = VNull \<or> sql_eq (f old (ci_name j)) (old (ci_name j))"
  shows "\<exists>c'. local_update (ti_tblName info) k f c = Some (SQLITE_OK, c') \<and>
    db c' = upd_rows (ti_tblName info) (map (\<lambda>r. if same_row t k r then f r else r)) (db c) \<and>
    f old \<in> set (ut_rows (the (db_user (db c') (ti_tblName info))))"
proof -
  let ?tbl = "ti_tblName info"
  let ?ss = "map (\<lambda>k. (ci_name k, sql_neq (f old (ci_name k)) (old (ci_name k)))) (ti_nonPks info)"
  have "list_all (\<lambda>s. \<not> snd s) ?ss" using assms(7) by (auto simp: list_all_iff sql_neq_def)
  then have none: "bump_all pk v ?ss = (\<lambda>rows. rows)" for pk v by (rule bump_all_none)
  obtain c' where "local_update ?tbl k f c = Some (SQLITE_OK, c')"
    "db c' = upd_clock (clock_name ?tbl) (bump_all (pk_vals info (f old)) (current_version c + 1) ?ss)
      (upd_rows ?tbl (map (\<lambda>r. if same_row t k r then f r else r)) (db c))"
    using update_effect [where f = f, OF assms(1-6)] by auto
  moreover have "old \<in> set (ut_rows t)" "same_row t k old" using assms(4) by (auto simp: find_Some_iff)
  ultimately show ?thesis using assms(3) by (force simp: none upd_clock_id)
qed

text \<open>The key goes from 1 to 5 and the other column from \<^verbatim>\<open>'x'\<close> to NULL.\<close>

theorem unrecorded_updates_witness:
  "\<exists>c'. local_update ''foo'' (row_of (VInt 1) VNull) (\<lambda>r. row_of (VInt 5) VNull) filled_conn =
       Some (SQLITE_OK, c') \<and> db_clock (db c') = db_clock (db filled_conn) \<and>
     row_of (VInt 5) VNull \<in> set (ut_rows (the (db_user (db c') ''foo'')))"
proof -
  let ?f = "\<lambda>r. row_of (VInt 5) VNull" and ?old = "row_of (VInt 1) (VText ''x'')"
  have "\<not> clash (test_user\<lparr>ut_rows := [?old, row_of (VInt 2) VNull]\<rparr>) ?old (?f ?old)"
    by (rule filled_first(7))
  moreover have "?f ?old (ci_name j) = VNull" if "j \<in> set (ti_nonPks foo_info)" for j
  proof -
    have "ci_name j \<in> {''b''}" using that filled_first(10) by blast
    then show ?thesis by (simp add: row_of_def)
  qed
  ultimately show ?thesis
    using unrecorded_updates [where f = ?f, OF filled_first(1,8,2) filled_first(3) [of VNull] filled_first(5)]
    by (auto simp: filled_first(9) upd_rows_def)
qed

text \<open>What a clock says, without the key it is stored under.\<close>

definition clock_state :: "clock_row option \<Rightarrow> (int \<times> int \<times> blob option) option" where
  "clock_state k = map_option (\<lambda>k. (ck_vrsn k, ck_dbv k, ck_site k)) k"

definition old_vrsn :: "clock_row option \<Rightarrow> int" where
  "old_vrsn k = (case k of None \<Rightarrow> 0 | Some k \<Rightarrow> ck_vrsn k)"

lemma clock_state_bumped: "clock_state (bumped pk col v k) = Some (old_vrsn k + 1, v, None)"
  by (auto simp: clock_state_def bumped_def old_vrsn_def split: option.split)

lemma clock_lookup_cong: "sql_eqs pk pk' \<Longrightarrow> clock_lookup rows pk col = clock_lookup rows pk' col"
proof -
  assume eq: "sql_eqs pk pk'"
  have "same_clock pk col = same_clock pk' col"
  proof
    fix r
    show "same_clock pk col r = same_clock pk' col r"
      using eq sql_eqs_sym sql_eqs_trans unfolding same_clock_def by blast
  qed
  then show ?thesis by (simp add: clock_lookup_def)
qed

lemma after_delete_effect:
  assumes "writable info c"
  shows "\<exists>c'. after_delete (ti_tblName info) r c = Some (SQLITE_OK, c') \<and>
    db c' = upd_clock (clock_name (ti_tblName info))
      (clock_bump (pk_vals info r) DELETE_CID_SENTINEL (current_version c + 1)) (db c) \<and>
    writable info c' \<and> current_version c' = current_version c \<and> quiet c c'"
proof -
  have "map_of (db_trigs (db c)) (dtrig (ti_tblName info)) = Some (delete_stmts info)"
    using assms by (simp add: writable_def crr_def)
  moreover have "bump_all pk v [(DELETE_CID_SENTINEL, True)] = clock_bump pk DELETE_CID_SENTINEL v" for pk v
    by (simp add: bump_all_def fun_eq_iff)
  ultimately show ?thesis
    using fire_effect [OF assms _ stmts_simps(3), of "dtrig (ti_tblName info)" r]
    by (simp add: after_delete_def)
qed

definition distinct_keys :: "table_info \<Rightarrow> row list \<Rightarrow> bool" where
  "distinct_keys info rs \<longleftrightarrow> list_all (\<lambda>r. not_null (pk_vals info r)) rs \<and>
     sorted_wrt (\<lambda>r s. \<not> sql_eqs (pk_vals info r) (pk_vals info s)) rs"

lemma delete_rows_effect:
  assumes "writable info c" and "db_user (db c) (ti_tblName info) = Some t"
    and "ut_rows t = keep @ rs" and "distinct_keys info rs"
  shows "\<exists>c'. delete_rows (ti_tblName info) P keep rs c = Some (SQLITE_OK, c') \<and>
    db_user (db c') (ti_tblName info) = Some (t\<lparr>ut_rows := keep @ filter (\<lambda>r. \<not> P r) rs\<rparr>) \<and>
    (\<forall>pk col. clock_state (clock_lookup (clock_rows (db c') (ti_tblName info)) pk col) =
      (if col = DELETE_CID_SENTINEL \<and> list_ex (\<lambda>r. P r \<and> sql_eqs pk (pk_vals info r)) rs
       then Some (old_vrsn (clock_lookup (clock_rows (db c) (ti_tblName info)) pk col) + 1,
         current_version c + 1, None)
       else clock_state (clock_lookup (clock_rows (db c) (ti_tblName info)) pk col))) \<and>
    writable info c' \<and> current_version c' = current_version c"
  using assms
proof (induction rs arbitrary: keep c t)
  case Nil
  then show ?case by simp
next
  case (Cons r rs)
  let ?tbl = "ti_tblName info"
  have dk: "distinct_keys info rs" "not_null (pk_vals info r)"
    "\<not> list_ex (\<lambda>s. sql_eqs (pk_vals info r) (pk_vals info s)) rs"
    using Cons.prems(4) by (auto simp: distinct_keys_def list_ex_iff)
  show ?case
  proof (cases "P r")
    case False
    with Cons.IH [of c t "keep @ [r]"] Cons.prems dk(1) show ?thesis by simp
  next
    case True
    define c1 where "c1 = upd_db (upd_rows ?tbl (\<lambda>_. keep @ rs)) c"
    obtain c2 where c2: "after_delete ?tbl r c1 = Some (SQLITE_OK, c2)"
      "db c2 = upd_clock (clock_name ?tbl)
        (clock_bump (pk_vals info r) DELETE_CID_SENTINEL (current_version c + 1)) (db c1)"
      "writable info c2" "current_version c2 = current_version c"
      using after_delete_effect [of info c1 r] Cons.prems(1) by (auto simp: c1_def)
    have user: "db_user (db c2) ?tbl = Some (t\<lparr>ut_rows := keep @ rs\<rparr>)"
      using c2(2) Cons.prems(2) by (simp add: c1_def)
    obtain c' where c': "delete_rows ?tbl P keep rs c2 = Some (SQLITE_OK, c')"
      "db_user (db c') ?tbl = Some (t\<lparr>ut_rows := keep @ filter (\<lambda>r. \<not> P r) rs\<rparr>)"
      "\<And>pk col. clock_state (clock_lookup (clock_rows (db c') ?tbl) pk col) =
        (if col = DELETE_CID_SENTINEL \<and> list_ex (\<lambda>r. P r \<and> sql_eqs pk (pk_vals info r)) rs
         then Some (old_vrsn (clock_lookup (clock_rows (db c2) ?tbl) pk col) + 1,
           current_version c + 1, None)
         else clock_state (clock_lookup (clock_rows (db c2) ?tbl) pk col))"
      "writable info c'" "current_version c' = current_version c"
      using Cons.IH [OF c2(3) user _ dk(1)] c2(4) by auto
    have "crr info (db c)" using Cons.prems(1) by (simp add: writable_def)
    then have rows: "clock_rows (db c2) ?tbl =
        clock_bump (pk_vals info r) DELETE_CID_SENTINEL (current_version c + 1) (clock_rows (db c) ?tbl)"
      using c2(2) crr_clock by (simp add: clock_rows_upd_clock c1_def)
    have other: "\<not> list_ex (\<lambda>s. P s \<and> sql_eqs pk (pk_vals info s)) rs"
      if "sql_eqs pk (pk_vals info r)" for pk
      using dk(3) that sql_eqs_trans [OF sql_eqs_sym [OF that]] by (auto simp: list_ex_iff)
    have look: "clock_lookup (clock_rows (db c2) ?tbl) pk col =
        (if col = DELETE_CID_SENTINEL \<and> sql_eqs pk (pk_vals info r)
         then bumped (pk_vals info r) col (current_version c + 1) (clock_lookup (clock_rows (db c) ?tbl) pk col)
         else clock_lookup (clock_rows (db c) ?tbl) pk col)" for pk col
      using clock_lookup_cong [of pk "pk_vals info r" "clock_rows (db c) ?tbl" DELETE_CID_SENTINEL]
      by (auto simp: rows lookup_bump [OF dk(2)] bumped_def)
    have "clock_state (clock_lookup (clock_rows (db c') ?tbl) pk col) =
      (if col = DELETE_CID_SENTINEL \<and> list_ex (\<lambda>r. P r \<and> sql_eqs pk (pk_vals info r)) (r # rs)
       then Some (old_vrsn (clock_lookup (clock_rows (db c) ?tbl) pk col) + 1, current_version c + 1, None)
       else clock_state (clock_lookup (clock_rows (db c) ?tbl) pk col))" for pk col
      using c'(3) [of pk col] look [of pk col] other [of pk] True
      by (cases "col = DELETE_CID_SENTINEL"; cases "sql_eqs pk (pk_vals info r)")
         (auto simp: clock_state_bumped)
    moreover have "delete_rows ?tbl P keep (r # rs) c = Some (SQLITE_OK, c')"
      using True c2(1) c'(1) by (simp add: c1_def)
    ultimately show ?thesis using True c'(2,4,5) by auto
  qed
qed

text \<open>C12. Deleting rows removes exactly the rows of the condition and records a delete for each of
  them: the version of its delete sentinel goes up by one, with the next database version and
  no site. No other clock changes, those of the deleted rows' columns included.\<close>

theorem delete_is_recorded:
  assumes "writable info c" and "db_user (db c) (ti_tblName info) = Some t"
    and "distinct_keys info (ut_rows t)"
  shows "\<exists>c'. local_delete (ti_tblName info) P c = Some (SQLITE_OK, c') \<and>
    db_user (db c') (ti_tblName info) = Some (t\<lparr>ut_rows := filter (\<lambda>r. \<not> P r) (ut_rows t)\<rparr>) \<and>
    clock_state (clock_lookup (clock_rows (db c') (ti_tblName info)) pk col) =
      (if col = DELETE_CID_SENTINEL \<and> list_ex (\<lambda>r. P r \<and> sql_eqs pk (pk_vals info r)) (ut_rows t)
       then Some (old_vrsn (clock_lookup (clock_rows (db c) (ti_tblName info)) pk col) + 1,
         current_version c + 1, None)
       else clock_state (clock_lookup (clock_rows (db c) (ti_tblName info)) pk col))"
proof -
  obtain c' where c': "delete_rows (ti_tblName info) P [] (ut_rows t) c = Some (SQLITE_OK, c')"
    "db_user (db c') (ti_tblName info) = Some (t\<lparr>ut_rows := filter (\<lambda>r. \<not> P r) (ut_rows t)\<rparr>)"
    "\<And>pk col. clock_state (clock_lookup (clock_rows (db c') (ti_tblName info)) pk col) =
      (if col = DELETE_CID_SENTINEL \<and> list_ex (\<lambda>r. P r \<and> sql_eqs pk (pk_vals info r)) (ut_rows t)
       then Some (old_vrsn (clock_lookup (clock_rows (db c) (ti_tblName info)) pk col) + 1,
         current_version c + 1, None)
       else clock_state (clock_lookup (clock_rows (db c) (ti_tblName info)) pk col))"
    using delete_rows_effect [OF assms(1,2) _ assms(3), of "[]" P] by auto
  have "faults c = []" using assms(1) by (simp add: writable_def ready_faults)
  then have "local_delete (ti_tblName info) P c = Some (SQLITE_OK, c')"
    using assms(2) c'(1) unfolding local_delete_def by (intro run_stmt_ok) simp_all
  with c' show ?thesis by auto
qed

theorem delete_is_recorded_witness:
  "\<exists>c'. local_delete ''foo'' (\<lambda>r. sql_eq (r ''a'') (VInt 2)) filled_conn = Some (SQLITE_OK, c') \<and>
     clock_state (clock_lookup (clock_rows (db c') ''foo'') [VInt 2] DELETE_CID_SENTINEL) =
       Some (1, 8, None)"
proof -
  let ?rows = "[row_of (VInt 1) (VText ''x''), row_of (VInt 2) VNull]"
  have w: "writable foo_info filled_conn" using writable_crr_conn by (simp add: filled_conn_def)
  have t: "db_user (db filled_conn) (ti_tblName foo_info) = Some (test_user\<lparr>ut_rows := ?rows\<rparr>)"
    by (simp add: filled_conn_def crr_conn_def test_db_def foo_info_def test_foo_def)
  have keys: "sql_eqs [VInt 2] [VInt 2]" "\<not> sql_eqs [VInt 1] [VInt 2]" by code_simp+
  have pk: "pk_vals foo_info (row_of a b) = [a]" for a b
    by (simp add: pk_vals_def foo_info_def test_foo_def mk_col_def row_of_def)
  have "distinct_keys foo_info ?rows"
    by (simp add: distinct_keys_def pk keys not_null_def)
  moreover have "clock_lookup (clock_rows (db filled_conn) ''foo'') [VInt 2] DELETE_CID_SENTINEL = None"
    by code_simp
  moreover have "current_version filled_conn = 7"
    using current_version_crr_conn by (simp add: filled_conn_def)
  moreover have "list_ex (\<lambda>r. sql_eq (r ''a'') (VInt 2) \<and> sql_eqs [VInt 2] (pk_vals foo_info r)) ?rows"
    by (simp add: pk keys) (simp add: row_of_def sql_eq_def)
  moreover have "ti_tblName foo_info = ''foo''" by (simp add: foo_info_def test_foo_def)
  ultimately show ?thesis
    using delete_is_recorded [OF w t, of "\<lambda>r. sql_eq (r ''a'') (VInt 2)" "[VInt 2]" DELETE_CID_SENTINEL]
    by (auto simp: old_vrsn_def)
qed

text \<open>A table whose columns all belong to the key gets neither an insert nor an update trigger,
  and the query that would record its rows is empty although its text was made: rows inserted
  into such a table are never recorded and never sent.\<close>

theorem key_only_tables_unrecorded:
  assumes "ti_nonPks info = []"
  shows "crsql_createInsertTrigger info c = (SQLITE_OK, c) \<and>
    crsql_createUpdateTrigger info c = (SQLITE_OK, c) \<and> crsql_insertTriggerQuery info p q = []"
  using assms
  by (simp add: crsql_createInsertTrigger_def crsql_createUpdateTrigger_def crsql_insertTriggerQuery_def)

theorem key_only_tables_unrecorded_witness:
  "crsql_createInsertTrigger (test_foo\<lparr>ti_nonPks := []\<rparr>) test_conn = (SQLITE_OK, test_conn)"
  using key_only_tables_unrecorded [of "test_foo\<lparr>ti_nonPks := []\<rparr>"] by simp

text \<open>The delete trigger of the unit test in \<^verbatim>\<open>triggers.test.c\<close>.\<close>

lemma test_delete_trigger: "crsql_deleteTriggerQuery test_foo =
    ''CREATE TRIGGER IF NOT EXISTS '' @ dq ''foo__crsql_dtrig'' @
    ''      AFTER DELETE ON '' @ dq ''foo'' @ ''    BEGIN      INSERT INTO '' @
    dq ''foo__crsql_clock'' @ '' (        '' @ dq ''a'' @
    '',        __crsql_col_name,        __crsql_col_version,        '' @
    ''__crsql_db_version,        __crsql_site_id      ) SELECT         OLD.'' @ dq ''a'' @
    '',        '' @ sq ''__crsql_del'' @
    '',        1,        crsql_nextdbversion(),        NULL      WHERE '' @
    ''crsql_internal_sync_bit() = 0 ON CONFLICT DO UPDATE SET      '' @
    ''__crsql_col_version = __crsql_col_version + 1,      '' @
    ''__crsql_db_version = crsql_nextdbversion(),      __crsql_site_id = '' @
    ''NULL;      END; ''"
  by code_simp

lemma test_insert_trigger:
  "crsql_insertTriggerQuery (test_foo\<lparr>ti_nonPks := [mk_col 2 ''c'' 0]\<rparr>) ''a, b'' ''NEW.a, NEW.b'' =
    ''INSERT INTO '' @ dq ''foo__crsql_clock'' @
    '' (        a, b,        __crsql_col_name,        __crsql_col_version,  '' @
    ''      __crsql_db_version,        __crsql_site_id      ) SELECT        '' @
    '' NEW.a, NEW.b,        '' @ sq ''c'' @
    '',        1,        crsql_nextdbversion(),        NULL      WHERE '' @
    ''crsql_internal_sync_bit() = 0 ON CONFLICT DO UPDATE SET        '' @
    ''__crsql_col_version = __crsql_col_version + 1,        '' @
    ''__crsql_db_version = crsql_nextdbversion(),        __crsql_site_id = '' @ ''NULL;'' @
    [CHR 0x0A]"
  by code_simp

end
