(* ===== verification/Vtab_Write.thy ===== *)
theory Vtab_Write imports Triggers begin

text \<open>
  Merging a change that arrives as a row inserted into the changes table
  (\<^verbatim>\<open>core/src/changes-vtab-write.c\<close>).

  The WHERE list is kept as its pairs of column name and literal (its text is
  \<open>where_list_text\<close>), the list of key values as its literals (\<open>values_text\<close>). A statement
  whose literals are not all of the forms \<^verbatim>\<open>quote()\<close> prints goes to the parameter \<open>env\<close>.
\<close>

section \<open>Parameters and values\<close>

text \<open>What SQLite does with texts outside the modelled fragment, and the conversions it applies to
  the values such statements return.\<close>

record sql_env = env +
  conv_int :: "sqlval \<Rightarrow> int"
  conv_text :: "sqlval \<Rightarrow> string"

definition column_int64 :: "sql_env \<Rightarrow> sqlval \<Rightarrow> int" where
  "column_int64 E v = (case v of VInt i \<Rightarrow> i | VNull \<Rightarrow> 0 | _ \<Rightarrow> conv_int E v)"

definition column_text :: "sql_env \<Rightarrow> sqlval \<Rightarrow> string option" where
  "column_text E v = (case v of VText s \<Rightarrow> Some s | VNull \<Rightarrow> None | _ \<Rightarrow> Some (conv_text E v))"

definition lit_vals :: "string list \<Rightarrow> sqlval list option" where
  "lit_vals parts = those (map eval_lit parts)"

definition query_text :: "string \<Rightarrow> query \<Rightarrow> query" where
  "query_text zSql meaning = run_query meaning"

lemma query_text_ok [simp]: "faults c = [] \<Longrightarrow> query_text zSql m c = m c"
  by (simp add: query_text_def)

definition stmt_text :: "string \<Rightarrow> (conn \<Rightarrow> (int \<times> conn) option) \<Rightarrow> conn \<Rightarrow> (int \<times> conn) option" where
  "stmt_text zSql meaning = run_stmt meaning"

section \<open>Which side wins a column\<close>

definition select_col_version ::
  "sql_env \<Rightarrow> string \<Rightarrow> string \<Rightarrow> (string \<times> string) list \<Rightarrow> string \<Rightarrow> query" where
  "select_col_version E zSql tbl w col c =
     (case db_clock (db c) (clock_name tbl) of
        None \<Rightarrow> (PrepFail SQLITE_ERROR, c)
      | Some t \<Rightarrow>
          (case where_vals (ct_pks t) w of
             None \<Rightarrow> raw_query E zSql c
           | Some ws \<Rightarrow>
               (case find (\<lambda>r. where_holds ws (clock_cell t r) \<and> ck_col r = col) (ct_rows t) of
                  None \<Rightarrow> (Stepped SQLITE_DONE, c)
                | Some r \<Rightarrow> (GotRow (VInt (ck_vrsn r)), c))))"

text \<open>\<^verbatim>\<open>SELECT quote("col") FROM tbl WHERE ...\<close>. Column names ignore case; a quoted name that is no
  column is taken for a text, unless it is one of the names of the rowid.\<close>

definition same_name :: "string \<Rightarrow> string \<Rightarrow> bool" where
  "same_name m n \<longleftrightarrow> map fold_case m = map fold_case n"

definition find_col :: "string list \<Rightarrow> string \<Rightarrow> string option" where
  "find_col cols n = (if n \<in> set cols then Some n else find (same_name n) cols)"

definition rowid_name :: "string \<Rightarrow> bool" where
  "rowid_name n \<longleftrightarrow> list_ex (same_name n) [''rowid'', ''_rowid_'', ''oid'']"

definition select_quoted ::
  "sql_env \<Rightarrow> string \<Rightarrow> string \<Rightarrow> (string \<times> string) list \<Rightarrow> string \<Rightarrow> query" where
  "select_quoted E zSql tbl w col c =
     (case db_user (db c) tbl of
        None \<Rightarrow> (PrepFail SQLITE_ERROR, c)
      | Some t \<Rightarrow>
          (case where_vals (map ci_name (ut_cols t)) w of
             None \<Rightarrow> raw_query E zSql c
           | Some ws \<Rightarrow>
               (case find_col (map ci_name (ut_cols t)) col of
                  None \<Rightarrow>
                    if rowid_name col then raw_query E zSql c
                    else if list_ex (where_holds ws) (ut_rows t)
                    then (GotRow (VText (quote_val (VText col))), c) else (Stepped SQLITE_DONE, c)
                | Some n \<Rightarrow>
                    (case find (where_holds ws) (ut_rows t) of
                       None \<Rightarrow> (Stepped SQLITE_DONE, c)
                     | Some r \<Rightarrow> (GotRow (VText (quote_val (r n))), c)))))"

text \<open>1: the change wins, 0: it loses, -1: an error. Comparing with a NULL text is undefined.\<close>

definition crsql_didCidWin ::
  "sql_env \<Rightarrow> string \<Rightarrow> (string \<times> string) list \<Rightarrow> string \<Rightarrow> string \<Rightarrow> int \<Rightarrow> conn \<Rightarrow>
     (int \<times> string option \<times> conn) option" where
  "crsql_didCidWin E insertTbl pkWhereList colName sanitizedInsertVal colVersion c =
     (let zSql =
         ''SELECT __crsql_col_version FROM '' @ dq (insertTbl @ ''__crsql_clock'') @
         '' WHERE '' @ where_list_text pkWhereList @ '' AND '' @ fmt_Q colName @
         '' = __crsql_col_name'' in
      case query_text zSql (select_col_version E zSql insertTbl pkWhereList colName) c of
        (PrepFail rc, c) \<Rightarrow> Some (-1, Some ''Failed preparing stmt to select local column version'', c)
      | (Stepped rc, c) \<Rightarrow>
          if rc = SQLITE_DONE then Some (1, None, c)
          else Some (-1, Some (''Bad return code ('' @ show_int rc @
            '') when selecting local column version''), c)
      | (GotRow v, c) \<Rightarrow>
          let localVersion = column_int64 E v in
          if colVersion > localVersion then Some (1, None, c)
          else if colVersion < localVersion then Some (0, None, c)
          else
            let zSql =
              ''SELECT quote('' @ dq (fmt_w colName) @ '') FROM '' @ dq (fmt_w insertTbl) @
              '' WHERE '' @ where_list_text pkWhereList in
            case query_text zSql (select_quoted E zSql insertTbl pkWhereList colName) c of
              (PrepFail rc, c) \<Rightarrow> Some (-1,
                Some (''could not prepare statement to find row to merge with. '' @ insertTbl), c)
            | (Stepped rc, c) \<Rightarrow> Some (-1,
                Some (''could not find row to merge with for tbl '' @ insertTbl), c)
            | (GotRow v, c) \<Rightarrow> do {
                localValue \<leftarrow> column_text E v;
                Some (if strcmp sanitizedInsertVal localValue > 0 then 1 else 0, None, c)
              })"

section \<open>Local deletes\<close>

abbreviation (input) DELETED_LOCALLY :: int where "DELETED_LOCALLY \<equiv> -1"

definition count_clock ::
  "sql_env \<Rightarrow> string \<Rightarrow> string \<Rightarrow> (string \<times> string) list \<Rightarrow> string \<Rightarrow> query" where
  "count_clock E zSql tbl w col c =
     (case db_clock (db c) (clock_name tbl) of
        None \<Rightarrow> (PrepFail SQLITE_ERROR, c)
      | Some t \<Rightarrow>
          (case where_vals (ct_pks t) w of
             None \<Rightarrow> raw_query E zSql c
           | Some ws \<Rightarrow> (GotRow (VInt (int (length (filter
               (\<lambda>r. where_holds ws (clock_cell t r) \<and> ck_col r = col) (ct_rows t))))), c)))"

definition crsql_checkForLocalDelete ::
  "sql_env \<Rightarrow> string \<Rightarrow> (string \<times> string) list \<Rightarrow> conn \<Rightarrow> int \<times> conn" where
  "crsql_checkForLocalDelete E tblName pkWhereList c =
     (let zSql =
         ''SELECT count(*) FROM '' @ dq (tblName @ ''__crsql_clock'') @ '' WHERE '' @
         where_list_text pkWhereList @ '' AND __crsql_col_name = '' @
         fmt_Q DELETE_CID_SENTINEL in
      case query_text zSql (count_clock E zSql tblName pkWhereList DELETE_CID_SENTINEL) c of
        (PrepFail rc, c) \<Rightarrow> (rc, c)
      | (Stepped rc, c) \<Rightarrow> (SQLITE_ERROR, c)
      | (GotRow v, c) \<Rightarrow>
          if column_int64 E v = 1 then (DELETED_LOCALLY, c) else (SQLITE_OK, c))"

section \<open>The winner's clock\<close>

text \<open>\<^verbatim>\<open>INSERT OR REPLACE\<close> removes the row with the same primary key first.\<close>

definition clock_replace :: "clock_row \<Rightarrow> clock_row list \<Rightarrow> clock_row list" where
  "clock_replace new rows = filter (\<lambda>r. \<not> same_clock (ck_pk new) (ck_col new) r) rows @ [new]"

definition replace_clock ::
  "sql_env \<Rightarrow> string \<Rightarrow> table_info \<Rightarrow> string list \<Rightarrow> string \<Rightarrow> int \<Rightarrow> int \<Rightarrow> blob option \<Rightarrow>
     conn \<Rightarrow> (int \<times> conn) option" where
  "replace_clock E zSql info parts col vrsn dbv site c =
     (case db_clock (db c) (clock_name (ti_tblName info)) of
        None \<Rightarrow> Some (SQLITE_ERROR, c)
      | Some t \<Rightarrow>
          (case lit_vals parts of
             None \<Rightarrow> Some (raw_exec E zSql c)
           | Some pk \<Rightarrow>
               if ct_pks t \<noteq> map ci_name (ti_pks info) \<or> length pk \<noteq> length (ct_pks t)
               then Some (SQLITE_ERROR, c)
               else do {
                 (v, c) \<leftarrow> nextDbVersionFunc c;
                 case v of
                   Inl err \<Rightarrow> Some (SQLITE_ERROR, c)
                 | Inr v \<Rightarrow> Some (SQLITE_OK, upd_db (upd_clock (clock_name (ti_tblName info))
                     (clock_replace \<lparr>ck_pk = pk, ck_col = col, ck_vrsn = vrsn, ck_dbv = max v dbv,
                        ck_site = site\<rparr>)) c)
               }))"

text \<open>An empty site id is the NULL pointer. When binding fails the parameter stays NULL.\<close>

definition crsql_setWinnerClock ::
  "sql_env \<Rightarrow> table_info \<Rightarrow> string list \<Rightarrow> string \<Rightarrow> int \<Rightarrow> int \<Rightarrow> blob \<Rightarrow> conn \<Rightarrow>
     (int \<times> conn) option" where
  "crsql_setWinnerClock E tblInfo pkVals insertColName insertColVrsn insertDbVrsn insertSiteId c =
     (let pkIdentifierList = fmt_s (identifier_list (ti_pks tblInfo) None);
          zSql =
         ''INSERT OR REPLACE INTO '' @ dq (ti_tblName tblInfo @ ''__crsql_clock'') @
         ''       ('' @ pkIdentifierList @ '', '' @ dq ''__crsql_col_name'' @ '', '' @
         dq ''__crsql_col_version'' @ '', '' @ dq ''__crsql_db_version'' @ '', '' @
         dq ''__crsql_site_id'' @ '')      VALUES (        '' @ values_text pkVals @
         '',        '' @ fmt_Q insertColName @ '',        '' @ show_int insertColVrsn @
         '',        MAX(crsql_nextdbversion(), '' @ show_int insertDbVrsn @
         ''),        ?      )'';
          (rc, c) = sql_call c in
      if rc \<noteq> SQLITE_OK then Some (rc, c)
      else
        let (bind_rc, c) = sql_call c;
            site = (if insertSiteId = [] \<or> bind_rc \<noteq> 0 then None else Some insertSiteId) in
        do {
          (rc, c) \<leftarrow> run_stmt (replace_clock E zSql tblInfo pkVals insertColName insertColVrsn
            insertDbVrsn site) c;
          Some (if rc = SQLITE_OK then SQLITE_OK else SQLITE_ERROR, c)
        })"

section \<open>Merging inserts and deletes of rows\<close>

definition new_row :: "user_table \<Rightarrow> (string \<times> sqlval) list \<Rightarrow> row" where
  "new_row t vals n = (case map_of vals n of Some v \<Rightarrow> v | None \<Rightarrow> ut_dflt t n)"

definition insert_or_ignore ::
  "sql_env \<Rightarrow> string \<Rightarrow> table_info \<Rightarrow> string list \<Rightarrow> conn \<Rightarrow> (int \<times> conn) option" where
  "insert_or_ignore E zSql info parts c =
     (case (db_user (db c) (ti_tblName info), lit_vals parts) of
        (None, _) \<Rightarrow> Some (SQLITE_ERROR, c)
      | (Some t, None) \<Rightarrow> Some (raw_exec E zSql c)
      | (Some t, Some pk) \<Rightarrow>
          let r = new_row t (zip (map ci_name (ti_pks info)) pk) in
          if \<not> nulls_ok t r \<or> list_ex (same_row t r) (ut_rows t) then Some (SQLITE_OK, c)
          else insert_row (ti_tblName info) r c)"

definition delete_where ::
  "sql_env \<Rightarrow> string \<Rightarrow> string \<Rightarrow> (string \<times> string) list \<Rightarrow> conn \<Rightarrow> (int \<times> conn) option" where
  "delete_where E zSql tbl w c =
     (case db_user (db c) tbl of
        None \<Rightarrow> Some (SQLITE_ERROR, c)
      | Some t \<Rightarrow>
          (case where_vals (map ci_name (ut_cols t)) w of
             None \<Rightarrow> Some (raw_exec E zSql c)
           | Some ws \<Rightarrow> delete_rows tbl (where_holds ws) [] (ut_rows t) c))"

definition crsql_mergePkOnlyInsert ::
  "sql_env \<Rightarrow> table_info \<Rightarrow> string list \<Rightarrow> int \<Rightarrow> int \<Rightarrow> blob \<Rightarrow> conn \<Rightarrow> (int \<times> conn) option" where
  "crsql_mergePkOnlyInsert E tblInfo pkVals remoteColVersion remoteDbVersion remoteSiteId c =
     (let pkIdentifiers = fmt_s (identifier_list (ti_pks tblInfo) None);
          zSql =
         ''INSERT OR IGNORE INTO '' @ dq (ti_tblName tblInfo) @ '' ('' @ pkIdentifiers @
         '') VALUES ('' @ values_text pkVals @ '')'';
          (rc, c) = run_exec SET_SYNC_BIT c in
      if rc \<noteq> SQLITE_OK then Some (rc, c)
      else do {
        (rc, c) \<leftarrow> stmt_text zSql (insert_or_ignore E zSql tblInfo pkVals) c;
        let (ignored_rc, c) = run_exec CLEAR_SYNC_BIT c;
        if rc \<noteq> SQLITE_OK then Some (rc, c)
        else crsql_setWinnerClock E tblInfo pkVals PKS_ONLY_CID_SENTINEL remoteColVersion
          remoteDbVersion remoteSiteId c
      })"

definition crsql_mergeDelete ::
  "sql_env \<Rightarrow> table_info \<Rightarrow> (string \<times> string) list \<Rightarrow> string list \<Rightarrow> int \<Rightarrow> int \<Rightarrow> blob \<Rightarrow> conn \<Rightarrow>
     (int \<times> conn) option" where
  "crsql_mergeDelete E tblInfo pkWhereList pkVals remoteColVersion remoteDbVersion remoteSiteId c =
     (let zSql =
         ''DELETE FROM '' @ dq (ti_tblName tblInfo) @ '' WHERE '' @
         where_list_text pkWhereList;
          (rc, c) = run_exec SET_SYNC_BIT c in
      if rc \<noteq> SQLITE_OK then Some (rc, c)
      else do {
        (rc, c) \<leftarrow> stmt_text zSql (delete_where E zSql (ti_tblName tblInfo) pkWhereList) c;
        let (ignored_rc, c) = run_exec CLEAR_SYNC_BIT c;
        if rc \<noteq> SQLITE_OK then Some (rc, c)
        else crsql_setWinnerClock E tblInfo pkVals DELETE_CID_SENTINEL remoteColVersion
          remoteDbVersion remoteSiteId c
      })"

section \<open>Merging a change\<close>

text \<open>The columns of the inserted row; \<open>None\<close> is NULL. An empty or NULL site id is \<open>[]\<close>.\<close>

record change =
  ch_tbl :: "string option"
  ch_pk :: "string option"
  ch_cid :: "string option"
  ch_val :: "string option"
  ch_col_vrsn :: int
  ch_db_vrsn :: int
  ch_site :: blob

abbreviation (input) MAX_TBL_NAME_LEN :: nat where "MAX_TBL_NAME_LEN \<equiv> 2048"
abbreviation (input) SITE_ID_LEN :: nat where "SITE_ID_LEN \<equiv> 16"

definition value_bytes :: "string option \<Rightarrow> nat" where
  "value_bytes v = (case v of None \<Rightarrow> 0 | Some s \<Rightarrow> length s)"

text \<open>The result code, the error message, the row id if one is set, the peers and the connection.\<close>

record merge_result =
  mr_rc :: int
  mr_errmsg :: "string option"
  mr_rowid :: "int option"
  mr_peers :: seen_peers
  mr_conn :: conn

definition merged :: "int \<Rightarrow> string option \<Rightarrow> seen_peers \<Rightarrow> conn \<Rightarrow> merge_result option" where
  "merged rc err sp c =
     Some \<lparr>mr_rc = rc, mr_errmsg = err, mr_rowid = None, mr_peers = sp, mr_conn = c\<rparr>"

text \<open>The statement that writes the winning value.\<close>

definition upsert_value ::
  "sql_env \<Rightarrow> string \<Rightarrow> table_info \<Rightarrow> string list \<Rightarrow> string \<Rightarrow> string \<Rightarrow> conn \<Rightarrow> (int \<times> conn) option" where
  "upsert_value E zSql info parts col part c =
     (case (db_user (db c) (ti_tblName info), lit_vals parts, eval_lit part) of
        (None, _) \<Rightarrow> Some (SQLITE_ERROR, c)
      | (Some t, Some pk, Some v) \<Rightarrow>
          (let r = new_row t (zip (map ci_name (ti_pks info)) pk @ [(col, v)]) in
           if \<not> nulls_ok t r then Some (SQLITE_CONSTRAINT, c)
           else case find (same_row t r) (ut_rows t) of
             None \<Rightarrow> insert_row (ti_tblName info) r c
           | Some old \<Rightarrow> update_row (ti_tblName info) old (\<lambda>s. s(col := v)) c)
      | (Some t, _) \<Rightarrow> Some (raw_exec E zSql c))"

text \<open>Lines 362 to 436: the value of a column.\<close>

definition merge_column ::
  "sql_env \<Rightarrow> table_info \<Rightarrow> (string \<times> string) list \<Rightarrow> string list \<Rightarrow> string \<Rightarrow> string option \<Rightarrow> int \<Rightarrow>
     int \<Rightarrow> blob \<Rightarrow> seen_peers \<Rightarrow> conn \<Rightarrow> merge_result option" where
  "merge_column E tblInfo pkWhereList pkVals insertColName insertVal insertColVrsn insertDbVrsn
     insertSiteId sp c =
     (case Option.bind insertVal (\<lambda>v. crsql_splitQuoteConcat v 1) of
        None \<Rightarrow> merged SQLITE_ERROR (Some ''Failed sanitizing value for changeset'') sp c
      | Some sanitizedInsertVal \<Rightarrow> do {
          let val = sanitizedInsertVal ! 0;
          (doesCidWin, err, c) \<leftarrow> crsql_didCidWin E (ti_tblName tblInfo) pkWhereList insertColName
            val insertColVrsn c;
          if doesCidWin = -1 \<or> doesCidWin = 0 then
            merged (if doesCidWin = 0 then SQLITE_OK else SQLITE_ERROR)
              (if doesCidWin = -1 \<and> err = None then Some ''Failed computing cid win'' else err) sp c
          else do {
            let pkIdentifierList = fmt_s (identifier_list (ti_pks tblInfo) None);
            let zSql =
              ''INSERT INTO '' @ dq (fmt_w (ti_tblName tblInfo)) @ '' ('' @
              pkIdentifierList @ '', '' @ dq (fmt_w insertColName) @ '')      VALUES ('' @
              values_text pkVals @ '', '' @ val @
              '')      ON CONFLICT DO UPDATE      SET '' @ dq (fmt_w insertColName) @
              '' = '' @ val;
            let (rc, c) = run_exec SET_SYNC_BIT c;
            if rc \<noteq> SQLITE_OK then
              let (ignored_rc, c) = run_exec CLEAR_SYNC_BIT c in
              merged rc (Some ''Failed setting sync bit'') sp c
            else do {
              (rc, c) \<leftarrow> stmt_text zSql (upsert_value E zSql tblInfo pkVals insertColName val) c;
              let (ignored_rc, c) = run_exec CLEAR_SYNC_BIT c;
              if rc \<noteq> SQLITE_OK then merged rc (Some ''Failed inserting changeset'') sp c
              else do {
                (rc, c) \<leftarrow> crsql_setWinnerClock E tblInfo pkVals insertColName insertColVrsn
                  insertDbVrsn insertSiteId c;
                Some \<lparr>mr_rc = rc,
                  mr_errmsg = (if rc \<noteq> SQLITE_OK then Some ''Failed updating winner clock'' else err),
                  mr_rowid = Some insertDbVrsn, mr_peers = sp, mr_conn = c\<rparr>
              }
            }
          }
        })"

text \<open>Lines 308 to 360, for a table that was found. Comparing with a NULL text is undefined, and so is
  copying a NULL key.\<close>

definition merge_row ::
  "sql_env \<Rightarrow> table_info \<Rightarrow> change \<Rightarrow> seen_peers \<Rightarrow> conn \<Rightarrow> merge_result option" where
  "merge_row E tblInfo ch sp c = do {
     insertColName \<leftarrow> ch_cid ch;
     let isDelete = (strcmp DELETE_CID_SENTINEL insertColName = 0);
     let isPkOnly = (strcmp PKS_ONLY_CID_SENTINEL insertColName = 0);
     if length (ti_pks tblInfo) = 1 \<and> ch_pk ch = None then None
     else case Option.bind (ch_pk ch) (where_pairs (ti_pks tblInfo)) of
       None \<Rightarrow> merged SQLITE_ERROR (Some ''crsql - failed decoding primary keys for insert'') sp c
     | Some pkWhereList \<Rightarrow>
         let (rc, c) = crsql_checkForLocalDelete E (ti_tblName tblInfo) pkWhereList c in
         if rc = DELETED_LOCALLY then merged SQLITE_OK None sp c
         else case Option.bind (ch_pk ch) (\<lambda>pk. crsql_splitQuoteConcat pk (length (ti_pks tblInfo))) of
           None \<Rightarrow> merged SQLITE_ERROR (Some ''Failed sanitizing pk values'') sp c
         | Some pkVals \<Rightarrow>
             if isDelete then do {
               (rc, c) \<leftarrow> crsql_mergeDelete E tblInfo pkWhereList pkVals (ch_col_vrsn ch)
                 (ch_db_vrsn ch) (ch_site ch) c;
               merged rc None sp c
             }
             else if isPkOnly \<or> \<not> crsql_columnExists insertColName (ti_nonPks tblInfo) then do {
               (rc, c) \<leftarrow> crsql_mergePkOnlyInsert E tblInfo pkVals (ch_col_vrsn ch)
                 (ch_db_vrsn ch) (ch_site ch) c;
               merged rc None sp c
             }
             else merge_column E tblInfo pkWhereList pkVals insertColName (ch_val ch)
               (ch_col_vrsn ch) (ch_db_vrsn ch) (ch_site ch) sp c
   }"

text \<open>The search among the cached descriptions: reading freed memory and comparing with a NULL name
  are undefined.\<close>

definition find_cached_info :: "conn \<Rightarrow> string option \<Rightarrow> table_info option option" where
  "find_cached_info c tbl =
     (if tableInfosLen (ext c) = 0 then Some None
      else case (zpTableInfos (ext c), tbl) of
        (Live ts, Some name) \<Rightarrow> Some (crsql_findTableInfo (take (tableInfosLen (ext c)) ts) name)
      | _ \<Rightarrow> None)"

definition crsql_mergeInsert ::
  "sql_env \<Rightarrow> bool \<Rightarrow> change \<Rightarrow> seen_peers \<Rightarrow> conn \<Rightarrow> merge_result option" where
  "crsql_mergeInsert E realloc_ok ch pSeenPeers c = do {
     (rc, ignored_err, c) \<leftarrow> crsql_ensureTableInfosAreUpToDate c;
     if rc \<noteq> SQLITE_OK then
       merged rc (Some ''Failed to update crr table information'') pSeenPeers c
     else if value_bytes (ch_tbl ch) > MAX_TBL_NAME_LEN then
       merged SQLITE_ERROR (Some ''crsql - table name exceeded max length'') pSeenPeers c
     else if value_bytes (ch_cid ch) > MAX_TBL_NAME_LEN then
       merged SQLITE_ERROR (Some ''column name exceeded max length'') pSeenPeers c
     else if length (ch_site ch) > SITE_ID_LEN then
       merged SQLITE_ERROR (Some ''crsql - site id exceeded max length'') pSeenPeers c
     else do {
       tblInfo \<leftarrow> find_cached_info c (ch_tbl ch);
       (ignored_rc, pSeenPeers) \<leftarrow>
         crsql_trackSeenPeer realloc_ok pSeenPeers (ch_site ch) (ch_db_vrsn ch);
       case tblInfo of
         None \<Rightarrow> merged SQLITE_ERROR
           (Some (''crsql - could not find the schema information for table '' @ fmt_s (ch_tbl ch)))
           pSeenPeers c
       | Some tblInfo \<Rightarrow> merge_row E tblInfo ch pSeenPeers c
     }
   }"

end
