(* ===== verification/Row_States.thy ===== *)
theory Row_States imports Vtab_Write begin

text \<open>
  The state of a row, abstracted to whether it was deleted, whether it exists, and for each column its
  version and the text of its value (\<open>abs_row\<close>); a change is one of three operations on that state
  (\<open>apply_op\<close>). The invariants of tables and clock tables, and what the statements of a merge do to them.
\<close>

section \<open>The abstract row\<close>

datatype row_state = Dead | Alive bool "string \<Rightarrow> (int \<times> string) option"

datatype row_op = Delete_op | Row_op | Col_op string int string

text \<open>The larger version wins, then the larger text.\<close>

definition wins :: "int \<times> string \<Rightarrow> int \<times> string \<Rightarrow> bool" where
  "wins new old \<longleftrightarrow> fst new > fst old \<or> fst new = fst old \<and> strcmp (snd new) (snd old) > 0"

definition lww :: "(int \<times> string) option \<Rightarrow> int \<times> string \<Rightarrow> int \<times> string" where
  "lww old new = (case old of None \<Rightarrow> new | Some o' \<Rightarrow> if wins new o' then new else o')"

fun apply_op :: "row_op \<Rightarrow> row_state \<Rightarrow> row_state" where
  "apply_op _ Dead = Dead"
| "apply_op Delete_op (Alive b m) = Dead"
| "apply_op Row_op (Alive b m) = Alive True m"
| "apply_op (Col_op col v x) (Alive b m) = Alive True (m(col \<mapsto> lww (m col) (v, x)))"

definition find_row :: "table_info \<Rightarrow> row list \<Rightarrow> sqlval list \<Rightarrow> row option" where
  "find_row info rows pk = find (\<lambda>r. sql_eqs pk (pk_vals info r)) rows"

definition user_rows :: "database \<Rightarrow> string \<Rightarrow> row list" where
  "user_rows d tbl = (case db_user d tbl of None \<Rightarrow> [] | Some t \<Rightarrow> ut_rows t)"

definition cell_text :: "row option \<Rightarrow> string \<Rightarrow> string" where
  "cell_text r col = (case r of None \<Rightarrow> [] | Some r \<Rightarrow> quote_val (r col))"

definition abs_parts :: "table_info \<Rightarrow> row list \<Rightarrow> clock_row list \<Rightarrow> sqlval list \<Rightarrow> row_state" where
  "abs_parts info rows clocks pk =
     (if clock_lookup clocks pk DELETE_CID_SENTINEL \<noteq> None then Dead
      else Alive (find_row info rows pk \<noteq> None)
        (\<lambda>col. if col \<in> ci_name ` set (ti_nonPks info)
               then map_option (\<lambda>k. (ck_vrsn k, cell_text (find_row info rows pk) col))
                 (clock_lookup clocks pk col)
               else None))"

definition abs_row :: "table_info \<Rightarrow> database \<Rightarrow> sqlval list \<Rightarrow> row_state" where
  "abs_row info d = abs_parts info (user_rows d (ti_tblName info)) (clock_rows d (ti_tblName info))"

section \<open>Invariants\<close>

definition trig_ok :: "table_info \<Rightarrow> database \<Rightarrow> bool" where
  "trig_ok info d \<longleftrightarrow> list_all (\<lambda>(n, ss). map_of (db_trigs d) n \<in> {None, Some ss})
     [(itrig (ti_tblName info), insert_stmts info), (utrig (ti_tblName info), update_stmts info),
      (dtrig (ti_tblName info), delete_stmts info)]"

text \<open>The schema: the description is the one of the table, the other columns may be NULL, no column
  has the name of a sentinel.\<close>

definition schema_inv :: "table_info \<Rightarrow> database \<Rightarrow> bool" where
  "schema_inv info d \<longleftrightarrow>
     (case (db_user d (ti_tblName info), db_clock d (clock_name (ti_tblName info))) of
        (Some t, Some ct) \<Rightarrow>
          crsql_tableInfo (ti_tblName info) (ut_cols t) = Some info \<and>
          list_all (\<lambda>k. ci_pk k \<ge> 0) (ut_cols t) \<and> ti_pks info \<noteq> [] \<and>
          distinct (map ci_name (ut_cols t)) \<and> list_all (\<lambda>k. ci_notnull k = 0) (ti_nonPks info) \<and>
          ct_pks ct = map ci_name (ti_pks info) \<and>
          list_all (\<lambda>k. ci_name k \<notin> {DELETE_CID_SENTINEL, PKS_ONLY_CID_SENTINEL}) (ut_cols t)
      | _ \<Rightarrow> False) \<and> trig_ok info d"

text \<open>The data: keys are unique and not NULL, each clock belongs to one key and column, and a column
  has a clock only if its row exists or was deleted.\<close>

definition clocks_distinct :: "clock_row list \<Rightarrow> bool" where
  "clocks_distinct clocks \<longleftrightarrow>
     sorted_wrt (\<lambda>r s. \<not> (ck_col r = ck_col s \<and> sql_eqs (ck_pk r) (ck_pk s))) clocks"

definition clocked_exists :: "table_info \<Rightarrow> row list \<Rightarrow> clock_row list \<Rightarrow> bool" where
  "clocked_exists info rows clocks \<longleftrightarrow>
     list_all (\<lambda>k. ck_col k \<in> ci_name ` set (ti_nonPks info) \<longrightarrow>
       find_row info rows (ck_pk k) \<noteq> None \<or>
       clock_lookup clocks (ck_pk k) DELETE_CID_SENTINEL \<noteq> None) clocks"

definition data_parts :: "table_info \<Rightarrow> row list \<Rightarrow> clock_row list \<Rightarrow> bool" where
  "data_parts info rows clocks \<longleftrightarrow>
     distinct_keys info rows \<and>
     list_all (\<lambda>k. length (ck_pk k) = length (ti_pks info) \<and> not_null (ck_pk k)) clocks \<and>
     clocks_distinct clocks \<and> clocked_exists info rows clocks"

definition data_inv :: "table_info \<Rightarrow> database \<Rightarrow> bool" where
  "data_inv info d = data_parts info (user_rows d (ti_tblName info)) (clock_rows d (ti_tblName info))"

lemma schema_invE:
  assumes "schema_inv info d"
  obtains t ct where "db_user d (ti_tblName info) = Some t"
    "db_clock d (clock_name (ti_tblName info)) = Some ct"
    "crsql_tableInfo (ti_tblName info) (ut_cols t) = Some info"
    "list_all (\<lambda>k. ci_pk k \<ge> 0) (ut_cols t)" "ti_pks info \<noteq> []"
    "distinct (map ci_name (ut_cols t))" "list_all (\<lambda>k. ci_notnull k = 0) (ti_nonPks info)"
    "ct_pks ct = map ci_name (ti_pks info)"
    "list_all (\<lambda>k. ci_name k \<notin> {DELETE_CID_SENTINEL, PKS_ONLY_CID_SENTINEL}) (ut_cols t)"
    "trig_ok info d"
  using assms by (auto simp: schema_inv_def split: option.splits)

lemma schema_inv_upd_rows [simp]: "schema_inv info (upd_rows n f d) = schema_inv info d"
  by (auto simp: schema_inv_def trig_ok_def split: option.splits)

lemma schema_inv_upd_clock [simp]: "schema_inv info (upd_clock n f d) = schema_inv info d"
  by (auto simp: schema_inv_def trig_ok_def split: option.splits)

section \<open>Facts about the description\<close>

lemma tableInfo_parts:
  assumes "crsql_tableInfo n cols = Some info" and "list_all (\<lambda>k. ci_pk k \<ge> 0) cols"
  shows "ti_pks info = sort_key ci_pk (filter (\<lambda>k. ci_pk k > 0) cols)"
    "ti_nonPks info = filter (\<lambda>k. ci_pk k = 0) cols"
  using assms by (auto simp: crsql_tableInfo_def pks_eq nonPks_eq)

lemma table_pks_info:
  "crsql_tableInfo n (ut_cols t) = Some info \<Longrightarrow> list_all (\<lambda>k. ci_pk k \<ge> 0) (ut_cols t) \<Longrightarrow>
     table_pks t = map ci_name (ti_pks info)"
  by (simp add: table_pks_def tableInfo_parts)

lemma map_pks: "map r (map ci_name (ti_pks info)) = pk_vals info r"
  by (simp add: pk_vals_def)

lemma distinct_pk_names:
  assumes "crsql_tableInfo n cols = Some info" and "list_all (\<lambda>k. ci_pk k \<ge> 0) cols"
    and "distinct (map ci_name cols)"
  shows "distinct (map ci_name (ti_pks info))" "set (map ci_name (ti_pks info)) \<subseteq> set (map ci_name cols)"
    "ci_name ` set (ti_pks info) \<inter> ci_name ` set (ti_nonPks info) = {}"
proof -
  note parts = tableInfo_parts [OF assms(1,2)]
  have "distinct (map ci_name (filter (\<lambda>k. ci_pk k > 0) cols))"
    using assms(3) by (simp add: distinct_map inj_on_def)
  then show "distinct (map ci_name (ti_pks info))"
    by (simp add: parts distinct_map)
  show "set (map ci_name (ti_pks info)) \<subseteq> set (map ci_name cols)"
    by (auto simp: parts)
  have inj: "inj_on ci_name (set cols)" using assms(3) by (simp add: distinct_map)
  have "ci_name k \<noteq> ci_name j" if "k \<in> set cols" "ci_pk k > 0" "j \<in> set cols" "ci_pk j = 0" for k j
    using inj_onD [OF inj, of k j] that by auto
  then show "ci_name ` set (ti_pks info) \<inter> ci_name ` set (ti_nonPks info) = {}"
    by (fastforce simp: parts)
qed

section \<open>Writes while the bit is set\<close>

lemma fire_sync:
  assumes "schema_inv info (db c)" and "syncBit c \<noteq> 0" and "stmts_for info pk old new ss"
    and "(name, ss) \<in> {(itrig (ti_tblName info), insert_stmts info), (utrig (ti_tblName info), update_stmts info),
      (dtrig (ti_tblName info), delete_stmts info)}"
  shows "fire name old new c = Some (SQLITE_OK, c)"
proof -
  obtain ct where ct: "db_clock (db c) (clock_name (ti_tblName info)) = Some ct"
    "ct_pks ct = map ci_name (ti_pks info)" and t: "trig_ok info (db c)"
    using assms(1) by (rule schema_invE)
  then have "map_of (db_trigs (db c)) name = None \<or> map_of (db_trigs (db c)) name = Some ss"
    using assms(4) unfolding trig_ok_def by (elim insertE emptyE) simp_all
  then show ?thesis
    using trigger_body_sync [OF assms(2) ct assms(3)] by (auto simp: fire_def)
qed

lemma insert_row_sync:
  assumes "schema_inv info (db c)" and "syncBit c \<noteq> 0"
  shows "insert_row (ti_tblName info) r c =
    Some (SQLITE_OK, upd_db (upd_rows (ti_tblName info) (\<lambda>rs. rs @ [r])) c)"
  unfolding insert_row_def after_insert_def by (rule fire_sync [OF _ _ stmts_simps(1) [of info]]) (use assms in simp_all)

lemma update_row_sync:
  assumes "schema_inv info (db c)" and "syncBit c \<noteq> 0"
    and "db_user (db c) (ti_tblName info) = Some t" and "find (same_row t k) (ut_rows t) = Some old"
  shows "update_row (ti_tblName info) k f c = Some (SQLITE_OK,
    upd_db (upd_rows (ti_tblName info) (map (\<lambda>r. if same_row t k r then f r else r))) c)"
proof -
  have "after_update (ti_tblName info) old (f old)
      (upd_db (upd_rows (ti_tblName info) (map (\<lambda>r. if same_row t k r then f r else r))) c) =
    Some (SQLITE_OK, upd_db (upd_rows (ti_tblName info) (map (\<lambda>r. if same_row t k r then f r else r))) c)"
    unfolding after_update_def by (rule fire_sync [OF _ _ stmts_simps(2) [of info]]) (use assms in simp_all)
  with assms(3,4) show ?thesis by (simp add: update_row_def)
qed

lemma upd_rows_id: "user_rows d tbl = rs \<Longrightarrow> db_user d tbl \<noteq> None \<Longrightarrow> upd_rows tbl (\<lambda>_. rs) d = d"
  by (auto simp: upd_rows_def user_rows_def fun_upd_idem)

lemma upd_rows_comp: "upd_rows tbl g (upd_rows tbl f d) = upd_rows tbl (\<lambda>rs. g (f rs)) d"
  by (auto simp: upd_rows_def option.map_comp comp_def)

lemma user_rows_upd_rows [simp]:
  "db_user d tbl \<noteq> None \<Longrightarrow> user_rows (upd_rows tbl f d) tbl = f (user_rows d tbl)"
  by (auto simp: user_rows_def)

lemma user_rows_upd_clock [simp]: "user_rows (upd_clock n f d) tbl = user_rows d tbl"
  by (simp add: user_rows_def)

lemma delete_rows_sync:
  assumes "schema_inv info (db c)" and "syncBit c \<noteq> 0"
    and "user_rows (db c) (ti_tblName info) = keep @ rs"
  shows "delete_rows (ti_tblName info) P keep rs c = Some (SQLITE_OK,
    upd_db (upd_rows (ti_tblName info) (\<lambda>_. keep @ filter (\<lambda>r. \<not> P r) rs)) c)"
  using assms
proof (induction rs arbitrary: keep c)
  case Nil
  have "db_user (db c) (ti_tblName info) \<noteq> None" using Nil.prems(1) by (auto elim: schema_invE)
  with Nil.prems(3) have "upd_db (upd_rows (ti_tblName info) (\<lambda>_. keep)) c = c"
    by (simp add: upd_db_def upd_rows_id)
  then show ?case by simp
next
  case (Cons r rs)
  let ?tbl = "ti_tblName info"
  have u: "db_user (db c) ?tbl \<noteq> None" using Cons.prems(1) by (auto elim: schema_invE)
  show ?case
  proof (cases "P r")
    case False
    with Cons.IH [of c "keep @ [r]"] Cons.prems show ?thesis by simp
  next
    case True
    define c1 where "c1 = upd_db (upd_rows ?tbl (\<lambda>_. keep @ rs)) c"
    have "after_delete ?tbl r c1 = Some (SQLITE_OK, c1)"
      unfolding after_delete_def by (rule fire_sync [OF _ _ stmts_simps(3) [of info]]) (use Cons.prems in \<open>simp_all add: c1_def\<close>)
    moreover have "delete_rows ?tbl P keep rs c1 = Some (SQLITE_OK,
        upd_db (upd_rows ?tbl (\<lambda>_. keep @ filter (\<lambda>r. \<not> P r) rs)) c1)"
      using Cons.prems u by (intro Cons.IH) (simp_all add: c1_def)
    moreover have "upd_db (upd_rows ?tbl (\<lambda>_. xs)) c1 = upd_db (upd_rows ?tbl (\<lambda>_. xs)) c" for xs
      by (simp add: c1_def upd_db_def upd_rows_comp)
    ultimately show ?thesis using True by (simp add: c1_def)
  qed
qed

section \<open>The statements on a canonical key\<close>

definition key_ok :: "table_info \<Rightarrow> sqlval list \<Rightarrow> bool" where
  "key_ok info pk \<longleftrightarrow> key_vals_ok pk \<and> length pk = length (ti_pks info) \<and> not_null pk"

text \<open>The rows and clocks of a table others can read: values are finite, each clock belongs to a row or
  the delete of one, and each row has a clock.\<close>

definition vals_ok :: "table_info \<Rightarrow> row \<Rightarrow> bool" where
  "vals_ok info r \<longleftrightarrow> list_all (\<lambda>col. wf_val (r (ci_name col)) \<and> finite_val (r (ci_name col))) (ti_nonPks info)"

definition good_clock :: "table_info \<Rightarrow> row list \<Rightarrow> clock_row list \<Rightarrow> clock_row \<Rightarrow> bool" where
  "good_clock info rows clocks k \<longleftrightarrow> key_ok info (ck_pk k) \<and>
     ck_col k \<in> {DELETE_CID_SENTINEL, PKS_ONLY_CID_SENTINEL} \<union> ci_name ` set (ti_nonPks info) \<and>
     (case ck_site k of None \<Rightarrow> True | Some b \<Rightarrow> length b \<le> SITE_ID_LEN) \<and>
     (find_row info rows (ck_pk k) = None \<longrightarrow> clock_lookup clocks (ck_pk k) DELETE_CID_SENTINEL \<noteq> None) \<and>
     ck_dbv k > MIN_POSSIBLE_DB_VERSION \<and> ck_site k \<noteq> Some [97]"

definition good_table :: "table_info \<Rightarrow> row list \<Rightarrow> clock_row list \<Rightarrow> bool" where
  "good_table info rows clocks \<longleftrightarrow> distinct_keys info rows \<and> clocks_distinct clocks \<and>
     list_all (good_clock info rows clocks) clocks \<and> list_all (vals_ok info) rows"

definition all_clocked :: "table_info \<Rightarrow> row list \<Rightarrow> clock_row list \<Rightarrow> bool" where
  "all_clocked info rows clocks \<longleftrightarrow>
     list_all (\<lambda>r. list_ex (\<lambda>k. sql_eqs (pk_vals info r) (ck_pk k)) clocks) rows"

text \<open>New rows get finite values, too.\<close>

definition dflts_ok :: "table_info \<Rightarrow> database \<Rightarrow> bool" where
  "dflts_ok info d \<longleftrightarrow> (case db_user d (ti_tblName info) of None \<Rightarrow> False
     | Some t \<Rightarrow> list_all (\<lambda>col. wf_val (ut_dflt t (ci_name col)) \<and> finite_val (ut_dflt t (ci_name col))) (ti_nonPks info))"

lemma dflts_ok_upd [simp]:
  "dflts_ok info (upd_rows n f d) = dflts_ok info d" "dflts_ok info (upd_clock n g d) = dflts_ok info d"
  by (auto simp: dflts_ok_def split: option.splits)

definition key_where :: "table_info \<Rightarrow> sqlval list \<Rightarrow> (string \<times> string) list" where
  "key_where info pk = zip (map ci_name (ti_pks info)) (map quote_val pk)"

lemma lit_vals_quotes: "key_vals_ok pk \<Longrightarrow> lit_vals (map quote_val pk) = Some pk"
  using those_map_inverse [of pk eval_lit quote_val]
  by (auto simp: lit_vals_def key_vals_ok_def list_all_iff eval_lit_quote)

lemma find_cong: "(\<And>x. x \<in> set xs \<Longrightarrow> P x = Q x) \<Longrightarrow> find P xs = find Q xs"
  by (induction xs) auto

lemma clock_where_cong:
  assumes "distinct (ct_pks t)" and "length pk = length (ct_pks t)"
    and "list_all (\<lambda>k. length (ck_pk k) = length (ct_pks t)) (ct_rows t)" and "r \<in> set (ct_rows t)"
  shows "(where_holds (zip (ct_pks t) pk) (clock_cell t r) \<and> ck_col r = col) = same_clock pk col r"
  using assms where_holds_clock [of t r pk] by (auto simp: same_clock_def list_all_iff)

lemma key_where_clock:
  assumes "key_ok info pk" and "ct_pks t = map ci_name (ti_pks info)"
  shows "where_vals (ct_pks t) (key_where info pk) = Some (zip (ct_pks t) pk)"
  using assms where_vals_quotes [of "map ci_name (ti_pks info)" pk "ct_pks t"]
  by (simp add: key_ok_def key_where_def key_vals_ok_def)

definition clock_lens :: "table_info \<Rightarrow> clock_row list \<Rightarrow> bool" where
  "clock_lens info clocks \<longleftrightarrow> list_all (\<lambda>k. length (ck_pk k) = length (ti_pks info)) clocks"

lemma data_inv_clock_lens: "data_inv info d \<Longrightarrow> clock_lens info (clock_rows d (ti_tblName info))"
  by (auto simp: data_inv_def data_parts_def clock_lens_def list_all_iff)

lemma select_col_version_key:
  assumes "schema_inv info (db c)" and "key_ok info pk"
    and "clock_lens info (clock_rows (db c) (ti_tblName info))"
  shows "select_col_version E z (ti_tblName info) (key_where info pk) col c =
    (case clock_lookup (clock_rows (db c) (ti_tblName info)) pk col of
       None \<Rightarrow> (Stepped SQLITE_DONE, c) | Some k \<Rightarrow> (GotRow (VInt (ck_vrsn k)), c))"
proof -
  obtain t ct where s: "db_clock (db c) (clock_name (ti_tblName info)) = Some ct"
    "ct_pks ct = map ci_name (ti_pks info)" "distinct (map ci_name (ti_pks info))"
    using assms(1) by (auto elim!: schema_invE dest: distinct_pk_names(1))
  have "find (\<lambda>r. where_holds (zip (ct_pks ct) pk) (clock_cell ct r) \<and> ck_col r = col) (ct_rows ct) =
      find (same_clock pk col) (ct_rows ct)"
    using s assms(2,3)
    by (intro find_cong clock_where_cong) (auto simp: key_ok_def clock_lens_def clock_rows_def)
  then show ?thesis
    using s key_where_clock [OF assms(2) s(2)]
    by (simp add: select_col_version_def clock_lookup_def clock_rows_def)
qed

lemma clocks_distinct_filter:
  "clocks_distinct clocks \<Longrightarrow>
     length (filter (same_clock pk col) clocks) = (if clock_lookup clocks pk col = None then 0 else 1)"
proof (induction clocks)
  case (Cons k ks)
  have "filter (same_clock pk col) ks = []" if "same_clock pk col k"
  proof -
    have "\<not> same_clock pk col j" if j: "j \<in> set ks" for j
    proof
      assume "same_clock pk col j"
      with \<open>same_clock pk col k\<close> have "ck_col k = ck_col j" "sql_eqs (ck_pk k) (ck_pk j)"
        using sql_eqs_trans [OF sql_eqs_sym] by (auto simp: same_clock_def)
      with j Cons.prems show False by (auto simp: clocks_distinct_def)
    qed
    then show ?thesis by (simp add: filter_empty_conv)
  qed
  with Cons show ?case by (auto simp: clock_lookup_def clocks_distinct_def)
qed (simp add: clock_lookup_def)

lemma count_clock_key:
  assumes "schema_inv info (db c)" and "key_ok info pk" and "data_inv info (db c)"
  shows "count_clock E z (ti_tblName info) (key_where info pk) col c =
    (GotRow (VInt (if clock_lookup (clock_rows (db c) (ti_tblName info)) pk col = None then 0 else 1)), c)"
proof -
  obtain t ct where s: "db_clock (db c) (clock_name (ti_tblName info)) = Some ct"
    "ct_pks ct = map ci_name (ti_pks info)" "distinct (map ci_name (ti_pks info))"
    using assms(1) by (auto elim!: schema_invE dest: distinct_pk_names(1))
  have "filter (\<lambda>r. where_holds (zip (ct_pks ct) pk) (clock_cell ct r) \<and> ck_col r = col) (ct_rows ct) =
      filter (same_clock pk col) (ct_rows ct)"
    using s assms(2) data_inv_clock_lens [OF assms(3)]
    by (intro filter_cong refl clock_where_cong) (auto simp: key_ok_def clock_lens_def clock_rows_def)
  moreover have "clocks_distinct (ct_rows ct)"
    using assms(3) s(1) by (simp add: data_inv_def data_parts_def clock_rows_def)
  ultimately show ?thesis
    using s key_where_clock [OF assms(2) s(2)] clocks_distinct_filter [of "ct_rows ct" pk col]
    by (simp add: count_clock_def clock_rows_def)
qed

lemma key_where_user:
  assumes "schema_inv info d" and "db_user d (ti_tblName info) = Some t" and "key_ok info pk"
  shows "where_vals (map ci_name (ut_cols t)) (key_where info pk) =
      Some (zip (map ci_name (ti_pks info)) pk)"
    "where_holds (zip (map ci_name (ti_pks info)) pk) = (\<lambda>r. sql_eqs pk (pk_vals info r))"
proof -
  have i: "crsql_tableInfo (ti_tblName info) (ut_cols t) = Some info"
    "list_all (\<lambda>k. ci_pk k \<ge> 0) (ut_cols t)" "distinct (map ci_name (ut_cols t))"
    using assms(1,2) by (auto elim!: schema_invE)
  note d = distinct_pk_names(1,2) [OF i]
  have "length (map ci_name (ti_pks info)) = length pk" "list_all (\<lambda>v. wf_val v \<and> finite_val v) pk"
    using assms(3) by (auto simp: key_ok_def key_vals_ok_def)
  then show "where_vals (map ci_name (ut_cols t)) (key_where info pk) =
      Some (zip (map ci_name (ti_pks info)) pk)"
    unfolding key_where_def using d(2) by (intro where_vals_quotes)
  show "where_holds (zip (map ci_name (ti_pks info)) pk) = (\<lambda>r. sql_eqs pk (pk_vals info r))"
    using d(1) \<open>length (map ci_name (ti_pks info)) = length pk\<close>
    by (simp add: fun_eq_iff where_holds_zip pk_vals_def comp_def)
qed

lemma select_quoted_key:
  assumes "schema_inv info (db c)" and "key_ok info pk" and "col \<in> ci_name ` set (ti_nonPks info)"
  shows "select_quoted E z (ti_tblName info) (key_where info pk) col c =
    (case find_row info (user_rows (db c) (ti_tblName info)) pk of
       None \<Rightarrow> (Stepped SQLITE_DONE, c) | Some r \<Rightarrow> (GotRow (VText (quote_val (r col))), c))"
proof -
  obtain t ct where s: "db_user (db c) (ti_tblName info) = Some t"
    "crsql_tableInfo (ti_tblName info) (ut_cols t) = Some info" "list_all (\<lambda>k. ci_pk k \<ge> 0) (ut_cols t)"
    using assms(1) by (auto elim!: schema_invE)
  have "col \<in> ci_name ` set (ut_cols t)"
    using assms(3) tableInfo_parts(2) [OF s(2,3)] by auto
  then show ?thesis
    using s(1) key_where_user [OF assms(1) s(1) assms(2)]
    by (simp add: select_quoted_def find_row_def user_rows_def find_col_def)
qed

section \<open>New rows\<close>

lemma new_row_pk:
  assumes "distinct (map ci_name (ti_pks info))" and "length pk = length (ti_pks info)"
  shows "pk_vals info (new_row t (zip (map ci_name (ti_pks info)) pk @ rest)) = pk"
proof (rule nth_equalityI)
  fix i
  assume "i < length (pk_vals info (new_row t (zip (map ci_name (ti_pks info)) pk @ rest)))"
  then have i: "i < length (ti_pks info)" by (simp add: pk_vals_def)
  have "map_of (zip (map ci_name (ti_pks info)) pk) (map ci_name (ti_pks info) ! i) = Some (pk ! i)"
    using assms i by (intro map_of_zip_nth) simp_all
  with i show "pk_vals info (new_row t (zip (map ci_name (ti_pks info)) pk @ rest)) ! i = pk ! i"
    by (simp add: pk_vals_def new_row_def map_add_def)
qed (use assms(2) in \<open>simp add: pk_vals_def\<close>)

lemma new_row_vals:
  assumes "dflts_ok info d" and "db_user d (ti_tblName info) = Some t"
    and "\<And>n x. map_of vals n = Some x \<Longrightarrow> n \<in> ci_name ` set (ti_nonPks info) \<Longrightarrow> wf_val x \<and> finite_val x"
  shows "vals_ok info (new_row t vals)"
  using assms by (auto simp: vals_ok_def dflts_ok_def new_row_def list_all_iff split: option.split)

lemma new_row_nulls:
  assumes "schema_inv info d" and "db_user d (ti_tblName info) = Some t" and "key_ok info pk"
    and "pk_vals info r = pk"
  shows "nulls_ok t r"
proof -
  have s: "crsql_tableInfo (ti_tblName info) (ut_cols t) = Some info"
    "list_all (\<lambda>k. ci_pk k \<ge> 0) (ut_cols t)" "list_all (\<lambda>k. ci_notnull k = 0) (ti_nonPks info)"
    using assms(1,2) by (auto elim!: schema_invE)
  have "ci_notnull k = 0 \<or> r (ci_name k) \<noteq> VNull" if k: "k \<in> set (ut_cols t)" for k
  proof (cases "ci_pk k = 0")
    case True
    with k s tableInfo_parts(2) [OF s(1,2)] show ?thesis by (simp add: list_all_iff)
  next
    case False
    with k s tableInfo_parts(1) [OF s(1,2)] have "k \<in> set (ti_pks info)" by (force simp: list_all_iff)
    then have "r (ci_name k) \<in> set pk" unfolding assms(4) [symmetric] by (simp add: pk_vals_def)
    with assms(3) show ?thesis by (auto simp: key_ok_def not_null_def)
  qed
  then show ?thesis by (simp add: nulls_ok_def list_all_iff)
qed

lemma same_row_pk:
  assumes "schema_inv info d" and "db_user d (ti_tblName info) = Some t"
  shows "same_row t r s = sql_eqs (pk_vals info r) (pk_vals info s)"
proof -
  have "table_pks t = map ci_name (ti_pks info)"
    using assms by (auto elim!: schema_invE intro: table_pks_info)
  then show ?thesis by (simp add: same_row_def map_pks del: map_map)
qed

definition put_row :: "table_info \<Rightarrow> row \<Rightarrow> row list \<Rightarrow> row list" where
  "put_row info r rows = (if find_row info rows (pk_vals info r) = None then rows @ [r] else rows)"

definition put_cell :: "table_info \<Rightarrow> row \<Rightarrow> string \<Rightarrow> sqlval \<Rightarrow> row list \<Rightarrow> row list" where
  "put_cell info r col v rows =
     (if find_row info rows (pk_vals info r) = None then rows @ [r]
      else map (\<lambda>s. if sql_eqs (pk_vals info r) (pk_vals info s) then s(col := v) else s) rows)"

lemma list_ex_find_row:
  "list_ex (\<lambda>s. sql_eqs pk (pk_vals info s)) rows \<longleftrightarrow> find_row info rows pk \<noteq> None"
  by (auto simp: find_row_def find_None_iff list_ex_iff)

lemma insert_or_ignore_key:
  assumes "schema_inv info (db c)" and "syncBit c \<noteq> 0" and "key_ok info pk"
  shows "\<exists>r. pk_vals info r = pk \<and> (dflts_ok info (db c) \<longrightarrow> vals_ok info r) \<and>
    (\<forall>z. insert_or_ignore E z info (map quote_val pk) c =
      Some (SQLITE_OK, upd_db (upd_rows (ti_tblName info) (put_row info r)) c))"
proof -
  obtain t where t: "db_user (db c) (ti_tblName info) = Some t"
    and d: "distinct (map ci_name (ti_pks info))"
    and disj: "ci_name ` set (ti_pks info) \<inter> ci_name ` set (ti_nonPks info) = {}"
    using assms(1) by (auto elim!: schema_invE dest: distinct_pk_names(1,3))
  define r where "r = new_row t (zip (map ci_name (ti_pks info)) pk)"
  have pk: "pk_vals info r = pk"
    using new_row_pk [OF d, of pk t "[]"] assms(3) by (simp add: r_def key_ok_def)
  have vals: "dflts_ok info (db c) \<longrightarrow> vals_ok info r"
    unfolding r_def using disj by (intro impI new_row_vals [OF _ t]) (auto dest!: map_of_SomeD set_zip_leftD)
  have rows: "ut_rows t = user_rows (db c) (ti_tblName info)" by (simp add: user_rows_def t)
  have ex: "list_ex (same_row t r) (ut_rows t) \<longleftrightarrow>
      find_row info (user_rows (db c) (ti_tblName info)) pk \<noteq> None"
    using list_ex_find_row [of pk info "ut_rows t"] same_row_pk [OF assms(1) t, of r]
    by (simp add: pk rows [symmetric] list_ex_iff)
  have nulls: "nulls_ok t r" using new_row_nulls [OF assms(1) t assms(3) pk] .
  have same: "upd_db (upd_rows (ti_tblName info) (\<lambda>rs. rs)) c = c"
    using t by (auto simp: upd_db_def upd_rows_def fun_upd_idem)
  have upd: "upd_db (upd_rows (ti_tblName info) f) c = upd_db (upd_rows (ti_tblName info) g) c"
    if "f (ut_rows t) = g (ut_rows t)" for f g
    using that t by (simp add: upd_db_def upd_rows_def)
  have "insert_or_ignore E z info (map quote_val pk) c =
      Some (SQLITE_OK, upd_db (upd_rows (ti_tblName info) (put_row info r)) c)" for z
  proof (cases "find_row info (user_rows (db c) (ti_tblName info)) pk")
    case None
    then have "upd_db (upd_rows (ti_tblName info) (put_row info r)) c =
        upd_db (upd_rows (ti_tblName info) (\<lambda>rs. rs @ [r])) c"
      by (intro upd) (simp add: put_row_def pk rows)
    with None ex nulls t assms show ?thesis
      by (simp add: insert_or_ignore_def lit_vals_quotes key_ok_def r_def [symmetric] insert_row_sync)
  next
    case (Some s)
    then have "upd_db (upd_rows (ti_tblName info) (put_row info r)) c =
        upd_db (upd_rows (ti_tblName info) (\<lambda>rs. rs)) c"
      by (intro upd) (simp add: put_row_def pk rows)
    with Some ex nulls t assms same show ?thesis
      by (simp add: insert_or_ignore_def lit_vals_quotes key_ok_def r_def [symmetric])
  qed
  with pk vals show ?thesis by blast
qed

lemma upsert_value_key:
  assumes "schema_inv info (db c)" and "syncBit c \<noteq> 0" and "key_ok info pk"
    and "col \<in> ci_name ` set (ti_nonPks info)" and "wf_val v" and "finite_val v"
  shows "\<exists>r. pk_vals info r = pk \<and> r col = v \<and> (dflts_ok info (db c) \<longrightarrow> vals_ok info r) \<and>
    (\<forall>z. upsert_value E z info (map quote_val pk) col (quote_val v) c =
      Some (SQLITE_OK, upd_db (upd_rows (ti_tblName info) (put_cell info r col v)) c))"
proof -
  obtain t where t: "db_user (db c) (ti_tblName info) = Some t"
    and d: "distinct (map ci_name (ti_pks info))"
    and disj: "ci_name ` set (ti_pks info) \<inter> ci_name ` set (ti_nonPks info) = {}"
    using assms(1) by (auto elim!: schema_invE dest: distinct_pk_names(1,3))
  define r where "r = new_row t (zip (map ci_name (ti_pks info)) pk @ [(col, v)])"
  have pk: "pk_vals info r = pk"
    using new_row_pk [OF d, of pk t "[(col, v)]"] assms(3) by (simp add: r_def key_ok_def)
  have "col \<notin> ci_name ` set (ti_pks info)" using assms(4) disj by blast
  then have "map_of (zip (map ci_name (ti_pks info)) pk) col = None"
    by (auto simp: map_of_eq_None_iff dest: set_zip_leftD)
  then have col: "r col = v" by (simp add: r_def new_row_def map_add_def)
  have vals: "dflts_ok info (db c) \<longrightarrow> vals_ok info r"
    unfolding r_def using disj assms(5,6)
    by (intro impI new_row_vals [OF _ t]) (auto simp: map_add_Some_iff dest!: map_of_SomeD set_zip_leftD split: if_splits)
  have rows: "ut_rows t = user_rows (db c) (ti_tblName info)" by (simp add: user_rows_def t)
  have fnd: "find (same_row t r) (ut_rows t) = find_row info (ut_rows t) pk"
    using same_row_pk [OF assms(1) t, of r] by (simp add: find_row_def pk cong: find_cong)
  have nulls: "nulls_ok t r" using new_row_nulls [OF assms(1) t assms(3) pk] .
  have upd: "upd_db (upd_rows (ti_tblName info) f) c = upd_db (upd_rows (ti_tblName info) g) c"
    if "f (ut_rows t) = g (ut_rows t)" for f g
    using that t by (simp add: upd_db_def upd_rows_def)
  have lits: "lit_vals (map quote_val pk) = Some pk" "eval_lit (quote_val v) = Some v"
    using assms(3,5,6) by (simp_all add: lit_vals_quotes key_ok_def eval_lit_quote)
  have "upsert_value E z info (map quote_val pk) col (quote_val v) c =
      Some (SQLITE_OK, upd_db (upd_rows (ti_tblName info) (put_cell info r col v)) c)" for z
  proof (cases "find_row info (ut_rows t) pk")
    case None
    then have "upd_db (upd_rows (ti_tblName info) (put_cell info r col v)) c =
        upd_db (upd_rows (ti_tblName info) (\<lambda>rs. rs @ [r])) c"
      by (intro upd) (simp add: put_cell_def pk)
    with None nulls t assms(1,2) lits fnd show ?thesis
      by (simp add: upsert_value_def r_def [symmetric] insert_row_sync)
  next
    case (Some old)
    then have eq: "sql_eqs pk (pk_vals info old)" by (auto simp: find_row_def find_Some_iff)
    have "same_row t old s = sql_eqs pk (pk_vals info s)" for s
      using same_row_pk [OF assms(1) t, of old s] eq sql_eqs_trans sql_eqs_sym by blast
    then have "upd_db (upd_rows (ti_tblName info) (put_cell info r col v)) c =
        upd_db (upd_rows (ti_tblName info) (map (\<lambda>s. if same_row t old s then s(col := v) else s))) c"
      using Some by (intro upd) (simp add: put_cell_def pk)
    moreover have "find (same_row t old) (ut_rows t) = Some old" using find_same_row Some fnd by metis
    ultimately show ?thesis
      using Some nulls t assms(1,2) lits fnd by (simp add: upsert_value_def r_def [symmetric] update_row_sync)
  qed
  with pk col vals show ?thesis by blast
qed

lemma delete_where_key:
  assumes "schema_inv info (db c)" and "syncBit c \<noteq> 0" and "key_ok info pk"
  shows "delete_where E z (ti_tblName info) (key_where info pk) c = Some (SQLITE_OK,
    upd_db (upd_rows (ti_tblName info) (filter (\<lambda>r. \<not> sql_eqs pk (pk_vals info r)))) c)"
proof -
  obtain t where t: "db_user (db c) (ti_tblName info) = Some t"
    using assms(1) by (auto elim!: schema_invE)
  have rows: "user_rows (db c) (ti_tblName info) = [] @ ut_rows t" by (simp add: user_rows_def t)
  have "upd_db (upd_rows (ti_tblName info) (\<lambda>_. filter P (ut_rows t))) c =
      upd_db (upd_rows (ti_tblName info) (filter P)) c" for P
    using t by (simp add: upd_db_def upd_rows_def)
  then show ?thesis
    using delete_rows_sync [OF assms(1,2) rows] key_where_user [OF assms(1) t assms(3)] t
    by (simp add: delete_where_def)
qed

section \<open>The winner's clock\<close>

lemma lookup_replace:
  assumes "not_null (ck_pk k)"
  shows "clock_lookup (clock_replace k clocks) pk col =
    (if col = ck_col k \<and> sql_eqs pk (ck_pk k) then Some k else clock_lookup clocks pk col)"
proof -
  have self: "same_clock (ck_pk k) (ck_col k) k" using assms by (simp add: same_clock_def sql_eqs_refl)
  have new: "same_clock pk col k \<longleftrightarrow> col = ck_col k \<and> sql_eqs pk (ck_pk k)"
    by (auto simp: same_clock_def)
  show ?thesis
  proof (cases "col = ck_col k \<and> sql_eqs pk (ck_pk k)")
    case True
    then have "same_clock (ck_pk k) (ck_col k) r" if "same_clock pk col r" for r
      using that sql_eqs_trans [OF sql_eqs_sym] by (auto simp: same_clock_def)
    then have "find (same_clock pk col) (filter (\<lambda>r. \<not> same_clock (ck_pk k) (ck_col k) r) clocks) = None"
      by (intro find_filter_None) auto
    with True new show ?thesis by (simp add: clock_lookup_def clock_replace_def find_append)
  next
    case False
    then have "\<not> same_clock (ck_pk k) (ck_col k) r" if "same_clock pk col r" for r
      using that sql_eqs_trans [OF _ sql_eqs_sym] by (auto simp: same_clock_def)
    then have "find (same_clock pk col) (filter (\<lambda>r. \<not> same_clock (ck_pk k) (ck_col k) r) clocks) =
        find (same_clock pk col) clocks"
      by (intro find_filter_same) auto
    with False new show ?thesis
      by (auto simp: clock_lookup_def clock_replace_def find_append split: option.split)
  qed
qed

definition conn_ok :: "conn \<Rightarrow> bool" where
  "conn_ok c \<longleftrightarrow> ready c \<and> 0 \<le> current_version c \<and> int64 (current_version c + 1)"

text \<open>The parts of a connection no write of a row or a clock touches.\<close>

definition frame :: "conn \<Rightarrow> conn \<Rightarrow> bool" where
  "frame c c' \<longleftrightarrow> conn_ok c' \<and> syncBit c' = syncBit c \<and> zpTableInfos (ext c') = zpTableInfos (ext c) \<and>
     tableInfosLen (ext c') = tableInfosLen (ext c) \<and> current_version c' = current_version c \<and>
     pragmaSchemaVersionForTableInfos (ext c') = pragmaSchemaVersionForTableInfos (ext c) \<and>
     pTrackPeersStmt (ext c') = pTrackPeersStmt (ext c) \<and> siteId (ext c') = siteId (ext c) \<and> same_tx c c'"

lemma conn_ok_upd_rows [simp]: "conn_ok (upd_db (upd_rows n f) c) = conn_ok c"
  by (simp add: conn_ok_def)

lemma frame_upd_rows [simp]: "frame c (upd_db (upd_rows n f) c') = frame c c'"
  by (simp add: frame_def)

lemma setWinnerClock_key:
  assumes "conn_ok c" and "schema_inv info (db c)" and "key_ok info pk"
  shows "\<exists>c'. crsql_setWinnerClock E info (map quote_val pk) col v dbv s c = Some (SQLITE_OK, c') \<and>
    db c' = upd_clock (clock_name (ti_tblName info)) (clock_replace \<lparr>ck_pk = pk, ck_col = col,
      ck_vrsn = v, ck_dbv = max (current_version c + 1) dbv,
      ck_site = (if s = [] then None else Some s)\<rparr>) (db c) \<and> frame c c'"
proof -
  obtain ct where ct: "db_clock (db c) (clock_name (ti_tblName info)) = Some ct"
    "ct_pks ct = map ci_name (ti_pks info)"
    using assms(2) by (auto elim: schema_invE)
  obtain c1 where c1: "nextDbVersionFunc c = Some (Inr (current_version c + 1), c1)"
    "dbVersion (ext c1) = current_version c" "only_ext c c1" "ready c1"
    "pragmaDataVersion (ext c1) = db_data_version (db c)"
    using nextDbVersion_ok [of c] assms(1) by (auto simp: conn_ok_def)
  let ?k = "\<lparr>ck_pk = pk, ck_col = col, ck_vrsn = v, ck_dbv = max (current_version c + 1) dbv,
    ck_site = (if s = [] then None else Some s)\<rparr>"
  define c2 where "c2 = upd_db (upd_clock (clock_name (ti_tblName info)) (clock_replace ?k)) c1"
  have "replace_clock E z info (map quote_val pk) col v dbv (if s = [] then None else Some s) c =
      Some (SQLITE_OK, c2)" for z
    using ct c1(1) assms(3) lit_vals_quotes [of pk]
    by (simp add: replace_clock_def key_ok_def c2_def)
  moreover have "current_version c2 = current_version c"
    using c1 assms(1)
    by (simp add: current_version_def version_cached_def c2_def only_ext_def conn_ok_def)
  ultimately show ?thesis
    using assms(1) c1 unfolding crsql_setWinnerClock_def
    by (auto simp: conn_ok_def frame_def c2_def ready_faults run_stmt_def atomic_def only_ext_def Let_def)
qed

section \<open>The effect of each kind of change\<close>

lemma find_row_cong: "sql_eqs pk pk' \<Longrightarrow> find_row info rows pk = find_row info rows pk'"
proof -
  assume eq: "sql_eqs pk pk'"
  have "(\<lambda>r. sql_eqs pk (pk_vals info r)) = (\<lambda>r. sql_eqs pk' (pk_vals info r))"
    using eq sql_eqs_sym sql_eqs_trans by blast
  then show ?thesis by (simp add: find_row_def)
qed

lemma find_put_row:
  assumes "not_null (pk_vals info r)"
  shows "find_row info (put_row info r rows) pk =
    (if sql_eqs pk (pk_vals info r) \<and> find_row info rows (pk_vals info r) = None then Some r
     else find_row info rows pk)"
  using find_row_cong [of pk "pk_vals info r" info rows]
  by (auto simp: put_row_def) (auto simp: find_row_def find_append split: option.split)

lemma pk_vals_upd: "col \<notin> ci_name ` set (ti_pks info) \<Longrightarrow> pk_vals info (s(col := v)) = pk_vals info s"
  by (auto simp: pk_vals_def)

lemma find_put_cell:
  assumes "col \<notin> ci_name ` set (ti_pks info)"
  shows "find_row info (put_cell info r col v rows) pk =
    (if sql_eqs pk (pk_vals info r)
     then (case find_row info rows pk of None \<Rightarrow> Some r | Some s \<Rightarrow> Some (s(col := v)))
     else find_row info rows pk)"
proof -
  let ?f = "\<lambda>s. if sql_eqs (pk_vals info r) (pk_vals info s) then s(col := v) else s"
  have "find_row info (map ?f rows) pk = map_option ?f (find_row info rows pk)"
    unfolding find_row_def by (rule find_map_key) (simp add: pk_vals_upd [OF assms])
  moreover have "sql_eqs pk (pk_vals info r) = sql_eqs (pk_vals info r) (pk_vals info s)"
    if "find_row info rows pk = Some s" for s
  proof -
    have eq: "sql_eqs pk (pk_vals info s)" using that by (auto simp: find_row_def find_Some_iff)
    show ?thesis using sql_eqs_cong [OF eq, of "pk_vals info r"] sql_eqs_sym by blast
  qed
  ultimately show ?thesis
    using find_row_cong [of pk "pk_vals info r" info rows]
    by (cases "find_row info rows pk")
       (auto simp: put_cell_def split: if_splits, auto simp: find_row_def find_append)
qed

lemma find_filter_row:
  "find_row info (filter (\<lambda>r. \<not> sql_eqs pk (pk_vals info r)) rows) pk' =
    (if sql_eqs pk' pk then None else find_row info rows pk')"
proof (cases "sql_eqs pk' pk")
  case True
  then have "sql_eqs pk (pk_vals info r)" if "sql_eqs pk' (pk_vals info r)" for r
    using that sql_eqs_sym sql_eqs_trans by blast
  with True show ?thesis unfolding find_row_def by (simp add: find_filter_None)
next
  case False
  then have "\<not> sql_eqs pk (pk_vals info r)" if "sql_eqs pk' (pk_vals info r)" for r
    using that sql_eqs_sym sql_eqs_trans by blast
  with False show ?thesis unfolding find_row_def by (simp add: find_filter_same)
qed

section \<open>The abstract effect\<close>

text \<open>A clock of a column that is not a sentinel belongs to a row that exists, unless it was
  deleted.\<close>

lemma clocked_row:
  assumes "data_parts info rows clocks" and "clock_lookup clocks pk col = Some k"
    and "col \<in> ci_name ` set (ti_nonPks info)"
    and "clock_lookup clocks pk DELETE_CID_SENTINEL = None"
  obtains r where "find_row info rows pk = Some r"
proof -
  have k: "k \<in> set clocks" "ck_col k = col" "sql_eqs pk (ck_pk k)"
    using assms(2) by (auto simp: clock_lookup_def find_Some_iff same_clock_def)
  then have "find_row info rows (ck_pk k) \<noteq> None \<or>
      clock_lookup clocks (ck_pk k) DELETE_CID_SENTINEL \<noteq> None"
    using assms(1,3) by (auto simp: data_parts_def clocked_exists_def list_all_iff)
  with assms(4) k(3) have "find_row info rows pk \<noteq> None"
    using clock_lookup_cong [OF k(3)] find_row_cong [OF k(3)] by metis
  with that show ?thesis by blast
qed

text \<open>The facts about the names that every case uses.\<close>

definition names_ok :: "table_info \<Rightarrow> bool" where
  "names_ok info \<longleftrightarrow> ci_name ` set (ti_pks info) \<inter> ci_name ` set (ti_nonPks info) = {} \<and>
     DELETE_CID_SENTINEL \<notin> ci_name ` set (ti_nonPks info) \<and>
     PKS_ONLY_CID_SENTINEL \<notin> ci_name ` set (ti_nonPks info)"

lemma schema_names_ok: "schema_inv info d \<Longrightarrow> names_ok info"
proof (erule schema_invE)
  fix t
  assume i: "crsql_tableInfo (ti_tblName info) (ut_cols t) = Some info"
    "list_all (\<lambda>k. ci_pk k \<ge> 0) (ut_cols t)" "distinct (map ci_name (ut_cols t))"
    and n: "list_all (\<lambda>k. ci_name k \<notin> {DELETE_CID_SENTINEL, PKS_ONLY_CID_SENTINEL}) (ut_cols t)"
  have "set (ti_nonPks info) \<subseteq> set (ut_cols t)" using tableInfo_parts(2) [OF i(1,2)] by auto
  with n distinct_pk_names(3) [OF i] show "names_ok info"
    by (fastforce simp: names_ok_def list_all_iff)
qed

lemma abs_parts_put_row:
  assumes "data_parts info rows clocks" and "names_ok info" and "not_null (ck_pk k)"
    and "pk_vals info r = ck_pk k" and "ck_col k = PKS_ONLY_CID_SENTINEL"
    and "clock_lookup clocks (ck_pk k) DELETE_CID_SENTINEL = None"
  shows "abs_parts info (put_row info r rows) (clock_replace k clocks) pk =
    (if sql_eqs pk (ck_pk k) then apply_op Row_op (abs_parts info rows clocks pk)
     else abs_parts info rows clocks pk)"
proof -
  note look = lookup_replace [OF assms(3), of clocks]
  note row = find_put_row [of info r rows, unfolded assms(4), OF assms(3)]
  have cols: "col \<noteq> PKS_ONLY_CID_SENTINEL" if "col \<in> ci_name ` set (ti_nonPks info)" for col
    using that assms(2) unfolding names_ok_def by blast
  show ?thesis
  proof (cases "sql_eqs pk (ck_pk k)")
    case False
    with cols show ?thesis by (auto simp: abs_parts_def look row assms(5) fun_eq_iff)
  next
    case True
    have del: "clock_lookup clocks pk DELETE_CID_SENTINEL = None"
      using clock_lookup_cong [OF True] assms(6) by simp
    have "map_option (\<lambda>k. (ck_vrsn k, cell_text (find_row info (put_row info r rows) pk) col))
        (clock_lookup clocks pk col) =
      map_option (\<lambda>k. (ck_vrsn k, cell_text (find_row info rows pk) col)) (clock_lookup clocks pk col)"
      if c: "col \<in> ci_name ` set (ti_nonPks info)" for col
    proof (cases "clock_lookup clocks pk col")
      case (Some j)
      obtain s where "find_row info rows pk = Some s"
        using clocked_row [OF assms(1) Some c del] .
      moreover from this have "find_row info rows (ck_pk k) \<noteq> None"
        using find_row_cong [OF True, of info rows] by simp
      ultimately show ?thesis by (auto simp: row)
    qed simp
    with True del cols show ?thesis
      using find_row_cong [OF True, of info rows]
      by (auto simp: abs_parts_def look row assms(5) fun_eq_iff)
  qed
qed

lemma abs_parts_put_cell:
  assumes "data_parts info rows clocks" and "names_ok info" and "not_null (ck_pk k)"
    and "pk_vals info r = ck_pk k" and "ck_col k \<in> ci_name ` set (ti_nonPks info)"
    and "r (ck_col k) = v" and "clock_lookup clocks (ck_pk k) DELETE_CID_SENTINEL = None"
    and "case clock_lookup clocks (ck_pk k) (ck_col k) of None \<Rightarrow> True
      | Some j \<Rightarrow> wins (ck_vrsn k, quote_val v)
          (ck_vrsn j, cell_text (find_row info rows (ck_pk k)) (ck_col k))"
  shows "abs_parts info (put_cell info r (ck_col k) v rows) (clock_replace k clocks) pk =
    (if sql_eqs pk (ck_pk k)
     then apply_op (Col_op (ck_col k) (ck_vrsn k) (quote_val v)) (abs_parts info rows clocks pk)
     else abs_parts info rows clocks pk)"
proof -
  note look = lookup_replace [OF assms(3), of clocks]
  have "ck_col k \<notin> ci_name ` set (ti_pks info)" using assms(2,5) by (auto simp: names_ok_def)
  note row = find_put_cell [OF this, of r v rows, unfolded assms(4)]
  have del_col: "DELETE_CID_SENTINEL \<noteq> ck_col k" using assms(2,5) by (auto simp: names_ok_def)
  show ?thesis
  proof (cases "sql_eqs pk (ck_pk k)")
    case False
    then show ?thesis by (auto simp: abs_parts_def look row fun_eq_iff)
  next
    case True
    have del: "clock_lookup clocks pk DELETE_CID_SENTINEL = None"
      using clock_lookup_cong [OF True] assms(7) by simp
    let ?rows = "put_cell info r (ck_col k) v rows"
    have new: "find_row info ?rows pk \<noteq> None" "cell_text (find_row info ?rows pk) (ck_col k) = quote_val v"
      using True assms(6) by (auto simp: row cell_text_def split: option.split)
    have other: "map_option (\<lambda>k. (ck_vrsn k, cell_text (find_row info ?rows pk) col))
        (clock_lookup clocks pk col) =
      map_option (\<lambda>k. (ck_vrsn k, cell_text (find_row info rows pk) col)) (clock_lookup clocks pk col)"
      if c: "col \<in> ci_name ` set (ti_nonPks info)" "col \<noteq> ck_col k" for col
    proof (cases "clock_lookup clocks pk col")
      case (Some j)
      obtain s where "find_row info rows pk = Some s"
        using clocked_row [OF assms(1) Some c(1) del] .
      with True c(2) show ?thesis by (simp add: row cell_text_def)
    qed simp
    have "lww (map_option (\<lambda>j. (ck_vrsn j, cell_text (find_row info rows pk) (ck_col k)))
        (clock_lookup clocks pk (ck_col k))) (ck_vrsn k, quote_val v) = (ck_vrsn k, quote_val v)"
      using assms(8) clock_lookup_cong [OF True, of clocks] find_row_cong [OF True, of info rows]
      by (auto simp: lww_def split: option.splits)
    then show ?thesis
      using True del new other assms(5) del_col
      by (auto simp: abs_parts_def look fun_eq_iff)
  qed
qed

lemma abs_parts_delete:
  assumes "not_null (ck_pk k)" and "ck_col k = DELETE_CID_SENTINEL" and "names_ok info"
    and "clock_lookup clocks (ck_pk k) DELETE_CID_SENTINEL = None"
  shows "abs_parts info (filter (\<lambda>r. \<not> sql_eqs (ck_pk k) (pk_vals info r)) rows)
      (clock_replace k clocks) pk =
    (if sql_eqs pk (ck_pk k) then apply_op Delete_op (abs_parts info rows clocks pk)
     else abs_parts info rows clocks pk)"
proof -
  have cols: "col \<noteq> DELETE_CID_SENTINEL" if "col \<in> ci_name ` set (ti_nonPks info)" for col
    using that assms(3) unfolding names_ok_def by blast
  show ?thesis
    using cols clock_lookup_cong [of pk "ck_pk k" clocks DELETE_CID_SENTINEL] assms(4)
    by (auto simp: abs_parts_def lookup_replace [OF assms(1)] find_filter_row assms(2) fun_eq_iff)
qed

section \<open>The invariant of the data\<close>

lemma clocks_distinct_replace:
  "clocks_distinct clocks \<Longrightarrow> clocks_distinct (clock_replace k clocks)"
  using sql_eqs_sym
  by (auto simp: clocks_distinct_def clock_replace_def sorted_wrt_append sorted_wrt_filter same_clock_def)

lemma clocked_exists_replace:
  assumes "clocked_exists info rows clocks" and "not_null (ck_pk k)"
    and "\<And>pk. find_row info rows pk \<noteq> None \<Longrightarrow> find_row info rows' pk \<noteq> None \<or>
      sql_eqs pk (ck_pk k) \<and> ck_col k = DELETE_CID_SENTINEL"
    and "ck_col k \<in> ci_name ` set (ti_nonPks info) \<longrightarrow> find_row info rows' (ck_pk k) \<noteq> None"
  shows "clocked_exists info rows' (clock_replace k clocks)"
proof -
  have "find_row info rows' (ck_pk j) \<noteq> None \<or>
      clock_lookup (clock_replace k clocks) (ck_pk j) DELETE_CID_SENTINEL \<noteq> None"
    if j: "j \<in> set (clock_replace k clocks)" "ck_col j \<in> ci_name ` set (ti_nonPks info)" for j
  proof (cases "j \<in> set clocks")
    case True
    with assms(1) j(2) have "find_row info rows (ck_pk j) \<noteq> None \<or>
        clock_lookup clocks (ck_pk j) DELETE_CID_SENTINEL \<noteq> None"
      by (auto simp: clocked_exists_def list_all_iff)
    with assms(3) [of "ck_pk j"] show ?thesis by (auto simp: lookup_replace [OF assms(2)])
  next
    case False
    with j(1) have "j = k" by (auto simp: clock_replace_def)
    with j(2) assms(4) show ?thesis by simp
  qed
  then show ?thesis unfolding clocked_exists_def list_all_iff by blast
qed

lemma data_parts_replace:
  assumes "data_parts info rows clocks" and "distinct_keys info rows'"
    and "length (ck_pk k) = length (ti_pks info)" and "not_null (ck_pk k)"
    and "\<And>pk. find_row info rows pk \<noteq> None \<Longrightarrow> find_row info rows' pk \<noteq> None \<or>
      sql_eqs pk (ck_pk k) \<and> ck_col k = DELETE_CID_SENTINEL"
    and "ck_col k \<in> ci_name ` set (ti_nonPks info) \<longrightarrow> find_row info rows' (ck_pk k) \<noteq> None"
  shows "data_parts info rows' (clock_replace k clocks)"
proof -
  have "clocked_exists info rows clocks" using assms(1) by (simp add: data_parts_def)
  from clocked_exists_replace [OF this assms(4-6)] clocks_distinct_replace assms(1-4) show ?thesis
    by (auto simp: data_parts_def list_all_iff clock_replace_def)
qed

lemma distinct_put_row:
  assumes "distinct_keys info rows" and "not_null (pk_vals info r)"
  shows "distinct_keys info (put_row info r rows)"
proof (cases "find_row info rows (pk_vals info r)")
  case None
  then have "\<not> sql_eqs (pk_vals info s) (pk_vals info r)" if "s \<in> set rows" for s
    using that sql_eqs_sym by (auto simp: find_row_def find_None_iff)
  with assms None show ?thesis by (auto simp: distinct_keys_def put_row_def sorted_wrt_append)
qed (use assms in \<open>simp add: put_row_def\<close>)

lemma distinct_put_cell:
  assumes "distinct_keys info rows" and "not_null (pk_vals info r)"
    and "col \<notin> ci_name ` set (ti_pks info)"
  shows "distinct_keys info (put_cell info r col v rows)"
proof (cases "find_row info rows (pk_vals info r)")
  case None
  with distinct_put_row [OF assms(1,2)] show ?thesis by (simp add: put_row_def put_cell_def)
next
  case (Some s)
  have pk: "pk_vals info (if b then s(col := v) else s) = pk_vals info s" for b and s :: row
    by (simp add: pk_vals_upd [OF assms(3)])
  from Some assms(1) show ?thesis
    by (auto simp: distinct_keys_def put_cell_def sorted_wrt_map list_all_iff pk pk_vals_upd [OF assms(3)]
        simp del: fun_upd_apply)
qed

lemma distinct_filter: "distinct_keys info rows \<Longrightarrow> distinct_keys info (filter P rows)"
  by (auto simp: distinct_keys_def sorted_wrt_filter list_all_iff)

section \<open>What others can read\<close>

definition good_parts :: "table_info \<Rightarrow> row list \<Rightarrow> clock_row list \<Rightarrow> bool" where
  "good_parts info rows clocks \<longleftrightarrow> good_table info rows clocks \<and> all_clocked info rows clocks"

lemma good_clock_replace:
  assumes "good_clock info rows clocks j" and "not_null (ck_pk k)"
    and "\<And>p. find_row info rows p \<noteq> None \<Longrightarrow> find_row info rows' p \<noteq> None \<or>
      sql_eqs p (ck_pk k) \<and> ck_col k = DELETE_CID_SENTINEL"
  shows "good_clock info rows' (clock_replace k clocks) j"
proof -
  have "clock_lookup (clock_replace k clocks) (ck_pk j) DELETE_CID_SENTINEL \<noteq> None"
    if "find_row info rows' (ck_pk j) = None"
    using that assms(1) assms(3) [of "ck_pk j"] by (auto simp: good_clock_def lookup_replace [OF assms(2)])
  with assms(1) show ?thesis by (simp add: good_clock_def)
qed

lemma good_replace:
  assumes "good_parts info rows clocks" and "distinct_keys info rows'" and "list_all (vals_ok info) rows'"
    and "key_ok info (ck_pk k)"
    and "ck_col k \<in> {DELETE_CID_SENTINEL, PKS_ONLY_CID_SENTINEL} \<union> ci_name ` set (ti_nonPks info)"
    and "case ck_site k of None \<Rightarrow> True | Some b \<Rightarrow> length b \<le> SITE_ID_LEN" and "ck_site k \<noteq> Some [97]"
    and "ck_dbv k > MIN_POSSIBLE_DB_VERSION"
    and "\<And>p. find_row info rows p \<noteq> None \<Longrightarrow> find_row info rows' p \<noteq> None \<or>
      sql_eqs p (ck_pk k) \<and> ck_col k = DELETE_CID_SENTINEL"
    and "ck_col k \<noteq> DELETE_CID_SENTINEL \<Longrightarrow> find_row info rows' (ck_pk k) \<noteq> None"
    and "\<And>r. r \<in> set rows' \<Longrightarrow> sql_eqs (pk_vals info r) (ck_pk k) \<or> (\<exists>r0 \<in> set rows. pk_vals info r0 = pk_vals info r)"
  shows "good_parts info rows' (clock_replace k clocks)"
proof -
  let ?clocks = "clock_replace k clocks"
  have nn: "not_null (ck_pk k)" using assms(4) by (simp add: key_ok_def)
  have old: "good_clock info rows clocks j" if "j \<in> set clocks" for j
    using assms(1) that by (auto simp: good_parts_def good_table_def list_all_iff)
  have new: "good_clock info rows' ?clocks k"
    using assms(4-8,10) sql_eqs_refl [OF nn] by (auto simp: good_clock_def lookup_replace [OF nn])
  have "good_clock info rows' ?clocks j" if j: "j \<in> set ?clocks" for j
  proof (cases "j = k")
    case False
    with j have "j \<in> set clocks" by (auto simp: clock_replace_def)
    from good_clock_replace [OF old [OF this] nn assms(9)] show ?thesis .
  qed (use new in simp)
  then have "good_table info rows' ?clocks"
    using assms(1-3) clocks_distinct_replace by (auto simp: good_parts_def good_table_def list_all_iff)
  moreover have "list_ex (\<lambda>j. sql_eqs (pk_vals info r) (ck_pk j)) ?clocks" if r: "r \<in> set rows'" for r
  proof (cases "sql_eqs (pk_vals info r) (ck_pk k)")
    case False
    with assms(11) [OF r] obtain r0 where "r0 \<in> set rows" "pk_vals info r0 = pk_vals info r" by blast
    then obtain j where j: "j \<in> set clocks" "sql_eqs (pk_vals info r) (ck_pk j)"
      using assms(1) by (auto simp: good_parts_def all_clocked_def list_all_iff list_ex_iff)
    with False have "\<not> same_clock (ck_pk k) (ck_col k) j"
      using sql_eqs_trans [OF j(2)] sql_eqs_sym by (auto simp: same_clock_def)
    with j show ?thesis by (auto simp: clock_replace_def list_ex_iff)
  qed (simp add: clock_replace_def)
  ultimately show ?thesis by (simp add: good_parts_def all_clocked_def list_all_iff)
qed

end
