(* ===== verification/Merge_Refinement.thy ===== *)
theory Merge_Refinement imports Row_States begin

text \<open>
  What merging means, and that the code does it: \<^verbatim>\<open>crsql_mergeInsert\<close> applies to the row of a change
  exactly its abstract operation, leaves every other row alone, and keeps what others rely on when
  they read the table.
\<close>

section \<open>The three kinds of change\<close>

text \<open>\<open>row_step\<close>: one row got one operation, and nothing else changed; what others could read they still
  can, unless the site id that came with the change is the one the filter leaves out.\<close>

definition site_ok :: "blob \<Rightarrow> bool" where
  "site_ok s \<longleftrightarrow> length s \<le> SITE_ID_LEN \<and> s \<noteq> [97]"

definition row_step :: "blob \<Rightarrow> table_info \<Rightarrow> sqlval list \<Rightarrow> row_op \<Rightarrow> conn \<Rightarrow> conn \<Rightarrow> bool" where
  "row_step s info pk opn c c' \<longleftrightarrow> frame c c' \<and>
     (\<exists>f g. db c' = upd_clock (clock_name (ti_tblName info)) g (upd_rows (ti_tblName info) f (db c)) \<and>
       (let rows = user_rows (db c) (ti_tblName info); clocks = clock_rows (db c) (ti_tblName info) in
        data_parts info (f rows) (g clocks) \<and>
        (\<forall>pk'. abs_parts info (f rows) (g clocks) pk' =
          (if sql_eqs pk' pk then apply_op opn (abs_parts info rows clocks pk')
           else abs_parts info rows clocks pk')) \<and>
        (site_ok s \<longrightarrow> dflts_ok info (db c) \<longrightarrow> good_parts info rows clocks \<longrightarrow> good_parts info (f rows) (g clocks))))"

definition mergeable :: "table_info \<Rightarrow> conn \<Rightarrow> bool" where
  "mergeable info c \<longleftrightarrow> conn_ok c \<and> syncBit c = 0 \<and> schema_inv info (db c) \<and> data_inv info (db c)"

lemma upd_rows_id': "upd_rows n (\<lambda>x. x) d = d"
  by (simp add: upd_rows_def option.map_ident)

lemma row_step_refl:
  assumes "mergeable info c"
    and "\<And>pk'. sql_eqs pk' pk \<Longrightarrow> apply_op opn (abs_row info (db c) pk') = abs_row info (db c) pk'"
  shows "row_step s info pk opn c c"
proof -
  let ?n = "ti_tblName info"
  have "db c = upd_clock (clock_name ?n) (\<lambda>x. x) (upd_rows ?n (\<lambda>x. x) (db c))"
    by (simp add: upd_clock_id upd_rows_id')
  moreover have "frame c c" using assms(1) by (simp add: frame_def mergeable_def)
  ultimately show ?thesis
    using assms unfolding row_step_def Let_def
    by (intro conjI exI [of _ "\<lambda>x. x"]) (auto simp: abs_row_def mergeable_def data_inv_def)
qed

lemma conn_ok_sync [simp]: "conn_ok (c\<lparr>syncBit := b\<rparr>) = conn_ok c"
  by (simp add: conn_ok_def ready_def stmts_live_def version_stmt_ok_def current_version_def
      version_cached_def cong: option.case_cong)

text \<open>A statement run with the bit set, and the bit cleared afterwards.\<close>

lemma with_sync_bit:
  assumes "conn_ok c" and "syncBit c = 0"
    and "stmt (c\<lparr>syncBit := 1\<rparr>) = Some (SQLITE_OK, upd_db h (c\<lparr>syncBit := 1\<rparr>))"
  shows "run_exec SET_SYNC_BIT c = (SQLITE_OK, c\<lparr>syncBit := 1\<rparr>)"
    "stmt_text z stmt (c\<lparr>syncBit := 1\<rparr>) = Some (SQLITE_OK, upd_db h (c\<lparr>syncBit := 1\<rparr>))"
    "run_exec CLEAR_SYNC_BIT (upd_db h (c\<lparr>syncBit := 1\<rparr>)) = (SQLITE_OK, upd_db h c)"
proof -
  have f: "faults c = []" using assms(1) by (simp add: conn_ok_def ready_faults)
  then show "run_exec SET_SYNC_BIT c = (SQLITE_OK, c\<lparr>syncBit := 1\<rparr>)" by (simp add: SET_SYNC_BIT_eq)
  show "stmt_text z stmt (c\<lparr>syncBit := 1\<rparr>) = Some (SQLITE_OK, upd_db h (c\<lparr>syncBit := 1\<rparr>))"
    unfolding stmt_text_def using assms(3) f by (intro run_stmt_ok) simp_all
  show "run_exec CLEAR_SYNC_BIT (upd_db h (c\<lparr>syncBit := 1\<rparr>)) = (SQLITE_OK, upd_db h c)"
    using f assms(2) by (simp add: CLEAR_SYNC_BIT_eq upd_db_def)
qed

lemma frame_from_rows [simp]: "frame (upd_db (upd_rows n f) c) c' = frame c c'"
  by (simp add: frame_def)

lemma not_null_key: "key_ok info pk \<Longrightarrow> not_null pk"
  by (simp add: key_ok_def)

text \<open>What a row put into a table does to its keys and values.\<close>

lemma put_row_keys:
  "r' \<in> set (put_row info r rows) \<Longrightarrow> pk_vals info r' = pk_vals info r \<or> (\<exists>r0 \<in> set rows. pk_vals info r0 = pk_vals info r')"
  by (auto simp: put_row_def split: if_splits)

lemma put_row_vals: "list_all (vals_ok info) rows \<Longrightarrow> vals_ok info r \<Longrightarrow> list_all (vals_ok info) (put_row info r rows)"
  by (simp add: put_row_def)

lemma put_cell_keys:
  assumes "col \<notin> ci_name ` set (ti_pks info)" and "r' \<in> set (put_cell info r col v rows)"
  shows "pk_vals info r' = pk_vals info r \<or> (\<exists>r0 \<in> set rows. pk_vals info r0 = pk_vals info r')"
  using assms(2) pk_vals_upd [OF assms(1)] by (auto simp: put_cell_def simp del: fun_upd_apply split: if_splits)

lemma put_cell_vals:
  assumes "list_all (vals_ok info) rows" and "vals_ok info r" and "wf_val v" and "finite_val v"
  shows "list_all (vals_ok info) (put_cell info r col v rows)"
  using assms by (auto simp: put_cell_def vals_ok_def list_all_iff)

text \<open>A write of rows followed by the winner's clock is a step.\<close>

lemma write_and_clock:
  assumes "mergeable info c" and "key_ok info pk"
    and "\<And>k. ck_pk k = pk \<Longrightarrow> ck_col k = col \<Longrightarrow> ck_vrsn k = v \<Longrightarrow>
      data_parts info (f (user_rows (db c) (ti_tblName info)))
        (clock_replace k (clock_rows (db c) (ti_tblName info)))"
    and "\<And>k pk'. ck_pk k = pk \<Longrightarrow> ck_col k = col \<Longrightarrow> ck_vrsn k = v \<Longrightarrow>
      abs_parts info (f (user_rows (db c) (ti_tblName info)))
        (clock_replace k (clock_rows (db c) (ti_tblName info))) pk' =
      (if sql_eqs pk' pk then apply_op opn (abs_row info (db c) pk') else abs_row info (db c) pk')"
    and "\<And>k. ck_pk k = pk \<Longrightarrow> ck_col k = col \<Longrightarrow> ck_dbv k > MIN_POSSIBLE_DB_VERSION \<Longrightarrow>
      (case ck_site k of None \<Rightarrow> True | Some b \<Rightarrow> length b \<le> SITE_ID_LEN) \<Longrightarrow> ck_site k \<noteq> Some [97] \<Longrightarrow>
      dflts_ok info (db c) \<Longrightarrow>
      good_parts info (user_rows (db c) (ti_tblName info)) (clock_rows (db c) (ti_tblName info)) \<Longrightarrow>
      good_parts info (f (user_rows (db c) (ti_tblName info))) (clock_replace k (clock_rows (db c) (ti_tblName info)))"
  shows "\<exists>c'. crsql_setWinnerClock E info (map quote_val pk) col v dbv s
      (upd_db (upd_rows (ti_tblName info) f) c) = Some (SQLITE_OK, c') \<and> row_step s info pk opn c c'"
proof -
  let ?c = "upd_db (upd_rows (ti_tblName info) f) c"
  let ?k = "\<lparr>ck_pk = pk, ck_col = col, ck_vrsn = v, ck_dbv = max (current_version ?c + 1) dbv,
    ck_site = (if s = [] then None else Some s)\<rparr>"
  have "conn_ok ?c" "schema_inv info (db ?c)" using assms(1) by (simp_all add: mergeable_def)
  from setWinnerClock_key [OF this assms(2), of E col v dbv s] obtain c' where
    c': "crsql_setWinnerClock E info (map quote_val pk) col v dbv s ?c = Some (SQLITE_OK, c')"
    "db c' = upd_clock (clock_name (ti_tblName info)) (clock_replace ?k) (db ?c)" "frame ?c c'" by blast
  have "ck_dbv ?k > MIN_POSSIBLE_DB_VERSION" using assms(1) by (auto simp: mergeable_def conn_ok_def less_max_iff_disj)
  then have "row_step s info pk opn c c'"
    unfolding row_step_def Let_def
    using c'(2,3) assms(3-5) [of ?k]
    by (intro conjI exI [of _ f] exI [of _ "clock_replace ?k"]) (simp_all add: abs_row_def site_ok_def)
  with c'(1) show ?thesis by blast
qed

lemma mergeDelete_key:
  assumes "mergeable info c" and "key_ok info pk"
    and "clock_lookup (clock_rows (db c) (ti_tblName info)) pk DELETE_CID_SENTINEL = None"
  shows "\<exists>c'. crsql_mergeDelete E info (key_where info pk) (map quote_val pk) v dbv s c =
    Some (SQLITE_OK, c') \<and> row_step s info pk Delete_op c c'"
proof -
  let ?f = "filter (\<lambda>r. \<not> sql_eqs pk (pk_vals info r))"
  have c: "conn_ok c" "syncBit c = 0" "schema_inv info (db (c\<lparr>syncBit := 1\<rparr>))"
    "syncBit (c\<lparr>syncBit := 1\<rparr>) \<noteq> 0" and d: "data_parts info (user_rows (db c) (ti_tblName info))
      (clock_rows (db c) (ti_tblName info))"
    using assms(1) by (simp_all add: mergeable_def data_inv_def)
  note w = with_sync_bit [where stmt = "delete_where E z (ti_tblName info) (key_where info pk)" for z,
      OF c(1,2) delete_where_key [OF c(3,4) assms(2)]]
  have names: "names_ok info" using c(3) by (rule schema_names_ok)
  have len: "length pk = length (ti_pks info)" "not_null pk" using assms(2) by (simp_all add: key_ok_def)
  have "\<exists>c'. crsql_setWinnerClock E info (map quote_val pk) DELETE_CID_SENTINEL v dbv s
      (upd_db (upd_rows (ti_tblName info) ?f) c) = Some (SQLITE_OK, c') \<and> row_step s info pk Delete_op c c'"
  proof (rule write_and_clock [OF assms(1,2)])
    fix k :: clock_row
    assume k: "ck_pk k = pk" "ck_col k = DELETE_CID_SENTINEL" "ck_vrsn k = v"
    have "distinct_keys info (?f (user_rows (db c) (ti_tblName info)))"
      using d by (intro distinct_filter) (simp add: data_parts_def)
    then show "data_parts info (?f (user_rows (db c) (ti_tblName info)))
        (clock_replace k (clock_rows (db c) (ti_tblName info)))"
      using k len names by (intro data_parts_replace [OF d]) (auto simp: find_filter_row names_ok_def)
    show "abs_parts info (?f (user_rows (db c) (ti_tblName info)))
        (clock_replace k (clock_rows (db c) (ti_tblName info))) pk' =
      (if sql_eqs pk' pk then apply_op Delete_op (abs_row info (db c) pk') else abs_row info (db c) pk')"
      for pk'
      using abs_parts_delete [of k info "clock_rows (db c) (ti_tblName info)"] k assms(3) len(2) names
      by (simp add: abs_row_def)
  next
    fix k :: clock_row
    assume k: "ck_pk k = pk" "ck_col k = DELETE_CID_SENTINEL" "ck_dbv k > MIN_POSSIBLE_DB_VERSION"
      "case ck_site k of None \<Rightarrow> True | Some b \<Rightarrow> length b \<le> SITE_ID_LEN" "ck_site k \<noteq> Some [97]"
      and g: "good_parts info (user_rows (db c) (ti_tblName info)) (clock_rows (db c) (ti_tblName info))"
    have "distinct_keys info (?f (user_rows (db c) (ti_tblName info)))"
      using d by (intro distinct_filter) (simp add: data_parts_def)
    then show "good_parts info (?f (user_rows (db c) (ti_tblName info))) (clock_replace k (clock_rows (db c) (ti_tblName info)))"
      using k g assms(2)
      by (intro good_replace [OF g]) (auto simp: find_filter_row good_parts_def good_table_def list_all_iff)
  qed
  with w show ?thesis by (auto simp: crsql_mergeDelete_def Let_def)
qed

lemma mergePkOnlyInsert_key:
  assumes "mergeable info c" and "key_ok info pk"
    and "clock_lookup (clock_rows (db c) (ti_tblName info)) pk DELETE_CID_SENTINEL = None"
  shows "\<exists>c'. crsql_mergePkOnlyInsert E info (map quote_val pk) v dbv s c = Some (SQLITE_OK, c') \<and>
    row_step s info pk Row_op c c'"
proof -
  have c: "conn_ok c" "syncBit c = 0" "schema_inv info (db (c\<lparr>syncBit := 1\<rparr>))"
    "syncBit (c\<lparr>syncBit := 1\<rparr>) \<noteq> 0" and d: "data_parts info (user_rows (db c) (ti_tblName info))
      (clock_rows (db c) (ti_tblName info))"
    using assms(1) by (simp_all add: mergeable_def data_inv_def)
  have names: "names_ok info" using c(3) by (rule schema_names_ok)
  have len: "length pk = length (ti_pks info)" "not_null pk" using assms(2) by (simp_all add: key_ok_def)
  obtain r where r: "pk_vals info r = pk" and vals: "dflts_ok info (db c) \<longrightarrow> vals_ok info r" and
    ins: "insert_or_ignore E z info (map quote_val pk) (c\<lparr>syncBit := 1\<rparr>) =
      Some (SQLITE_OK, upd_db (upd_rows (ti_tblName info) (put_row info r)) (c\<lparr>syncBit := 1\<rparr>))" for z
    using insert_or_ignore_key [OF c(3,4) assms(2)] by auto
  note w = with_sync_bit [where stmt = "insert_or_ignore E z info (map quote_val pk)" for z, OF c(1,2) ins]
  have "\<exists>c'. crsql_setWinnerClock E info (map quote_val pk) PKS_ONLY_CID_SENTINEL v dbv s
      (upd_db (upd_rows (ti_tblName info) (put_row info r)) c) = Some (SQLITE_OK, c') \<and>
    row_step s info pk Row_op c c'"
  proof (rule write_and_clock [OF assms(1,2)])
    fix k :: clock_row
    assume k: "ck_pk k = pk" "ck_col k = PKS_ONLY_CID_SENTINEL" "ck_vrsn k = v"
    have "distinct_keys info (put_row info r (user_rows (db c) (ti_tblName info)))"
      using d len(2) r by (intro distinct_put_row) (simp_all add: data_parts_def)
    then show "data_parts info (put_row info r (user_rows (db c) (ti_tblName info)))
        (clock_replace k (clock_rows (db c) (ti_tblName info)))"
      using k len names r find_put_row [of info r]
      by (intro data_parts_replace [OF d]) (auto simp: names_ok_def)
    show "abs_parts info (put_row info r (user_rows (db c) (ti_tblName info)))
        (clock_replace k (clock_rows (db c) (ti_tblName info))) pk' =
      (if sql_eqs pk' pk then apply_op Row_op (abs_row info (db c) pk') else abs_row info (db c) pk')"
      for pk'
      using abs_parts_put_row [OF d names, of k r] k r assms(3) len(2) by (simp add: abs_row_def)
  next
    fix k :: clock_row
    assume k: "ck_pk k = pk" "ck_col k = PKS_ONLY_CID_SENTINEL" "ck_dbv k > MIN_POSSIBLE_DB_VERSION"
      "case ck_site k of None \<Rightarrow> True | Some b \<Rightarrow> length b \<le> SITE_ID_LEN" "ck_site k \<noteq> Some [97]"
      and g: "good_parts info (user_rows (db c) (ti_tblName info)) (clock_rows (db c) (ti_tblName info))"
      and dflts: "dflts_ok info (db c)"
    have "distinct_keys info (put_row info r (user_rows (db c) (ti_tblName info)))"
      using d len(2) r by (intro distinct_put_row) (simp_all add: data_parts_def)
    then show "good_parts info (put_row info r (user_rows (db c) (ti_tblName info)))
        (clock_replace k (clock_rows (db c) (ti_tblName info)))"
      using k g assms(2) r vals dflts len(2) find_put_row [of info r] sql_eqs_refl [OF len(2)]
      by (intro good_replace [OF g]) (auto simp: put_row_vals good_parts_def good_table_def dest!: put_row_keys)
  qed
  with w show ?thesis
    by (auto simp: crsql_mergePkOnlyInsert_def Let_def)
qed

text \<open>The local state of a column and whether a change wins over it.\<close>

definition local_cell :: "table_info \<Rightarrow> database \<Rightarrow> sqlval list \<Rightarrow> string \<Rightarrow> (int \<times> string) option" where
  "local_cell info d pk col =
     map_option (\<lambda>k. (ck_vrsn k, cell_text (find_row info (user_rows d (ti_tblName info)) pk) col))
       (clock_lookup (clock_rows d (ti_tblName info)) pk col)"

lemma didCidWin_key:
  assumes "mergeable info c" and "key_ok info pk" and "col \<in> ci_name ` set (ti_nonPks info)"
    and "clock_lookup (clock_rows (db c) (ti_tblName info)) pk DELETE_CID_SENTINEL = None"
  shows "crsql_didCidWin E (ti_tblName info) (key_where info pk) col val v c =
    Some (case local_cell info (db c) pk col of None \<Rightarrow> 1 | Some old \<Rightarrow> if wins (v, val) old then 1 else 0,
      None, c)"
proof -
  have s: "schema_inv info (db c)" "data_inv info (db c)" "faults c = []"
    using assms(1) by (simp_all add: mergeable_def conn_ok_def ready_faults)
  note sel = select_col_version_key [OF s(1) assms(2) data_inv_clock_lens [OF s(2)]]
    select_quoted_key [OF s(1) assms(2,3)]
  show ?thesis
  proof (cases "clock_lookup (clock_rows (db c) (ti_tblName info)) pk col")
    case None
    with s(3) show ?thesis by (simp add: crsql_didCidWin_def sel local_cell_def Let_def)
  next
    case (Some k)
    obtain r where r: "find_row info (user_rows (db c) (ti_tblName info)) pk = Some r"
      using clocked_row [OF s(2) [unfolded data_inv_def] Some assms(3,4)] .
    show ?thesis
      using Some r s(3)
      by (auto simp: crsql_didCidWin_def sel local_cell_def Let_def column_int64_def column_text_def
          wins_def cell_text_def)
  qed
qed

lemma local_cell_abs:
  assumes "col \<in> ci_name ` set (ti_nonPks info)" and "sql_eqs pk' pk"
    and "clock_lookup (clock_rows d (ti_tblName info)) pk DELETE_CID_SENTINEL = None"
  shows "\<exists>m. abs_row info d pk' = Alive (find_row info (user_rows d (ti_tblName info)) pk \<noteq> None) m \<and>
    m col = local_cell info d pk col"
  using assms clock_lookup_cong [OF assms(2)] find_row_cong [OF assms(2)]
  by (simp add: abs_row_def abs_parts_def local_cell_def)

lemma lost_column_step:
  assumes "mergeable info c" and "col \<in> ci_name ` set (ti_nonPks info)"
    and "clock_lookup (clock_rows (db c) (ti_tblName info)) pk DELETE_CID_SENTINEL = None"
    and "local_cell info (db c) pk col = Some old" and "\<not> wins (v, val) old"
  shows "row_step s info pk (Col_op col v val) c c"
proof (rule row_step_refl [OF assms(1)])
  fix pk'
  assume "sql_eqs pk' pk"
  with local_cell_abs [OF assms(2) _ assms(3)] obtain m where
    m: "abs_row info (db c) pk' =
      Alive (find_row info (user_rows (db c) (ti_tblName info)) pk \<noteq> None) m" "m col = Some old"
    using assms(4) by auto
  obtain k where "clock_lookup (clock_rows (db c) (ti_tblName info)) pk col = Some k"
    using assms(4) by (auto simp: local_cell_def)
  moreover have "data_parts info (user_rows (db c) (ti_tblName info)) (clock_rows (db c) (ti_tblName info))"
    using assms(1) by (simp add: mergeable_def data_inv_def)
  ultimately obtain r where "find_row info (user_rows (db c) (ti_tblName info)) pk = Some r"
    using clocked_row assms(2,3) by blast
  with m assms(5) show "apply_op (Col_op col v val) (abs_row info (db c) pk') = abs_row info (db c) pk'"
    by (simp add: lww_def fun_upd_idem)
qed

lemma splitQuoteConcat_value:
  assumes "wf_val x" and "finite_val x"
  shows "crsql_splitQuoteConcat (quote_val x) 1 = Some [quote_val x]"
  using split_key_text [of "[x]"] assms by (simp add: key_vals_ok_def key_text_def)

lemma merge_column_key:
  assumes "mergeable info c" and "key_ok info pk" and "col \<in> ci_name ` set (ti_nonPks info)"
    and "clock_lookup (clock_rows (db c) (ti_tblName info)) pk DELETE_CID_SENTINEL = None"
    and "wf_val x" and "finite_val x"
  shows "\<exists>r. merge_column E info (key_where info pk) (map quote_val pk) col (Some (quote_val x)) v dbv s sp c =
      Some r \<and> mr_rc r = SQLITE_OK \<and> mr_errmsg r = None \<and> mr_peers r = sp \<and>
    row_step s info pk (Col_op col v (quote_val x)) c (mr_conn r)"
proof -
  note win = didCidWin_key [OF assms(1-4), of E "quote_val x" v]
  have split: "crsql_splitQuoteConcat (quote_val x) (Suc 0) = Some [quote_val x]"
    using splitQuoteConcat_value [OF assms(5,6)] by simp
  show ?thesis
  proof (cases "case local_cell info (db c) pk col of None \<Rightarrow> False | Some old \<Rightarrow> \<not> wins (v, quote_val x) old")
    case True
    then obtain old where "local_cell info (db c) pk col = Some old" "\<not> wins (v, quote_val x) old"
      by (auto split: option.splits)
    with lost_column_step [OF assms(1,3,4) this] show ?thesis
      by (simp add: merge_column_def split win merged_def)
  next
    case False
    have c: "conn_ok c" "syncBit c = 0" "schema_inv info (db (c\<lparr>syncBit := 1\<rparr>))"
      "syncBit (c\<lparr>syncBit := 1\<rparr>) \<noteq> 0" and d: "data_parts info (user_rows (db c) (ti_tblName info))
        (clock_rows (db c) (ti_tblName info))"
      using assms(1) by (simp_all add: mergeable_def data_inv_def)
    have names: "names_ok info" using c(3) by (rule schema_names_ok)
    have len: "length pk = length (ti_pks info)" "not_null pk" using assms(2) by (simp_all add: key_ok_def)
    obtain r where r: "pk_vals info r = pk" "r col = x" and vals: "dflts_ok info (db c) \<longrightarrow> vals_ok info r" and
      ups: "upsert_value E z info (map quote_val pk) col (quote_val x) (c\<lparr>syncBit := 1\<rparr>) =
        Some (SQLITE_OK, upd_db (upd_rows (ti_tblName info) (put_cell info r col x)) (c\<lparr>syncBit := 1\<rparr>))" for z
      using upsert_value_key [OF c(3,4) assms(2,3,5,6)] by auto
    note w = with_sync_bit [where stmt = "upsert_value E z info (map quote_val pk) col (quote_val x)" for z,
        OF c(1,2) ups]
    have "\<exists>c'. crsql_setWinnerClock E info (map quote_val pk) col v dbv s
        (upd_db (upd_rows (ti_tblName info) (put_cell info r col x)) c) = Some (SQLITE_OK, c') \<and>
      row_step s info pk (Col_op col v (quote_val x)) c c'"
    proof (rule write_and_clock [OF assms(1,2)])
      fix k :: clock_row
      assume k: "ck_pk k = pk" "ck_col k = col" "ck_vrsn k = v"
      have notpk: "col \<notin> ci_name ` set (ti_pks info)" using names assms(3) by (auto simp: names_ok_def)
      have "distinct_keys info (put_cell info r col x (user_rows (db c) (ti_tblName info)))"
        using d len(2) r notpk by (intro distinct_put_cell) (simp_all add: data_parts_def)
      then show "data_parts info (put_cell info r col x (user_rows (db c) (ti_tblName info)))
          (clock_replace k (clock_rows (db c) (ti_tblName info)))"
        using k len names r find_put_cell [OF notpk, of r x] sql_eqs_refl [OF len(2)]
        by (intro data_parts_replace [OF d]) (auto simp: names_ok_def split: option.split)
      have "case clock_lookup (clock_rows (db c) (ti_tblName info)) (ck_pk k) (ck_col k) of None \<Rightarrow> True
        | Some j \<Rightarrow> wins (ck_vrsn k, quote_val x) (ck_vrsn j, cell_text
            (find_row info (user_rows (db c) (ti_tblName info)) (ck_pk k)) (ck_col k))"
        using False k by (auto simp: local_cell_def split: option.splits)
      from abs_parts_put_cell [OF d names _ _ _ _ _ this, of r] k r assms(3,4) len(2)
      show "abs_parts info (put_cell info r col x (user_rows (db c) (ti_tblName info)))
          (clock_replace k (clock_rows (db c) (ti_tblName info))) pk' =
        (if sql_eqs pk' pk then apply_op (Col_op col v (quote_val x)) (abs_row info (db c) pk')
         else abs_row info (db c) pk')" for pk'
        by (simp add: abs_row_def)
    next
      fix k :: clock_row
      assume k: "ck_pk k = pk" "ck_col k = col" "ck_dbv k > MIN_POSSIBLE_DB_VERSION"
        "case ck_site k of None \<Rightarrow> True | Some b \<Rightarrow> length b \<le> SITE_ID_LEN" "ck_site k \<noteq> Some [97]"
        and g: "good_parts info (user_rows (db c) (ti_tblName info)) (clock_rows (db c) (ti_tblName info))"
        and dflts: "dflts_ok info (db c)"
      have notpk: "col \<notin> ci_name ` set (ti_pks info)" using names assms(3) by (auto simp: names_ok_def)
      have keys: "sql_eqs (pk_vals info ra) (ck_pk k) \<or> (\<exists>r0 \<in> set (user_rows (db c) (ti_tblName info)). pk_vals info r0 = pk_vals info ra)"
        if "ra \<in> set (put_cell info r col x (user_rows (db c) (ti_tblName info)))" for ra
        using put_cell_keys [OF notpk that] k(1) r(1) sql_eqs_refl [OF len(2)] by auto
      have "distinct_keys info (put_cell info r col x (user_rows (db c) (ti_tblName info)))"
        using d len(2) r notpk by (intro distinct_put_cell) (simp_all add: data_parts_def)
      then show "good_parts info (put_cell info r col x (user_rows (db c) (ti_tblName info)))
          (clock_replace k (clock_rows (db c) (ti_tblName info)))"
        using k g assms(2,3,5,6) r vals dflts find_put_cell [OF notpk, of r x] sql_eqs_refl [OF len(2)]
        by (intro good_replace [OF g _ _ _ _ _ _ _ _ _ keys])
          (auto simp: put_cell_vals good_parts_def good_table_def split: option.split)
    qed
    moreover have "crsql_didCidWin E (ti_tblName info) (key_where info pk) col (quote_val x) v c =
        Some (1, None, c)"
      using False win by (auto split: option.splits)
    ultimately show ?thesis
      using w by (auto simp: merge_column_def split Let_def)
  qed
qed

section \<open>Changes of well-behaved peers\<close>

text \<open>A change as another replica sends it: the key and the value are printed by \<^verbatim>\<open>quote()\<close>.\<close>

record msg =
  ms_info :: table_info
  ms_pk :: "sqlval list"
  ms_cid :: string
  ms_val :: sqlval
  ms_vrsn :: int
  ms_dbv :: int
  ms_site :: blob

definition encode :: "msg \<Rightarrow> change" where
  "encode m = \<lparr>ch_tbl = Some (ti_tblName (ms_info m)), ch_pk = Some (key_text (ms_pk m)),
     ch_cid = Some (ms_cid m), ch_val = Some (quote_val (ms_val m)), ch_col_vrsn = ms_vrsn m,
     ch_db_vrsn = ms_dbv m, ch_site = ms_site m\<rparr>"

definition op_of :: "msg \<Rightarrow> row_op" where
  "op_of m =
     (if ms_cid m = DELETE_CID_SENTINEL then Delete_op
      else if ms_cid m \<notin> ci_name ` set (ti_nonPks (ms_info m)) then Row_op
      else Col_op (ms_cid m) (ms_vrsn m) (quote_val (ms_val m)))"

definition msg_ok :: "table_info list \<Rightarrow> msg \<Rightarrow> bool" where
  "msg_ok ts m \<longleftrightarrow> ms_info m \<in> set ts \<and> key_ok (ms_info m) (ms_pk m) \<and>
     wf_val (ms_val m) \<and> finite_val (ms_val m) \<and> length (ti_tblName (ms_info m)) \<le> MAX_TBL_NAME_LEN \<and>
     length (ms_cid m) \<le> MAX_TBL_NAME_LEN \<and> length (ms_site m) \<le> SITE_ID_LEN"

type_synonym abs_db = "string \<Rightarrow> sqlval list \<Rightarrow> row_state"

definition abs_of :: "table_info list \<Rightarrow> database \<Rightarrow> abs_db" where
  "abs_of ts d tbl pk =
     (case crsql_findTableInfo ts tbl of None \<Rightarrow> Dead | Some info \<Rightarrow> abs_row info d pk)"

lemma abs_of_peers [simp]: "abs_of ts (db_peers_update f d) = abs_of ts d"
  by (simp add: abs_of_def abs_row_def user_rows_def clock_rows_def fun_eq_iff cong: option.case_cong)

definition apply_msg :: "msg \<Rightarrow> abs_db \<Rightarrow> abs_db" where
  "apply_msg m A tbl pk =
     (if tbl = ti_tblName (ms_info m) \<and> sql_eqs pk (ms_pk m) then apply_op (op_of m) (A tbl pk)
      else A tbl pk)"

text \<open>A connection whose cached descriptions, tables and clocks are as they should be.\<close>

definition replica :: "table_info list \<Rightarrow> conn \<Rightarrow> bool" where
  "replica ts c \<longleftrightarrow> conn_ok c \<and> syncBit c = 0 \<and> infos_inv c \<and> current_infos (db c) = Some ts \<and>
     cols_ok (db c) \<and> distinct (map ti_tblName ts) \<and>
     list_all (\<lambda>info. schema_inv info (db c) \<and> data_inv info (db c)) ts"

lemma findTableInfo_distinct:
  "distinct (map ti_tblName ts) \<Longrightarrow> info \<in> set ts \<Longrightarrow>
     crsql_findTableInfo ts (ti_tblName info) = Some info"
  by (induction ts) (auto simp: crsql_findTableInfo_def strcmp_0_iff)

text \<open>The key of a change as the statements have it, and the check for a deletion of the row.\<close>

lemma key_parts:
  assumes "key_ok info pk"
  shows "where_pairs (ti_pks info) (key_text pk) = Some (key_where info pk)"
    "crsql_splitQuoteConcat (key_text pk) (length (ti_pks info)) = Some (map quote_val pk)"
proof -
  have "key_vals_ok pk" "length pk = length (ti_pks info)" using assms by (simp_all add: key_ok_def)
  then show "where_pairs (ti_pks info) (key_text pk) = Some (key_where info pk)"
    "crsql_splitQuoteConcat (key_text pk) (length (ti_pks info)) = Some (map quote_val pk)"
    using where_pairs_key_text [of pk "ti_pks info"] split_key_text [of pk] by (simp_all add: key_where_def)
qed

lemma local_delete_check:
  assumes "mergeable info c" and "key_ok info pk"
  shows "crsql_checkForLocalDelete E (ti_tblName info) (key_where info pk) c =
    (if clock_lookup (clock_rows (db c) (ti_tblName info)) pk DELETE_CID_SENTINEL \<noteq> None then -1 else SQLITE_OK, c)"
proof -
  have "schema_inv info (db c)" "data_inv info (db c)" "faults c = []"
    using assms(1) by (simp_all add: mergeable_def conn_ok_def ready_faults)
  then show ?thesis
    by (simp add: crsql_checkForLocalDelete_def count_clock_key [OF _ assms(2)] column_int64_def Let_def)
qed

lemma merge_row_key:
  assumes "mergeable (ms_info m) c" and "msg_ok ts m"
  shows "\<exists>r. merge_row E (ms_info m) (encode m) sp c = Some r \<and> mr_rc r = SQLITE_OK \<and>
    mr_errmsg r = None \<and> mr_peers r = sp \<and> row_step (ms_site m) (ms_info m) (ms_pk m) (op_of m) c (mr_conn r)"
proof -
  let ?info = "ms_info m" and ?pk = "ms_pk m"
  have key: "key_ok ?info ?pk" and val: "wf_val (ms_val m)" "finite_val (ms_val m)"
    using assms(2) by (simp_all add: msg_ok_def)
  let ?dead = "clock_lookup (clock_rows (db c) (ti_tblName ?info)) ?pk DELETE_CID_SENTINEL \<noteq> None"
  note parts = key_parts [OF key] and check = local_delete_check [OF assms(1) key]
  note simps = merge_row_def encode_def parts check op_of_def merged_def strcmp_0_iff columnExists_iff
  show ?thesis
  proof (cases ?dead)
    case True
    have "abs_row ?info (db c) pk = Dead" if "sql_eqs pk ?pk" for pk
      using True clock_lookup_cong [OF that] by (simp add: abs_row_def abs_parts_def)
    then have "row_step (ms_site m) ?info ?pk (op_of m) c c" by (intro row_step_refl [OF assms(1)]) simp
    with True show ?thesis by (simp add: simps)
  next
    case False
    consider "ms_cid m = DELETE_CID_SENTINEL"
      | "ms_cid m \<noteq> DELETE_CID_SENTINEL" "ms_cid m \<notin> ci_name ` set (ti_nonPks ?info)"
      | "ms_cid m \<noteq> DELETE_CID_SENTINEL" "ms_cid m \<in> ci_name ` set (ti_nonPks ?info)"
      by argo
    then show ?thesis
    proof cases
      case 1
      obtain c' where "crsql_mergeDelete E ?info (key_where ?info ?pk) (map quote_val ?pk) (ms_vrsn m)
          (ms_dbv m) (ms_site m) c = Some (SQLITE_OK, c')" "row_step (ms_site m) ?info ?pk Delete_op c c'"
        using mergeDelete_key [OF assms(1) key] False by blast
      with 1 False show ?thesis by (simp add: simps)
    next
      case 2
      obtain c' where "crsql_mergePkOnlyInsert E ?info (map quote_val ?pk) (ms_vrsn m)
          (ms_dbv m) (ms_site m) c = Some (SQLITE_OK, c')" "row_step (ms_site m) ?info ?pk Row_op c c'"
        using mergePkOnlyInsert_key [OF assms(1) key] False by blast
      with 2 False show ?thesis by (simp add: simps)
    next
      case 3
      obtain r where "merge_column E ?info (key_where ?info ?pk) (map quote_val ?pk) (ms_cid m)
          (Some (quote_val (ms_val m))) (ms_vrsn m) (ms_dbv m) (ms_site m) sp c = Some r"
        "mr_rc r = SQLITE_OK \<and> mr_errmsg r = None \<and> mr_peers r = sp \<and>
         row_step (ms_site m) ?info ?pk (Col_op (ms_cid m) (ms_vrsn m) (quote_val (ms_val m))) c (mr_conn r)"
        using merge_column_key [OF assms(1) key 3(2) _ val] False by blast
      moreover have "ms_cid m \<noteq> PKS_ONLY_CID_SENTINEL"
        using 3(2) schema_names_ok assms(1) unfolding names_ok_def mergeable_def by metis
      ultimately show ?thesis using 3 False by (simp add: simps)
    qed
  qed
qed

section \<open>The whole merge\<close>

lemma only_infos_conn_ok:
  "only_infos c c' \<Longrightarrow> conn_ok c' = conn_ok c \<and> current_version c' = current_version c"
  by (auto simp: only_infos_def conn_ok_def ready_def stmts_live_def version_stmt_ok_def
      current_version_def version_cached_def split: option.splits)

lemma pragma_table_info_upd [simp]:
  "pragma_table_info (upd_clock n g d) tbl = pragma_table_info d tbl"
  "pragma_table_info (upd_rows n f d) tbl = pragma_table_info d tbl"
  by (auto simp: pragma_table_info_def split: option.splits)

lemma select_upd_rows [simp]: "clock_tables_select (upd_rows n f d) = clock_tables_select d"
  by (simp add: clock_tables_select_def)

lemma base_info_upd [simp]:
  "base_info (upd_clock n g d) = base_info d" "base_info (upd_rows n f d) = base_info d"
  by (auto simp: base_info_def Let_def fun_eq_iff)

lemma infos_upd [simp]:
  "current_infos (upd_clock n g d) = current_infos d" "cols_ok (upd_clock n g d) = cols_ok d"
  "current_infos (upd_rows n f d) = current_infos d" "cols_ok (upd_rows n f d) = cols_ok d"
  by (simp_all add: current_infos_def cols_ok_def)

lemma tables_upd_other:
  assumes "tbl \<noteq> n"
  shows "user_rows (upd_clock m g (upd_rows n f d)) tbl = user_rows d tbl"
    "clock_rows (upd_clock (clock_name n) g (upd_rows m f d)) tbl = clock_rows d tbl"
  using assms by (simp_all add: user_rows_def clock_rows_def clock_name_def)

text \<open>A write of one table that keeps its invariants leaves a replica a replica and the states of the
  other tables alone.\<close>

lemma table_write_replica:
  assumes "replica ts c" and "info \<in> set ts" and "frame c c'"
    and "db c' = upd_clock (clock_name (ti_tblName info)) g (upd_rows (ti_tblName info) f (db c))"
    and "data_parts info (f (user_rows (db c) (ti_tblName info))) (g (clock_rows (db c) (ti_tblName info)))"
  shows "replica ts c'" and "j \<in> set ts \<Longrightarrow> abs_row j (db c') pk' =
    (if ti_tblName j = ti_tblName info
     then abs_parts info (f (user_rows (db c) (ti_tblName info))) (g (clock_rows (db c) (ti_tblName info))) pk'
     else abs_row j (db c) pk')"
proof -
  let ?n = "ti_tblName info"
  have inv: "schema_inv j (db c)" "data_inv j (db c)" if "j \<in> set ts" for j
    using assms(1) that by (auto simp: replica_def list_all_iff)
  have tabs: "db_user (db c) ?n \<noteq> None" "db_clock (db c) (clock_name ?n) \<noteq> None"
    using inv(1) [OF assms(2)] by (auto elim: schema_invE)
  have rows: "user_rows (db c') ?n = f (user_rows (db c) ?n)"
    "clock_rows (db c') ?n = g (clock_rows (db c) ?n)"
    using tabs by (simp_all add: assms(4) clock_rows_upd_clock)
  have other: "user_rows (db c') tbl = user_rows (db c) tbl" "clock_rows (db c') tbl = clock_rows (db c) tbl"
    if "tbl \<noteq> ?n" for tbl
    using tables_upd_other [OF that] by (simp_all add: assms(4))
  have same: "j = info" if "j \<in> set ts" "ti_tblName j = ?n" for j
  proof -
    have "distinct (map ti_tblName ts)" using assms(1) by (simp add: replica_def)
    with that assms(2) show ?thesis by (auto simp: distinct_map dest: inj_onD)
  qed
  have data: "data_inv j (db c')" if "j \<in> set ts" for j
    using inv(2) [OF that] same [OF that] assms(5)
    by (cases "ti_tblName j = ?n") (auto simp: data_inv_def rows other)
  have "schema_inv j (db c')" if "j \<in> set ts" for j
    using inv(1) [OF that] by (simp add: assms(4))
  moreover have "infos_inv c'"
    using assms(1,3) by (auto simp: replica_def infos_inv_def frame_def assms(4) split: ptr.splits)
  ultimately show "replica ts c'"
    using assms(1,3) data unfolding replica_def list_all_iff by (auto simp: frame_def assms(4))
  show "j \<in> set ts \<Longrightarrow> abs_row j (db c') pk' =
    (if ti_tblName j = ?n then abs_parts info (f (user_rows (db c) ?n)) (g (clock_rows (db c) ?n)) pk'
     else abs_row j (db c) pk')"
    using same [of j] by (cases "ti_tblName j = ?n") (auto simp: abs_row_def rows other)
qed

text \<open>Tables others can read; the names are those the query for changes needs.\<close>

definition names_free :: "table_info \<Rightarrow> database \<Rightarrow> bool" where
  "names_free info d \<longleftrightarrow>
     (case (db_user d (ti_tblName info), db_clock d (clock_name (ti_tblName info))) of
        (Some t, Some ct) \<Rightarrow>
          find_col (ct_pks ct) ''site_id'' = None \<and> find_col (ct_pks ct) ''db_vrsn'' = None \<and>
          find_col (map ci_name (ut_cols t)) PKS_ONLY_CID_SENTINEL = None
      | _ \<Rightarrow> False) \<and>
     length (ti_tblName info) \<le> MAX_TBL_NAME_LEN \<and>
     list_all (\<lambda>col. length (ci_name col) \<le> MAX_TBL_NAME_LEN) (ti_nonPks info)"

lemma names_free_upd [simp]:
  "names_free info (upd_rows n f d) = names_free info d" "names_free info (upd_clock n g d) = names_free info d"
  by (auto simp: names_free_def split: option.splits)

definition open_tables :: "table_info list \<Rightarrow> database \<Rightarrow> bool" where
  "open_tables ts d \<longleftrightarrow> list_all (\<lambda>info. names_free info d \<and>
     good_parts info (user_rows d (ti_tblName info)) (clock_rows d (ti_tblName info))) ts"

definition dflts_all :: "table_info list \<Rightarrow> database \<Rightarrow> bool" where
  "dflts_all ts d \<longleftrightarrow> list_all (\<lambda>info. dflts_ok info d) ts"

lemma dflts_all_upd [simp]: "dflts_all ts (upd_clock m g (upd_rows n f d)) = dflts_all ts d"
  by (simp add: dflts_all_def)

lemma table_write_open:
  assumes "replica ts c" and "info \<in> set ts" and "open_tables ts (db c)"
    and "db c' = upd_clock (clock_name (ti_tblName info)) g (upd_rows (ti_tblName info) f (db c))"
    and "good_parts info (f (user_rows (db c) (ti_tblName info))) (g (clock_rows (db c) (ti_tblName info)))"
  shows "open_tables ts (db c')"
proof -
  let ?n = "ti_tblName info"
  have schema: "schema_inv info (db c)" and names: "distinct (map ti_tblName ts)"
    using assms(1,2) by (auto simp: replica_def list_all_iff)
  have "db_user (db c) ?n \<noteq> None" "db_clock (db c) (clock_name ?n) \<noteq> None"
    using schema by (auto elim: schema_invE)
  then have rows: "user_rows (db c') ?n = f (user_rows (db c) ?n)" "clock_rows (db c') ?n = g (clock_rows (db c) ?n)"
    by (simp_all add: assms(4) clock_rows_upd_clock)
  have "names_free j (db c') \<and> good_parts j (user_rows (db c') (ti_tblName j)) (clock_rows (db c') (ti_tblName j))"
    if j: "j \<in> set ts" for j
  proof (cases "ti_tblName j = ?n")
    case True
    then have "j = info" using names assms(2) j by (auto simp: distinct_map dest: inj_onD)
    then show ?thesis using assms(3,5) j rows by (auto simp: open_tables_def list_all_iff assms(4))
  next
    case False
    then show ?thesis
      using tables_upd_other [OF False] assms(3) j by (auto simp: open_tables_def list_all_iff assms(4))
  qed
  then show ?thesis by (simp add: open_tables_def list_all_iff)
qed

lemma row_step_open:
  assumes "replica ts c" and "info \<in> set ts" and "row_step s info pk opn c c'" and "site_ok s" and "dflts_all ts (db c)"
  shows "dflts_all ts (db c')" and "open_tables ts (db c) \<Longrightarrow> open_tables ts (db c')"
proof -
  let ?n = "ti_tblName info"
  obtain f g where fg: "db c' = upd_clock (clock_name ?n) g (upd_rows ?n f (db c))"
    "site_ok s \<longrightarrow> dflts_ok info (db c) \<longrightarrow> good_parts info (user_rows (db c) ?n) (clock_rows (db c) ?n) \<longrightarrow>
      good_parts info (f (user_rows (db c) ?n)) (g (clock_rows (db c) ?n))"
    using assms(3) by (auto simp: row_step_def Let_def)
  show "dflts_all ts (db c')" using assms(5) by (simp add: fg(1))
  assume o: "open_tables ts (db c)"
  then have "good_parts info (f (user_rows (db c) ?n)) (g (clock_rows (db c) ?n))"
    using fg(2) assms(2,4,5) by (auto simp: open_tables_def dflts_all_def list_all_iff)
  then show "open_tables ts (db c')" by (rule table_write_open [OF assms(1,2) o fg(1)])
qed

lemma row_step_replica:
  assumes "replica ts c" and "info \<in> set ts" and "row_step s info pk opn c c'"
  shows "replica ts c'" and "j \<in> set ts \<Longrightarrow> abs_row j (db c') pk' =
    (if ti_tblName j = ti_tblName info \<and> sql_eqs pk' pk then apply_op opn (abs_row j (db c) pk')
     else abs_row j (db c) pk')"
proof -
  let ?n = "ti_tblName info"
  obtain f g where fg: "db c' = upd_clock (clock_name ?n) g (upd_rows ?n f (db c))"
    "data_parts info (f (user_rows (db c) ?n)) (g (clock_rows (db c) ?n))"
    "\<And>pk'. abs_parts info (f (user_rows (db c) ?n)) (g (clock_rows (db c) ?n)) pk' =
      (if sql_eqs pk' pk then apply_op opn (abs_row info (db c) pk') else abs_row info (db c) pk')"
    and fr: "frame c c'"
    using assms(3) by (auto simp: row_step_def Let_def abs_row_def)
  note w = table_write_replica [OF assms(1,2) fr fg(1,2)]
  show "replica ts c'" by (rule w(1))
  have "distinct (map ti_tblName ts)" using assms(1) by (simp add: replica_def)
  then have "j \<in> set ts \<Longrightarrow> ti_tblName j = ?n \<Longrightarrow> j = info"
    using assms(2) by (auto simp: distinct_map dest: inj_onD)
  then show "j \<in> set ts \<Longrightarrow> abs_row j (db c') pk' =
    (if ti_tblName j = ?n \<and> sql_eqs pk' pk then apply_op opn (abs_row j (db c) pk')
     else abs_row j (db c) pk')"
    using w(2) [of j pk'] fg(3) [of pk'] by auto
qed

text \<open>What no merge touches: the schema, the stored peers, the transaction and the site.\<close>

definition keeps :: "conn \<Rightarrow> conn \<Rightarrow> bool" where
  "keeps c c' \<longleftrightarrow> same_tx c c' \<and> db_master (db c') = db_master (db c) \<and>
     db_schema_version (db c') = db_schema_version (db c) \<and> db_peers (db c') = db_peers (db c) \<and>
     db_site_ids (db c') = db_site_ids (db c) \<and> pTrackPeersStmt (ext c') = pTrackPeersStmt (ext c) \<and>
     siteId (ext c') = siteId (ext c)"

lemma keeps_refl: "keeps c c"
  by (simp add: keeps_def)

lemma keeps_trans: "keeps a b \<Longrightarrow> keeps b c \<Longrightarrow> keeps a c"
  by (simp add: keeps_def)

lemma row_step_keeps: "row_step s info pk opn c c' \<Longrightarrow> keeps c c'"
  by (auto simp: row_step_def keeps_def frame_def upd_rows_def upd_clock_def)

lemma only_infos_keeps: "only_infos c c' \<Longrightarrow> keeps c c'"
  by (auto simp: only_infos_def keeps_def)

text \<open>The refinement: on canonical changes \<open>crsql_mergeInsert\<close> is \<open>apply_msg\<close>.\<close>

definition merge_ok :: "table_info list \<Rightarrow> msg \<Rightarrow> seen_peers \<Rightarrow> conn \<Rightarrow> merge_result option \<Rightarrow> bool" where
  "merge_ok ts m sp c res \<longleftrightarrow>
     (case res of None \<Rightarrow> False
      | Some r \<Rightarrow> mr_rc r = SQLITE_OK \<and> mr_errmsg r = None \<and>
          replica ts (mr_conn r) \<and> keeps c (mr_conn r) \<and> abs_of ts (db (mr_conn r)) = apply_msg m (abs_of ts (db c)) \<and>
          peers_inv (mr_peers r) \<and>
          (site_ok (ms_site m) \<longrightarrow> dflts_all ts (db c) \<longrightarrow> dflts_all ts (db (mr_conn r)) \<and>
            (open_tables ts (db c) \<longrightarrow> open_tables ts (db (mr_conn r)))) \<and>
          seen (mr_peers r) = (seen sp)(ms_site m := max_opt (seen sp (ms_site m)) (Some (ms_dbv m))))"

text \<open>What leads to the row: the cached descriptions are brought up to date and the sender is recorded.\<close>

lemma mergeInsert_row:
  assumes "replica ts c" and "msg_ok ts m" and "peers_inv sp"
  shows "\<exists>c1 sp'. crsql_mergeInsert E True (encode m) sp c = merge_row E (ms_info m) (encode m) sp' c1 \<and>
    replica ts c1 \<and> mergeable (ms_info m) c1 \<and> only_infos c c1 \<and> db c1 = db c \<and> current_version c1 = current_version c \<and>
    peers_inv sp' \<and> seen sp' = (seen sp)(ms_site m := max_opt (seen sp (ms_site m)) (Some (ms_dbv m)))"
proof -
  let ?info = "ms_info m"
  have info: "?info \<in> set ts" using assms(2) by (simp add: msg_ok_def)
  have c: "conn_ok c" "infos_inv c" "current_infos (db c) = Some ts" "cols_ok (db c)" "syncBit c = 0"
    using assms(1) by (simp_all add: replica_def)
  then have "ready c" by (simp add: conn_ok_def)
  then have "faults c = []" "stmts_live c" "names_short (db c)" "clock_tables_select (db c) \<noteq> []"
    using c(3) info by (auto simp: ready_def clocks_ok_def current_infos_def)
  then obtain c1 where ens: "crsql_ensureTableInfosAreUpToDate c = Some (SQLITE_OK, None, c1)"
    and zp: "zpTableInfos (ext c1) = Live ts" "tableInfosLen (ext c1) = length ts" "infos_inv c1"
    and only: "only_infos c c1"
    using ensure_up_to_date_aux [of c ts] c by blast
  have db1: "db c1 = db c" "syncBit c1 = 0" using only c(5) by (simp_all add: only_infos_def)
  have r1: "replica ts c1"
    using assms(1) zp(3) only_infos_conn_ok [OF only] db1 by (simp add: replica_def)
  have "crsql_findTableInfo ts (ti_tblName ?info) = Some ?info"
    using assms(1) info by (intro findTableInfo_distinct) (simp_all add: replica_def)
  then have cached: "find_cached_info c1 (Some (ti_tblName ?info)) = Some (Some ?info)"
    using zp info by (auto simp: find_cached_info_def)
  obtain sp' where sp': "crsql_trackSeenPeer True sp (ms_site m) (ms_dbv m) = Some (SQLITE_OK, sp')"
    "peers_inv sp'" "seen sp' = (seen sp)(ms_site m := max_opt (seen sp (ms_site m)) (Some (ms_dbv m)))"
    using trackSeenPeer_max_aux [OF assms(3)] by blast
  have "mergeable ?info c1"
    using r1 info by (auto simp: mergeable_def replica_def list_all_iff)
  moreover have "crsql_mergeInsert E True (encode m) sp c = merge_row E ?info (encode m) sp' c1"
    using ens assms(2) cached sp'(1)
    by (simp add: crsql_mergeInsert_def encode_def value_bytes_def msg_ok_def)
  ultimately show ?thesis using r1 only db1(1) only_infos_conn_ok [OF only] sp'(2,3) by blast
qed

lemma mergeInsert_canonical:
  assumes "replica ts c" and "msg_ok ts m" and "peers_inv sp"
  shows "merge_ok ts m sp c (crsql_mergeInsert E True (encode m) sp c)"
proof -
  let ?info = "ms_info m"
  have info: "?info \<in> set ts" using assms(2) by (simp add: msg_ok_def)
  obtain c1 sp' where m: "crsql_mergeInsert E True (encode m) sp c = merge_row E ?info (encode m) sp' c1"
    and r1: "replica ts c1" and "mergeable ?info c1" and only: "only_infos c c1" and db1: "db c1 = db c"
    and sp': "peers_inv sp'" "seen sp' = (seen sp)(ms_site m := max_opt (seen sp (ms_site m)) (Some (ms_dbv m)))"
    using mergeInsert_row [OF assms, of E] by blast
  then obtain r where r: "merge_row E ?info (encode m) sp' c1 = Some r" "mr_rc r = SQLITE_OK"
    "mr_errmsg r = None" "mr_peers r = sp'" "row_step (ms_site m) ?info (ms_pk m) (op_of m) c1 (mr_conn r)"
    using merge_row_key [OF _ assms(2), of c1 E sp'] by blast
  note step = row_step_replica [OF r1 info r(5)] and opens = row_step_open [OF r1 info r(5)]
  have find: "crsql_findTableInfo ts (ti_tblName ?info) = Some ?info"
    using assms(1) info by (intro findTableInfo_distinct) (simp_all add: replica_def)
  have "abs_of ts (db (mr_conn r)) = apply_msg m (abs_of ts (db c))"
  proof (intro ext)
    fix tbl pk
    show "abs_of ts (db (mr_conn r)) tbl pk = apply_msg m (abs_of ts (db c)) tbl pk"
    proof (cases "crsql_findTableInfo ts tbl")
      case None
      with find show ?thesis by (auto simp: abs_of_def apply_msg_def)
    next
      case (Some j)
      then have j: "j \<in> set ts" "ti_tblName j = tbl" using findTableInfo_Some by blast+
      have abs: "abs_of ts d tbl pk = abs_row j d pk" for d using Some by (simp add: abs_of_def)
      show ?thesis unfolding apply_msg_def abs step(2) [OF j(1)] j(2) db1 ..
    qed
  qed
  then show ?thesis
    using m r step(1) opens db1 sp' keeps_trans [OF only_infos_keeps [OF only] row_step_keeps [OF r(5)]]
    by (simp add: merge_ok_def)
qed

end
