(* ===== verification/Merge_Convergence.thy ===== *)
theory Merge_Convergence imports Merge_Refinement begin

text \<open>
  Replicas that receive the same changes agree, in whatever order the changes arrive and however
  often each of them is delivered. The abstract argument is made once, for steps that commute and
  are idempotent (\<open>merge_step\<close>), and instantiated with the steps that
  \<^verbatim>\<open>crsql_mergeInsert\<close> was shown to make.
\<close>

section \<open>Steps that commute and are idempotent\<close>

locale merge_step =
  fixes step :: "'m \<Rightarrow> 's \<Rightarrow> 's"
  assumes commute: "step a (step b s) = step b (step a s)"
    and idem: "step a (step a s) = step a s"
begin

lemma absorb: "a \<in> set ms \<Longrightarrow> fold step ms (step a s) = fold step ms s"
proof (induction ms arbitrary: s)
  case (Cons m ms)
  show ?case
  proof (cases "a = m")
    case True
    then show ?thesis by (simp add: idem)
  next
    case False
    with Cons show ?thesis by (simp add: commute [of m a])
  qed
qed simp

lemma absorb_all: "set ns \<subseteq> set ms \<Longrightarrow> fold step ms (fold step ns s) = fold step ms s"
  by (induction ns arbitrary: s) (auto simp: absorb)

lemma fold_commute: "fold step ms (fold step ns s) = fold step ns (fold step ms s)"
proof -
  have one: "fold step ms (step a s) = step a (fold step ms s)" for a s
    by (induction ms arbitrary: s) (simp_all add: commute [of _ a])
  show ?thesis by (induction ns arbitrary: s) (simp_all add: one)
qed

theorem same_set: "set ms = set ns \<Longrightarrow> fold step ms s = fold step ns s"
  using absorb_all [of ns ms s] absorb_all [of ms ns s] fold_commute [of ms ns s] by simp

text \<open>Receiving anything a second time changes nothing.\<close>

lemma replay: "set ns \<subseteq> set ms \<Longrightarrow> fold step ns (fold step ms s) = fold step ms s"
  using absorb_all [of ns ms s] fold_commute [of ms ns s] by simp

end

section \<open>The order of versions\<close>

lemma wins_trans: "wins a b \<Longrightarrow> wins b c \<Longrightarrow> wins a c"
  using strcmp_trans [of "snd c" "snd b" "snd a"] by (auto simp: wins_def strcmp_gt_iff)

lemma wins_irrefl: "\<not> wins a a"
  by (simp add: wins_def)

lemma wins_total: "wins a b \<or> a = b \<or> wins b a"
  using strcmp_total [of "snd a" "snd b"] by (auto simp: wins_def strcmp_gt_iff prod_eq_iff)

lemma lww_commute: "lww (Some (lww m a)) b = lww (Some (lww m b)) a"
proof (cases m)
  case None
  then show ?thesis
    using wins_total [of a b] wins_trans [of a b a] wins_irrefl [of a] by (auto simp: lww_def)
next
  case (Some o')
  then show ?thesis
    using wins_total [of a b] wins_trans [of a b a] wins_trans [of a b o'] wins_trans [of b a o']
      wins_irrefl [of a]
    by (auto simp: lww_def)
qed

lemma lww_idem: "lww (Some (lww m a)) a = lww m a"
  using wins_irrefl by (cases m) (auto simp: lww_def)

lemma apply_op_commute: "apply_op a (apply_op b s) = apply_op b (apply_op a s)"
proof (cases s)
  case (Alive e m)
  show ?thesis
    by (cases a; cases b) (auto simp: Alive fun_upd_twist lww_commute)
qed simp

lemma apply_op_idem: "apply_op a (apply_op a s) = apply_op a s"
  by (cases s; cases a) (auto simp: lww_idem)

interpretation rows: merge_step apply_op
  by unfold_locales (rule apply_op_commute apply_op_idem)+

interpretation msgs: merge_step apply_msg
  by unfold_locales (auto simp: apply_msg_def fun_eq_iff rows.commute rows.idem)

section \<open>Sequences of merges\<close>

text \<open>A transaction that merges the changes one after the other.\<close>

fun merge_all :: "sql_env \<Rightarrow> msg list \<Rightarrow> seen_peers \<Rightarrow> conn \<Rightarrow> (seen_peers \<times> conn) option" where
  "merge_all E [] sp c = Some (sp, c)"
| "merge_all E (m # ms) sp c = do {
     r \<leftarrow> crsql_mergeInsert E True (encode m) sp c;
     if mr_rc r \<noteq> SQLITE_OK then None else merge_all E ms (mr_peers r) (mr_conn r)
   }"

lemma merge_all_refines:
  assumes "replica ts c" and "peers_inv sp" and "list_all (msg_ok ts) ms"
  shows "\<exists>sp' c'. merge_all E ms sp c = Some (sp', c') \<and> replica ts c' \<and> peers_inv sp' \<and>
    abs_of ts (db c') = fold apply_msg ms (abs_of ts (db c))"
  using assms
proof (induction ms arbitrary: sp c)
  case (Cons m ms)
  obtain r where r: "crsql_mergeInsert E True (encode m) sp c = Some r" "mr_rc r = SQLITE_OK"
    "replica ts (mr_conn r)" "abs_of ts (db (mr_conn r)) = apply_msg m (abs_of ts (db c))"
    "peers_inv (mr_peers r)"
    using mergeInsert_canonical [of ts c m sp E] Cons.prems by (auto simp: merge_ok_def split: option.splits)
  with Cons.IH [of "mr_conn r" "mr_peers r"] Cons.prems(3) show ?case by simp
qed simp

text \<open>C1. Merging a change another replica sends does to the database exactly what the abstract
  operation says, for the row of its key, and nothing to any other row or table: a delete kills
  the row for good, a change of a column takes the larger version (the larger text when the
  versions are equal), and every later change of a deleted row is dropped. The call succeeds,
  the triggers are on again afterwards, and the sender is recorded.\<close>

theorem mergeInsert_refines:
  assumes "replica ts c" and "msg_ok ts m" and "peers_inv sp"
  shows "\<exists>r. crsql_mergeInsert E True (encode m) sp c = Some r \<and> mr_rc r = SQLITE_OK \<and>
    mr_errmsg r = None \<and> replica ts (mr_conn r) \<and> syncBit (mr_conn r) = 0 \<and>
    abs_of ts (db (mr_conn r)) = apply_msg m (abs_of ts (db c)) \<and> peers_inv (mr_peers r) \<and>
    seen (mr_peers r) = (seen sp)(ms_site m := max_opt (seen sp (ms_site m)) (Some (ms_dbv m)))"
  using mergeInsert_canonical [OF assms, of E]
  by (auto simp: merge_ok_def replica_def split: option.splits)

text \<open>C2. Two replicas in the same abstract state that receive the same set of changes, each in its
  own order and with any repetitions, end in the same state.\<close>

theorem replicas_converge:
  assumes "replica ts c1" and "replica ts c2" and "abs_of ts (db c1) = abs_of ts (db c2)"
    and "peers_inv sp1" and "peers_inv sp2" and "list_all (msg_ok ts) ms1" and "set ms1 = set ms2"
  shows "\<exists>sp1' c1' sp2' c2'. merge_all E1 ms1 sp1 c1 = Some (sp1', c1') \<and>
    merge_all E2 ms2 sp2 c2 = Some (sp2', c2') \<and> abs_of ts (db c1') = abs_of ts (db c2')"
proof -
  have "list_all (msg_ok ts) ms2" using assms(6,7) by (simp add: list_all_iff)
  with merge_all_refines [OF assms(1,4,6), of E1] merge_all_refines [OF assms(2,5), of ms2 E2]
  show ?thesis using msgs.same_set [OF assms(7)] assms(3) by auto
qed

text \<open>Delivering changes again that were already merged, in any order, leaves the state as it
  is.\<close>

theorem redelivery_is_harmless:
  assumes "replica ts c" and "peers_inv sp" and "list_all (msg_ok ts) ms" and "set ns \<subseteq> set ms"
  shows "\<exists>sp' c' sp'' c''. merge_all E ms sp c = Some (sp', c') \<and>
    merge_all E ns sp' c' = Some (sp'', c'') \<and> abs_of ts (db c'') = abs_of ts (db c')"
proof -
  obtain sp' c' where 1: "merge_all E ms sp c = Some (sp', c')" "replica ts c'" "peers_inv sp'"
    "abs_of ts (db c') = fold apply_msg ms (abs_of ts (db c))"
    using merge_all_refines [OF assms(1-3)] by blast
  have "list_all (msg_ok ts) ns" using assms(3,4) by (auto simp: list_all_iff)
  from merge_all_refines [OF 1(2,3) this, of E] show ?thesis
    using 1 msgs.replay [OF assms(4)] by auto
qed

section \<open>A concrete run\<close>

text \<open>An environment in which every statement outside the model fails.\<close>

definition no_env :: sql_env where
  "no_env = \<lparr>raw_query = (\<lambda>z c. (PrepFail SQLITE_ERROR, c)), raw_exec = (\<lambda>z c. (SQLITE_ERROR, c)),
     conv_int = (\<lambda>v. 0), conv_text = (\<lambda>v. [])\<rparr>"


lemma replica_filled: "replica [foo_info] filled_conn"
proof -
  have w: "writable foo_info filled_conn" using writable_crr_conn by (simp add: filled_conn_def)
  have "current_infos (db filled_conn) = Some [foo_info]" by code_simp
  moreover have "cols_ok (db filled_conn)" by code_simp
  moreover have "schema_inv foo_info (db filled_conn)" by code_simp
  moreover have "data_inv foo_info (db filled_conn)" by code_simp
  moreover have "zpTableInfos (ext filled_conn) = Null" "tableInfosLen (ext filled_conn) = 0"
    by code_simp+
  ultimately show ?thesis
    using w by (simp add: replica_def conn_ok_def writable_def infos_inv_def)
qed

definition msg_b :: "string \<Rightarrow> int \<Rightarrow> msg" where
  "msg_b x v = \<lparr>ms_info = foo_info, ms_pk = [VInt 1], ms_cid = ''b'', ms_val = VText x,
     ms_vrsn = v, ms_dbv = 9, ms_site = [1]\<rparr>"

definition msg_del :: msg where
  "msg_del = \<lparr>ms_info = foo_info, ms_pk = [VInt 2], ms_cid = DELETE_CID_SENTINEL, ms_val = VNull,
     ms_vrsn = 1, ms_dbv = 10, ms_site = [1]\<rparr>"

lemma msgs_ok: "msg_ok [foo_info] (msg_b ''y'' 2)" "msg_ok [foo_info] (msg_b ''z'' 2)" "msg_ok [foo_info] msg_del"
  by code_simp+

text \<open>The change of \<^verbatim>\<open>b\<close> to \<^verbatim>\<open>'y'\<close> with version 2 replaces the \<^verbatim>\<open>'x'\<close> that has version 1.\<close>

theorem mergeInsert_refines_witness:
  "\<exists>r b m. crsql_mergeInsert no_env True (encode (msg_b ''y'' 2)) crsql_newSeenPeers filled_conn = Some r \<and>
     mr_rc r = SQLITE_OK \<and>
     abs_of [foo_info] (db (mr_conn r)) ''foo'' [VInt 1] = Alive b m \<and> m ''b'' = Some (2, sq ''y'') \<and>
     seen (mr_peers r) [1] = Some 9"
proof -
  have "\<exists>b m. apply_msg (msg_b ''y'' 2) (abs_of [foo_info] (db filled_conn)) ''foo'' [VInt 1] =
      Alive b m \<and> m ''b'' = Some (2, sq ''y'')"
  proof -
    have old: "clock_lookup (clock_rows (db filled_conn) ''foo'') [VInt 1] DELETE_CID_SENTINEL = None"
      "local_cell foo_info (db filled_conn) [VInt 1] ''b'' = Some (1, sq ''x'')"
      "wins (2, sq ''y'') (1, sq ''x'')"
      "op_of (msg_b ''y'' 2) = Col_op ''b'' 2 (sq ''y'')" "sql_eqs [VInt 1] [VInt 1]"
      "crsql_findTableInfo [foo_info] ''foo'' = Some foo_info" "ti_tblName foo_info = ''foo''"
      "''b'' \<in> ci_name ` set (ti_nonPks foo_info)"
      by code_simp+
    then obtain m where "abs_of [foo_info] (db filled_conn) ''foo'' [VInt 1] =
        Alive (find_row foo_info (user_rows (db filled_conn) ''foo'') [VInt 1] \<noteq> None) m"
      "m ''b'' = Some (1, sq ''x'')"
      using local_cell_abs [of "''b''" foo_info "[VInt 1]" "[VInt 1]" "db filled_conn"]
      by (auto simp: abs_of_def)
    with old show ?thesis by (auto simp: apply_msg_def lww_def msg_b_def)
  qed
  then show ?thesis
    using mergeInsert_refines [OF replica_filled msgs_ok(1) peers_inv_new, of no_env]
    by (auto simp: msg_b_def seen_new max_opt_def)
qed

theorem replicas_converge_witness:
  "\<exists>sp1 c1 sp2 c2.
     merge_all no_env [msg_b ''y'' 2, msg_b ''z'' 2, msg_del] crsql_newSeenPeers filled_conn = Some (sp1, c1) \<and>
     merge_all no_env [msg_del, msg_b ''z'' 2, msg_b ''y'' 2, msg_del] crsql_newSeenPeers filled_conn = Some (sp2, c2) \<and>
     abs_of [foo_info] (db c1) = abs_of [foo_info] (db c2)"
  using replicas_converge [OF replica_filled replica_filled refl peers_inv_new peers_inv_new,
      of "[msg_b ''y'' 2, msg_b ''z'' 2, msg_del]" "[msg_del, msg_b ''z'' 2, msg_b ''y'' 2, msg_del]" no_env no_env]
    msgs_ok by auto

theorem redelivery_is_harmless_witness:
  "\<exists>sp' c' sp'' c''. merge_all no_env [msg_b ''y'' 2, msg_del] crsql_newSeenPeers filled_conn = Some (sp', c') \<and>
     merge_all no_env [msg_del] sp' c' = Some (sp'', c'') \<and>
     abs_of [foo_info] (db c'') = abs_of [foo_info] (db c')"
  using redelivery_is_harmless [OF replica_filled peers_inv_new, of "[msg_b ''y'' 2, msg_del]" "[msg_del]" no_env]
    msgs_ok by auto

end
