(* ===== verification/Merge_Errors.thy ===== *)
theory Merge_Errors imports Merge_Convergence begin

text \<open>
  The errors of \<^verbatim>\<open>crsql_mergeInsert\<close>, and what a merge does when a call into SQLite fails or a row
  was deleted before.
\<close>

section \<open>Changes that are refused\<close>

text \<open>A change with an oversized table name, column name or site id is refused before anything
  is recorded: neither the database nor the peers change.\<close>

theorem oversized_change_refused:
  assumes "crsql_ensureTableInfosAreUpToDate c = Some (SQLITE_OK, err, c1)"
    and "value_bytes (ch_tbl ch) > MAX_TBL_NAME_LEN \<or> value_bytes (ch_cid ch) > MAX_TBL_NAME_LEN \<or>
      length (ch_site ch) > SITE_ID_LEN"
  shows "\<exists>r. crsql_mergeInsert E ok ch sp c = Some r \<and> mr_rc r = SQLITE_ERROR \<and> mr_errmsg r \<noteq> None \<and>
    mr_peers r = sp \<and> mr_conn r = c1"
  using assms by (auto simp: crsql_mergeInsert_def merged_def)

text \<open>A change of a table without clock is refused and the database stays as it was, but its
  sender is recorded as seen with the change's version: the peer will be believed to have
  delivered it.\<close>

theorem unknown_table_refused:
  assumes "replica ts c" and "ts \<noteq> []" and "peers_inv sp" and "tbl \<notin> ti_tblName ` set ts"
    and "length tbl \<le> MAX_TBL_NAME_LEN" and "value_bytes (ch_cid ch) \<le> MAX_TBL_NAME_LEN"
    and "length (ch_site ch) \<le> SITE_ID_LEN" and "ch_tbl ch = Some tbl"
  shows "\<exists>r. crsql_mergeInsert E True ch sp c = Some r \<and> mr_rc r = SQLITE_ERROR \<and>
    mr_errmsg r = Some (''crsql - could not find the schema information for table '' @ tbl) \<and>
    db (mr_conn r) = db c \<and>
    seen (mr_peers r) = (seen sp)(ch_site ch := max_opt (seen sp (ch_site ch)) (Some (ch_db_vrsn ch)))"
proof -
  have c: "conn_ok c" "infos_inv c" "current_infos (db c) = Some ts" "cols_ok (db c)"
    using assms(1) by (simp_all add: replica_def)
  then have "faults c = []" "stmts_live c" "names_short (db c)" "clock_tables_select (db c) \<noteq> []"
    using assms(2) by (auto simp: conn_ok_def ready_def clocks_ok_def current_infos_def)
  then obtain c1 where ens: "crsql_ensureTableInfosAreUpToDate c = Some (SQLITE_OK, None, c1)"
    and zp: "zpTableInfos (ext c1) = Live ts" "tableInfosLen (ext c1) = length ts"
    and only: "only_infos c c1"
    using ensure_up_to_date_aux [of c ts] c by blast
  obtain sp' where sp': "crsql_trackSeenPeer True sp (ch_site ch) (ch_db_vrsn ch) = Some (SQLITE_OK, sp')"
    "seen sp' = (seen sp)(ch_site ch := max_opt (seen sp (ch_site ch)) (Some (ch_db_vrsn ch)))"
    using trackSeenPeer_max_aux [OF assms(3)] by blast
  have "find_cached_info c1 (Some tbl) = Some None"
    using zp assms(2) findTableInfo_None [of ts tbl] assms(4) by (simp add: find_cached_info_def)
  then show ?thesis
    using ens sp' only assms(5-8)
    by (simp add: crsql_mergeInsert_def value_bytes_def merged_def only_infos_def fmt_s_def)
qed

text \<open>A change without a key, for a table with a single key column, is undefined behaviour: the
  virtual table does not enforce its \<^verbatim>\<open>NOT NULL\<close> and the key is formatted and copied unchecked.\<close>

theorem missing_key_undefined:
  assumes "length (ti_pks info) = 1" and "ch_pk ch = None"
  shows "merge_row E info ch sp c = None"
  using assms by (cases "ch_cid ch") (simp_all add: merge_row_def)

section \<open>A row that was deleted\<close>

text \<open>C29. A deleted row that is inserted again locally is there for the application but stays dead for
  replication: its delete marker remains, so every change of it that arrives later is dropped
  with success, here and, once the delete was sent, at every other replica.\<close>

theorem reinserted_row_stays_dead:
  assumes "writable info c" and "ti_nonPks info \<noteq> []" and "not_null (pk_vals info r)"
    and "db_user (db c) (ti_tblName info) = Some t" and "nulls_ok t r"
    and "\<not> list_ex (same_row t r) (ut_rows t)" and "schema_inv info (db c)"
    and "abs_row info (db c) (pk_vals info r) = Dead"
  shows "\<exists>c'. local_insert (ti_tblName info) r c = Some (SQLITE_OK, c') \<and>
    r \<in> set (user_rows (db c') (ti_tblName info)) \<and> abs_row info (db c') (pk_vals info r) = Dead"
proof -
  have del: "DELETE_CID_SENTINEL \<notin> ci_name ` set (ti_nonPks info)"
    using schema_names_ok [OF assms(7)] by (simp add: names_ok_def)
  obtain c' where c': "local_insert (ti_tblName info) r c = Some (SQLITE_OK, c')"
    "db_user (db c') (ti_tblName info) = Some (t\<lparr>ut_rows := ut_rows t @ [r]\<rparr>)"
    "clock_lookup (clock_rows (db c') (ti_tblName info)) (pk_vals info r) DELETE_CID_SENTINEL =
      clock_lookup (clock_rows (db c) (ti_tblName info)) (pk_vals info r) DELETE_CID_SENTINEL"
    using insert_is_recorded_aux [OF assms(1-6), of "pk_vals info r" DELETE_CID_SENTINEL] del by auto
  then show ?thesis
    using assms(8) by (auto simp: abs_row_def abs_parts_def user_rows_def split: if_splits)
qed

section \<open>Failing calls\<close>

text \<open>C36. When the statement that turns the triggers on again fails, the delete is still reported as
  merged and the triggers stay off: later local writes of this connection are not recorded.\<close>

theorem failed_clear_disables_triggers:
  assumes "faults c = [0, 0, e]" and "e \<notin> {SQLITE_OK, SQLITE_ROW, SQLITE_DONE}"
    and "mergeable info (c\<lparr>faults := []\<rparr>)" and "key_ok info pk"
  shows "\<exists>c'. crsql_mergeDelete E info (key_where info pk) (map quote_val pk) v dbv s c =
    Some (SQLITE_OK, c') \<and> syncBit c' = 1"
proof -
  let ?f = "filter (\<lambda>r. \<not> sql_eqs pk (pk_vals info r))"
  define c1 where "c1 = c\<lparr>syncBit := 1, faults := [e]\<rparr>"
  define c2 where "c2 = (c\<lparr>faults := []\<rparr>)\<lparr>syncBit := 1\<rparr>"
  have c: "conn_ok c2" "schema_inv info (db c2)" "schema_inv info (db c1)" "syncBit c1 \<noteq> 0" "syncBit c2 = 1"
    using assms(3) by (simp_all add: mergeable_def c1_def c2_def)
  have set: "run_exec SET_SYNC_BIT c = (SQLITE_OK, c\<lparr>faults := [0, e], syncBit := 1\<rparr>)"
    using assms(1) by (simp add: run_exec_def sql_call_def SET_SYNC_BIT_eq)
  have "stmt_text z (delete_where E z (ti_tblName info) (key_where info pk)) (c\<lparr>faults := [0, e], syncBit := 1\<rparr>) =
      Some (SQLITE_OK, upd_db (upd_rows (ti_tblName info) ?f) c1)" for z
    using delete_where_key [OF c(3,4) assms(4), of E z]
    by (simp add: stmt_text_def run_stmt_def sql_call_def atomic_def c1_def)
  moreover have "run_exec CLEAR_SYNC_BIT (upd_db (upd_rows (ti_tblName info) ?f) c1) =
      (e, upd_db (upd_rows (ti_tblName info) ?f) c2)"
    using assms(2) by (auto simp: run_exec_def sql_call_def upd_db_def c1_def c2_def)
  moreover obtain c' where "crsql_setWinnerClock E info (map quote_val pk) DELETE_CID_SENTINEL v dbv s
      (upd_db (upd_rows (ti_tblName info) ?f) c2) = Some (SQLITE_OK, c')" "frame c2 c'"
    using setWinnerClock_key [of "upd_db (upd_rows (ti_tblName info) ?f) c2" info pk E
        DELETE_CID_SENTINEL v dbv s] c assms(4) by auto
  ultimately show ?thesis
    using c(5) set by (auto simp: crsql_mergeDelete_def Let_def frame_def)
qed

text \<open>When the query for a local delete fails, its error is dropped and the merge goes on as if the
  row had not been deleted: a deleted row comes back.\<close>

theorem failed_delete_check_ignored:
  assumes "faults c = [e]" and "e \<notin> {SQLITE_OK, SQLITE_ROW, SQLITE_DONE, DELETED_LOCALLY}"
    and "mergeable (ms_info m) (c\<lparr>faults := []\<rparr>)" and "msg_ok ts m" and "op_of m = Row_op"
  shows "\<exists>r. merge_row E (ms_info m) (encode m) sp c = Some r \<and> mr_rc r = SQLITE_OK \<and>
    find_row (ms_info m) (user_rows (db (mr_conn r)) (ti_tblName (ms_info m))) (ms_pk m) \<noteq> None"
proof -
  let ?info = "ms_info m" and ?pk = "ms_pk m" and ?tbl = "ti_tblName (ms_info m)"
  define c0 where "c0 = c\<lparr>faults := []\<rparr>"
  have key: "key_ok ?info ?pk" using assms(4) by (simp add: msg_ok_def)
  have c: "conn_ok c0" "syncBit c0 = 0" "schema_inv ?info (db (c0\<lparr>syncBit := 1\<rparr>))"
    "syncBit (c0\<lparr>syncBit := 1\<rparr>) \<noteq> 0"
    using assms(3) by (simp_all add: mergeable_def c0_def)
  have kv: "key_vals_ok ?pk" "length ?pk = length (ti_pks ?info)" using key by (simp_all add: key_ok_def)
  then have parts: "where_pairs (ti_pks ?info) (key_text ?pk) = Some (key_where ?info ?pk)"
    "crsql_splitQuoteConcat (key_text ?pk) (length (ti_pks ?info)) = Some (map quote_val ?pk)"
    using where_pairs_key_text [of ?pk "ti_pks ?info"] split_key_text [of ?pk]
    by (simp_all add: key_where_def)
  have check: "crsql_checkForLocalDelete E ?tbl w c = (e, c0)" for w
    using assms(1,2)
    by (simp add: crsql_checkForLocalDelete_def query_text_def run_query_def sql_call_def c0_def Let_def)
  obtain r where r: "pk_vals ?info r = ?pk" and
    ins: "insert_or_ignore E z ?info (map quote_val ?pk) (c0\<lparr>syncBit := 1\<rparr>) =
      Some (SQLITE_OK, upd_db (upd_rows ?tbl (put_row ?info r)) (c0\<lparr>syncBit := 1\<rparr>))" for z
    using insert_or_ignore_key [OF c(3,4) key] by blast
  note w = with_sync_bit [where stmt = "insert_or_ignore E z ?info (map quote_val ?pk)" for z, OF c(1,2) ins]
  obtain c' where c': "crsql_setWinnerClock E ?info (map quote_val ?pk) PKS_ONLY_CID_SENTINEL (ms_vrsn m)
      (ms_dbv m) (ms_site m) (upd_db (upd_rows ?tbl (put_row ?info r)) c0) = Some (SQLITE_OK, c')"
    "user_rows (db c') ?tbl = user_rows (upd_rows ?tbl (put_row ?info r) (db c0)) ?tbl"
    using setWinnerClock_key [of "upd_db (upd_rows ?tbl (put_row ?info r)) c0" ?info ?pk E
        PKS_ONLY_CID_SENTINEL "ms_vrsn m" "ms_dbv m" "ms_site m"] c(1,3) key by auto
  have "db_user (db c0) ?tbl \<noteq> None" using c(3) by (auto elim: schema_invE)
  then have row: "find_row ?info (user_rows (db c') ?tbl) ?pk \<noteq> None"
    using c'(2) find_put_row [of ?info r "user_rows (db c0) ?tbl" ?pk] not_null_key [OF key] r
      sql_eqs_refl [OF not_null_key [OF key]] by auto
  have cid: "ms_cid m \<noteq> DELETE_CID_SENTINEL" "ms_cid m \<notin> ci_name ` set (ti_nonPks ?info)"
    using assms(5) by (auto simp: op_of_def split: if_splits)
  have "crsql_mergePkOnlyInsert E ?info (map quote_val ?pk) (ms_vrsn m) (ms_dbv m) (ms_site m) c0 =
      Some (SQLITE_OK, c')"
    using w c'(1) by (simp add: crsql_mergePkOnlyInsert_def Let_def)
  with cid row assms(2) show ?thesis
    by (simp add: merge_row_def encode_def parts check merged_def strcmp_0_iff columnExists_iff)
qed

section \<open>Concrete cases\<close>

lemma mergeable_filled: "mergeable foo_info filled_conn"
  using replica_filled by (simp add: replica_def mergeable_def)

theorem oversized_change_refused_witness:
  "\<exists>r. crsql_mergeInsert no_env True ((encode msg_del)\<lparr>ch_tbl := Some (replicate 2049 (CHR ''x''))\<rparr>)
      crsql_newSeenPeers filled_conn = Some r \<and> mr_rc r = SQLITE_ERROR"
proof -
  have c: "conn_ok filled_conn" "infos_inv filled_conn" "current_infos (db filled_conn) = Some [foo_info]"
    "cols_ok (db filled_conn)" using replica_filled by (simp_all add: replica_def)
  then have "faults filled_conn = []" "stmts_live filled_conn" "names_short (db filled_conn)"
    "clock_tables_select (db filled_conn) \<noteq> []"
    by (auto simp: conn_ok_def ready_def clocks_ok_def current_infos_def)
  then obtain c1 where "crsql_ensureTableInfosAreUpToDate filled_conn = Some (SQLITE_OK, None, c1)"
    using ensure_up_to_date_aux [of filled_conn "[foo_info]"] c by blast
  from oversized_change_refused [OF this, of
      "(encode msg_del)\<lparr>ch_tbl := Some (replicate 2049 (CHR ''x''))\<rparr>" no_env True crsql_newSeenPeers]
  show ?thesis by (auto simp: value_bytes_def)
qed

theorem unknown_table_refused_witness:
  "\<exists>r. crsql_mergeInsert no_env True ((encode msg_del)\<lparr>ch_tbl := Some ''bar''\<rparr>)
      crsql_newSeenPeers filled_conn = Some r \<and> mr_rc r = SQLITE_ERROR \<and>
     seen (mr_peers r) [1] = Some 10"
proof -
  have "''bar'' \<notin> ti_tblName ` set [foo_info]" by code_simp
  then show ?thesis
    using unknown_table_refused [OF replica_filled _ peers_inv_new, of "''bar''"
        "(encode msg_del)\<lparr>ch_tbl := Some ''bar''\<rparr>" no_env]
    by (auto simp: encode_def msg_del_def value_bytes_def seen_new max_opt_def)
qed

theorem missing_key_undefined_witness:
  "merge_row no_env foo_info ((encode msg_del)\<lparr>ch_pk := None\<rparr>) crsql_newSeenPeers filled_conn = None"
proof -
  have "length (ti_pks foo_info) = 1" by code_simp
  from missing_key_undefined [OF this] show ?thesis by simp
qed

text \<open>The filled database after \<^verbatim>\<open>DELETE FROM foo WHERE a = 3\<close>.\<close>

definition deleted_conn :: conn where
  "deleted_conn = upd_db (upd_clock ''foo__crsql_clock'' (\<lambda>ks. ks @ [\<lparr>ck_pk = [VInt 3],
     ck_col = DELETE_CID_SENTINEL, ck_vrsn = 1, ck_dbv = 8, ck_site = None\<rparr>])) filled_conn"

lemma writable_deleted: "writable foo_info deleted_conn"
proof -
  have "storage_version (db deleted_conn) = 8" by code_simp
  moreover have "ext deleted_conn = ext filled_conn"
    "db_data_version (db deleted_conn) = db_data_version (db filled_conn)" by (simp_all add: deleted_conn_def)
  moreover have "dbVersion (ext filled_conn) = -1"
    by (simp add: filled_conn_def crr_conn_def test_conn_def fresh_ext_def)
  ultimately have "current_version deleted_conn = 8"
    by (simp add: current_version_def version_cached_def)
  moreover have "writable foo_info filled_conn" using writable_crr_conn by (simp add: filled_conn_def)
  ultimately show ?thesis
    by (simp add: writable_def int64_def) (simp add: deleted_conn_def)
qed

theorem reinserted_row_stays_dead_witness:
  "\<exists>c'. local_insert ''foo'' (row_of (VInt 3) (VText ''n'')) deleted_conn = Some (SQLITE_OK, c') \<and>
     abs_row foo_info (db c') [VInt 3] = Dead"
proof -
  let ?r = "row_of (VInt 3) (VText ''n'')"
  obtain t where t: "db_user (db deleted_conn) (ti_tblName foo_info) = Some t"
    "t = test_user\<lparr>ut_rows := [row_of (VInt 1) (VText ''x''), row_of (VInt 2) VNull]\<rparr>"
    by (simp add: deleted_conn_def filled_conn_def crr_conn_def test_db_def foo_info_def test_foo_def)
  have pk: "pk_vals foo_info ?r = [VInt 3]"
    by (simp add: pk_vals_def foo_info_def test_foo_def mk_col_def row_of_def)
  have tbl: "ti_tblName foo_info = ''foo''" by (simp add: foo_info_def test_foo_def)
  have ok: "nulls_ok t ?r" "\<not> list_ex (same_row t ?r) (ut_rows t)" unfolding t(2) by code_simp+
  have "schema_inv foo_info (db deleted_conn)"
    using replica_filled by (simp add: replica_def deleted_conn_def)
  moreover have "clock_lookup (clock_rows (db deleted_conn) ''foo'') [VInt 3] DELETE_CID_SENTINEL \<noteq> None"
    by code_simp
  then have "abs_row foo_info (db deleted_conn) (pk_vals foo_info ?r) = Dead"
    by (simp add: abs_row_def abs_parts_def pk tbl)
  moreover have "ti_nonPks foo_info \<noteq> []" "ti_tblName foo_info = ''foo''"
    by (simp_all add: foo_info_def test_foo_def)
  ultimately show ?thesis
    using reinserted_row_stays_dead [OF writable_deleted _ _ t(1) ok] by (auto simp: pk not_null_def)
qed

theorem failed_clear_disables_triggers_witness:
  "\<exists>c'. crsql_mergeDelete no_env foo_info (key_where foo_info [VInt 1]) (map quote_val [VInt 1]) 1 9 [1]
      (filled_conn\<lparr>faults := [0, 0, 7]\<rparr>) = Some (SQLITE_OK, c') \<and> syncBit c' = 1"
proof -
  have "key_ok foo_info [VInt 1]" by code_simp
  moreover have "(filled_conn\<lparr>faults := [0, 0, 7]\<rparr>)\<lparr>faults := []\<rparr> = filled_conn"
    by (simp add: filled_conn_def crr_conn_def test_conn_def upd_db_def)
  ultimately show ?thesis
    using failed_clear_disables_triggers [of "filled_conn\<lparr>faults := [0, 0, 7]\<rparr>" 7 foo_info "[VInt 1]"
        no_env 1 9 "[1]"] mergeable_filled by simp
qed

theorem failed_delete_check_ignored_witness:
  "\<exists>r. merge_row no_env foo_info (encode (msg_del\<lparr>ms_cid := PKS_ONLY_CID_SENTINEL\<rparr>)) crsql_newSeenPeers
      (filled_conn\<lparr>faults := [7]\<rparr>) = Some r \<and> mr_rc r = SQLITE_OK \<and>
    find_row foo_info (user_rows (db (mr_conn r)) ''foo'') [VInt 2] \<noteq> None"
proof -
  let ?m = "msg_del\<lparr>ms_cid := PKS_ONLY_CID_SENTINEL\<rparr>"
  have "msg_ok [foo_info] ?m" "op_of ?m = Row_op" by code_simp+
  moreover have "ms_info ?m = foo_info" "ms_pk ?m = [VInt 2]" "ti_tblName foo_info = ''foo''"
    by (simp_all add: msg_del_def foo_info_def test_foo_def)
  moreover have "(filled_conn\<lparr>faults := [7]\<rparr>)\<lparr>faults := []\<rparr> = filled_conn"
    by (simp add: filled_conn_def crr_conn_def test_conn_def upd_db_def)
  ultimately show ?thesis
    using failed_delete_check_ignored [of "filled_conn\<lparr>faults := [7]\<rparr>" 7 ?m "[foo_info]" no_env
        crsql_newSeenPeers] mergeable_filled by simp
qed

end
