(* ===== verification/Changes_Vtab.thy ===== *)
theory Changes_Vtab imports Merge_Errors "HOL-Library.List_Lexorder" "HOL-Library.Product_Lexorder" begin

text \<open>
  The virtual table \<^verbatim>\<open>crsql_changes\<close> (\<^verbatim>\<open>core/src/changes-vtab.c\<close>): planning a query, the cursor
  that reads changes, inserting changes, and what happens when a transaction ends.

  The statement behind the cursor sorts its rows, so SQLite computes them all at its first step;
  the model keeps the rows that are left. The order of rows with the same version and table is
  not determined by the query; the model takes the order in which they are found.
\<close>

section \<open>The query for changes\<close>

record change_row =
  cr_tbl :: string
  cr_pks :: string
  cr_cid :: string
  cr_col_vrsn :: int
  cr_db_vrsn :: int
  cr_site :: "blob option"

text \<open>In \<^verbatim>\<open>WHERE\<close> the names \<^verbatim>\<open>site_id\<close> and \<^verbatim>\<open>db_vrsn\<close> stand for the result columns only when the clock
  table has no column of that name.\<close>

definition alias_cell :: "clock_table \<Rightarrow> clock_row \<Rightarrow> string \<Rightarrow> sqlval \<Rightarrow> sqlval" where
  "alias_cell t r alias v =
     (case find_col (ct_pks t) alias of None \<Rightarrow> v | Some n \<Rightarrow> clock_cell t r n)"

definition site_val :: "blob option \<Rightarrow> sqlval" where
  "site_val s = (case s of None \<Rightarrow> VNull | Some b \<Rightarrow> VBlob b)"

fun sql_gt_int :: "sqlval \<Rightarrow> int \<Rightarrow> bool" where
  "sql_gt_int VNull n \<longleftrightarrow> False"
| "sql_gt_int (VInt i) n \<longleftrightarrow> i > n"
| "sql_gt_int (VReal (Fin neg ip fp ex)) n \<longleftrightarrow>
     (let m = int (read_nat (ip @ fp)); m = (if neg then - m else m);
          e = exponent ex - int (length fp)
      in if e \<ge> 0 then m * 10 ^ nat e > n else m > n * 10 ^ nat (- e))"
| "sql_gt_int (VReal (Infinite neg)) n \<longleftrightarrow> \<not> neg"
| "sql_gt_int (VText s) n \<longleftrightarrow> True"
| "sql_gt_int (VBlob b) n \<longleftrightarrow> True"

definition row_selected :: "nat \<Rightarrow> blob option \<Rightarrow> int \<Rightarrow> clock_table \<Rightarrow> clock_row \<Rightarrow> bool" where
  "row_selected idxNum site v t r \<longleftrightarrow>
     ((alias_cell t r ''site_id'' (site_val (ck_site r)) = site_val site) = (and idxNum 8 = 8)) \<and>
     sql_gt_int (alias_cell t r ''db_vrsn'' (VInt (ck_dbv r))) v"

text \<open>A name in quotes that is no column is a text.\<close>

definition pks_text :: "table_info \<Rightarrow> clock_table \<Rightarrow> clock_row \<Rightarrow> string" where
  "pks_text info t r = key_text (map (\<lambda>k. case find_col (ct_pks t) (ci_name k) of
     None \<Rightarrow> VText (ci_name k) | Some n \<Rightarrow> clock_cell t r n) (ti_pks info))"

definition change_of :: "table_info \<Rightarrow> clock_table \<Rightarrow> clock_row \<Rightarrow> change_row" where
  "change_of info t r = \<lparr>cr_tbl = ti_tblName info, cr_pks = pks_text info t r, cr_cid = ck_col r,
     cr_col_vrsn = ck_vrsn r, cr_db_vrsn = ck_dbv r, cr_site = ck_site r\<rparr>"

definition table_changes ::
  "nat \<Rightarrow> blob option \<Rightarrow> int \<Rightarrow> database \<Rightarrow> table_info \<Rightarrow> change_row list option" where
  "table_changes idxNum site v d info =
     map_option (\<lambda>t. map (change_of info t) (filter (row_selected idxNum site v t) (ct_rows t)))
       (db_clock d (clock_name (ti_tblName info)))"

definition order_key :: "change_row \<Rightarrow> int \<times> nat list" where
  "order_key r = (cr_db_vrsn r, map of_char (cr_tbl r))"

text \<open>The columns of a row in the order of the query.\<close>

definition row_values :: "change_row \<Rightarrow> sqlval list" where
  "row_values r = [VText (cr_tbl r), VText (cr_pks r), VText (cr_cid r), VInt (cr_col_vrsn r),
     VInt (cr_db_vrsn r), site_val (cr_site r)]"

text \<open>\<^verbatim>\<open>UNION\<close> drops duplicates. \<open>None\<close>: a clock table is missing.\<close>

definition union_rows ::
  "nat \<Rightarrow> blob option \<Rightarrow> int \<Rightarrow> table_info list \<Rightarrow> database \<Rightarrow> change_row list option" where
  "union_rows idxNum site v infos d =
     map_option (\<lambda>rss. sort_key order_key (remdups (concat rss)))
       (those (map (table_changes idxNum site v d) infos))"

section \<open>The cursor\<close>

abbreviation (input) CHANGES_SINCE_VTAB_TBL :: nat where "CHANGES_SINCE_VTAB_TBL \<equiv> 0"
abbreviation (input) CHANGES_SINCE_VTAB_PK :: nat where "CHANGES_SINCE_VTAB_PK \<equiv> 1"
abbreviation (input) CHANGES_SINCE_VTAB_CID :: nat where "CHANGES_SINCE_VTAB_CID \<equiv> 2"
abbreviation (input) CHANGES_SINCE_VTAB_CVAL :: nat where "CHANGES_SINCE_VTAB_CVAL \<equiv> 3"
abbreviation (input) CHANGES_SINCE_VTAB_COL_VRSN :: nat where "CHANGES_SINCE_VTAB_COL_VRSN \<equiv> 4"
abbreviation (input) CHANGES_SINCE_VTAB_DB_VRSN :: nat where "CHANGES_SINCE_VTAB_DB_VRSN \<equiv> 5"
abbreviation (input) CHANGES_SINCE_VTAB_SITE_ID :: nat where "CHANGES_SINCE_VTAB_SITE_ID \<equiv> 6"

text \<open>The indices of the columns in the rows of the statement.\<close>

abbreviation (input) TBL :: nat where "TBL \<equiv> 0"
abbreviation (input) PKS :: nat where "PKS \<equiv> 1"
abbreviation (input) CID :: nat where "CID \<equiv> 2"
abbreviation (input) COL_VRSN :: nat where "COL_VRSN \<equiv> 3"
abbreviation (input) DB_VRSN :: nat where "DB_VRSN \<equiv> 4"
abbreviation (input) SITE_ID :: nat where "SITE_ID \<equiv> 5"

text \<open>A prepared statement: the row it stands on and the rows to come. A statement that is NULL or not
  stepped, and a column out of range, give NULL.\<close>

record change_stmt =
  cs_row :: "sqlval list option"
  cs_rest :: "sqlval list list"

definition column_value :: "change_stmt option \<Rightarrow> nat \<Rightarrow> sqlval" where
  "column_value st i =
     (case Option.bind st cs_row of None \<Rightarrow> VNull | Some r \<Rightarrow> if i < length r then r ! i else VNull)"

text \<open>\<^verbatim>\<open>crsql_Changes_cursor\<close>; \<open>pRowStmt\<close> is the value the row statement stands on.\<close>

record cursor =
  pChangesStmt :: "change_stmt option"
  pRowStmt :: "sqlval option"
  cur_dbVersion :: int

definition changesOpen :: "bool \<Rightarrow> int \<times> cursor option" where
  "changesOpen malloc_ok =
     (if \<not> malloc_ok then (SQLITE_NOMEM, None)
      else (SQLITE_OK, Some \<lparr>pChangesStmt = None, pRowStmt = None, cur_dbVersion = 0\<rparr>))"

text \<open>Finalizing a statement returns the code of its last step when that failed (\<open>step_rc\<close>).\<close>

definition changesCrsrFinalize :: "int \<Rightarrow> cursor \<Rightarrow> int \<times> cursor" where
  "changesCrsrFinalize step_rc crsr =
     (step_rc, crsr\<lparr>pChangesStmt := None, pRowStmt := None, cur_dbVersion := MIN_POSSIBLE_DB_VERSION\<rparr>)"

definition changesClose :: "cursor \<Rightarrow> int" where
  "changesClose cur = (let (ignored_rc, cur) = changesCrsrFinalize 0 cur in SQLITE_OK)"

definition changesRowid :: "cursor \<Rightarrow> int \<times> int" where
  "changesRowid cur = (SQLITE_OK, cur_dbVersion cur)"

definition changesEof :: "cursor \<Rightarrow> bool" where
  "changesEof cur \<longleftrightarrow> pChangesStmt cur = None"

text \<open>The result code, the message left in the table, the cursor and the connection.\<close>

type_synonym vtab_result = "(int \<times> string option \<times> cursor \<times> conn) option"

text \<open>The part after the step: the row's table is described and its value fetched. A description
  without key is released and then read, and a text that is NULL is compared or split: undefined.\<close>

definition fetch_row ::
  "sql_env \<Rightarrow> string option \<Rightarrow> string option \<Rightarrow> string option \<Rightarrow> cursor \<Rightarrow> conn \<Rightarrow> vtab_result" where
  "fetch_row E tbl pks cid pCur c = do {
     tblInfo \<leftarrow> find_cached_info c tbl;
     case tblInfo of
       None \<Rightarrow>
         let (ignored_rc, pCur) = changesCrsrFinalize 0 pCur in
         Some (SQLITE_ERROR, Some (''crsql internal error. Could not find schema for table '' @ fmt_s tbl),
           pCur, c)
     | Some tblInfo \<Rightarrow>
         if ti_pks tblInfo = [] then None
         else do {
           cid \<leftarrow> cid;
           pks \<leftarrow> pks;
           case crsql_rowPatchDataQuery tblInfo cid pks of
             None \<Rightarrow> Some (SQLITE_ERROR,
               Some (''crsql internal error generationg raw data fetch query for table '' @ fmt_s tbl), pCur, c)
           | Some zSql \<Rightarrow>
               if zSql = [] then Some (SQLITE_OK, None, pCur\<lparr>pRowStmt := None\<rparr>, c)
               else do {
                 w \<leftarrow> where_pairs (ti_pks tblInfo) pks;
                 case query_text zSql (select_quoted E zSql (ti_tblName tblInfo) w cid) c of
                   (PrepFail rc, c) \<Rightarrow>
                     Some (rc, Some ''crsql internal error preparing row data fetch statement'', pCur, c)
                 | (Stepped rc, c) \<Rightarrow>
                     if rc = SQLITE_DONE then Some (SQLITE_OK, None, pCur, c)
                     else Some (SQLITE_ERROR, Some ''crsql internal error fetching row data'', pCur, c)
                 | (GotRow v, c) \<Rightarrow> Some (SQLITE_OK, None, pCur\<lparr>pRowStmt := Some v\<rparr>, c)
               }
         }
   }"

definition changesNext :: "sql_env \<Rightarrow> cursor \<Rightarrow> conn \<Rightarrow> vtab_result" where
  "changesNext E pCur c =
     (case pChangesStmt pCur of
        None \<Rightarrow> Some (SQLITE_ERROR,
          Some ''crsql internal error: in an unexpected state. pChangesStmt is null.'', pCur, c)
      | Some st \<Rightarrow>
          let pCur = pCur\<lparr>pRowStmt := None\<rparr>; (f, c) = sql_call c in
          (case cs_rest st of
             [] \<Rightarrow> let (rc, pCur) = changesCrsrFinalize f pCur in Some (rc, None, pCur, c)
           | r # rest \<Rightarrow>
               if f \<noteq> 0 then let (rc, pCur) = changesCrsrFinalize f pCur in Some (rc, None, pCur, c)
               else
                 let st = Some \<lparr>cs_row = Some r, cs_rest = rest\<rparr>;
                     tbl = column_text E (column_value st TBL);
                     pks = column_text E (column_value st PKS);
                     cid = column_text E (column_value st CID);
                     dbVersion = column_int64 E (column_value st DB_VRSN) in
                 fetch_row E tbl pks cid (pCur\<lparr>pChangesStmt := st, cur_dbVersion := dbVersion\<rparr>) c))"

text \<open>The values of the row the cursor stands on.\<close>

definition changesColumn :: "conn \<Rightarrow> cursor \<Rightarrow> nat \<Rightarrow> int \<times> sqlval" where
  "changesColumn c pCur i =
     (let value = column_value (pChangesStmt pCur) in
      if i = CHANGES_SINCE_VTAB_TBL then (SQLITE_OK, value TBL)
      else if i = CHANGES_SINCE_VTAB_PK then (SQLITE_OK, value PKS)
      else if i = CHANGES_SINCE_VTAB_CVAL then
        (SQLITE_OK, case pRowStmt pCur of None \<Rightarrow> VNull | Some v \<Rightarrow> v)
      else if i = CHANGES_SINCE_VTAB_CID then
        (SQLITE_OK, case pRowStmt pCur of None \<Rightarrow> VText DELETE_CID_SENTINEL | Some v \<Rightarrow> value CID)
      else if i = CHANGES_SINCE_VTAB_COL_VRSN then (SQLITE_OK, value COL_VRSN)
      else if i = CHANGES_SINCE_VTAB_DB_VRSN then (SQLITE_OK, VInt (cur_dbVersion pCur))
      else if i = CHANGES_SINCE_VTAB_SITE_ID then
        (SQLITE_OK, if value SITE_ID = VNull then VBlob (take SITE_ID_LEN (siteId (ext c))) else value SITE_ID)
      else (SQLITE_ERROR, VNull))"

text \<open>The arguments of the filter: the site and the version to compare with. An empty site is
  replaced by the one-byte default. Reading past the arguments is undefined.\<close>

definition value_blob :: "sql_env \<Rightarrow> sqlval \<Rightarrow> blob" where
  "value_blob E v = (case v of VNull \<Rightarrow> [] | VBlob b \<Rightarrow> b | VText s \<Rightarrow> map of_char s
     | _ \<Rightarrow> map of_char (conv_text E v))"

definition site_arg :: "sql_env \<Rightarrow> sqlval \<Rightarrow> blob option" where
  "site_arg E a =
     (if a = VNull then None else Some (if value_blob E a = [] then [97] else value_blob E a))"

definition filter_args :: "sql_env \<Rightarrow> nat \<Rightarrow> sqlval list \<Rightarrow> (blob option \<times> int) option" where
  "filter_args E idxNum argv = do {
     (versionBound, argv) \<leftarrow>
       if and idxNum 2 \<noteq> 0 then
         (case argv of [] \<Rightarrow> None | a # rest \<Rightarrow> Some (column_int64 E a, rest))
       else Some (MIN_POSSIBLE_DB_VERSION, argv);
     site \<leftarrow>
       if and idxNum 4 \<noteq> 0 then
         (case argv of [] \<Rightarrow> None
          | a # rest \<Rightarrow> Some (site_arg E a))
       else Some (Some [97]);
     Some (site, versionBound)
   }"

definition changesFilter :: "sql_env \<Rightarrow> nat \<Rightarrow> sqlval list \<Rightarrow> cursor \<Rightarrow> conn \<Rightarrow> vtab_result" where
  "changesFilter E idxNum argv pCrsr c = do {
     let pCrsr = pCrsr\<lparr>pChangesStmt := None\<rparr>;
     (rc, err, c) \<leftarrow> crsql_ensureTableInfosAreUpToDate c;
     if rc \<noteq> SQLITE_OK then Some (rc, err, pCrsr, c)
     else if tableInfosLen (ext c) = 0 then Some (SQLITE_OK, None, pCrsr, c)
     else case zpTableInfos (ext c) of
       Live ts \<Rightarrow>
         let infos = take (tableInfosLen (ext c)) ts in
         (case crsql_changesUnionQuery infos idxNum of
            None \<Rightarrow> Some (SQLITE_ERROR,
              Some ''crsql internal error generating the query to extract changes.'', pCrsr, c)
          | Some zSql \<Rightarrow>
              let (rc, c) = sql_call c;
                  tables = list_all (\<lambda>t. db_clock (db c) (clock_name (ti_tblName t)) \<noteq> None) infos;
                  rc = (if rc = SQLITE_OK \<and> \<not> tables then SQLITE_ERROR else rc) in
              if rc \<noteq> SQLITE_OK then Some (rc,
                Some ''crsql internal error preparing the statement to extract changes.'', pCrsr, c)
              else do {
                (site, versionBound) \<leftarrow> filter_args E idxNum argv;
                rows \<leftarrow> union_rows idxNum site versionBound infos (db c);
                changesNext E (pCrsr\<lparr>pChangesStmt := Some \<lparr>cs_row = None, cs_rest = map row_values rows\<rparr>\<rparr>) c
              })
     | _ \<Rightarrow> None
   }"

section \<open>Planning a query\<close>

text \<open>The operators of constraints; \<open>OpOther\<close> stands for the rest.\<close>

datatype con_op = OpGT | OpNE | OpISNOT | OpEQ | OpIS | OpISNOTNULL | OpISNULL | OpOther

record con =
  con_column :: int
  con_op :: con_op
  con_usable :: bool

record plan =
  pl_argv :: "nat list"
  pl_omit :: "bool list"
  pl_idxNum :: nat
  pl_cost :: int

text \<open>The state of the loop over the constraints.\<close>

record best =
  bs_versionIdx :: "nat option"
  bs_requestorIdx :: "nat option"
  bs_idxNum :: nat
  bs_argv :: "nat list"
  bs_omit :: "bool list"

fun best_loop :: "con list \<Rightarrow> nat \<Rightarrow> best \<Rightarrow> string + best" where
  "best_loop [] i b = Inr b"
| "best_loop (k # ks) i b =
     (if con_column k = int CHANGES_SINCE_VTAB_DB_VRSN then
        if con_op k \<noteq> OpGT then Inl (''crsql_changes.version only supports the greater than '' @
          ''operator. E.g., version > x'')
        else best_loop ks (i + 1) (b\<lparr>bs_versionIdx := Some i, bs_idxNum := or (bs_idxNum b) 2\<rparr>)
      else if con_column k = int CHANGES_SINCE_VTAB_SITE_ID then
        if con_op k \<notin> {OpNE, OpISNOT, OpEQ, OpIS, OpISNOTNULL, OpISNULL} then
          Inl ''crsql_changes.site_id only supports the IS, IS NOT, =, != operators''
        else best_loop ks (i + 1) (b\<lparr>bs_requestorIdx := Some i, bs_argv := (bs_argv b)[i := 2],
          bs_omit := (bs_omit b)[i := True],
          bs_idxNum := (let n = or (bs_idxNum b) 4 in
            if con_op k \<in> {OpEQ, OpIS, OpISNULL} then or n 8 else n)\<rparr>)
      else best_loop ks (i + 1) b)"

definition use_con :: "nat option \<Rightarrow> nat \<Rightarrow> best \<Rightarrow> best" where
  "use_con idx n b = (case idx of None \<Rightarrow> b
     | Some i \<Rightarrow> b\<lparr>bs_argv := (bs_argv b)[i := n], bs_omit := (bs_omit b)[i := True]\<rparr>)"

definition changesBestIndex :: "con list \<Rightarrow> string + plan" where
  "changesBestIndex ks =
     (case best_loop ks 0 \<lparr>bs_versionIdx = None, bs_requestorIdx = None, bs_idxNum = 0,
        bs_argv = replicate (length ks) 0, bs_omit = replicate (length ks) False\<rparr> of
        Inl err \<Rightarrow> Inl err
      | Inr b \<Rightarrow>
          let n = bs_idxNum b;
              (b, cost) =
                (if and n 6 = 6 then
                   (use_con (bs_requestorIdx b) 2 (use_con (bs_versionIdx b) 1 b), 1)
                 else if and n 2 = 2 then (use_con (bs_versionIdx b) 1 b, 10)
                 else if and n 4 = 4 then (use_con (bs_requestorIdx b) 1 b, 2147483647)
                 else (b, 2147483647)) in
          Inr \<lparr>pl_argv = bs_argv b, pl_omit = bs_omit b, pl_idxNum = n, pl_cost = cost\<rparr>)"

section \<open>Connecting, writing, and the end of a transaction\<close>

text \<open>\<^verbatim>\<open>crsql_Changes_vtab\<close>.\<close>

record changes_vtab =
  pSeenPeers :: seen_peers
  zErrMsg :: "string option"

text \<open>The result code, the message for the caller, and the table unless it was released.\<close>

definition changesConnect ::
  "bool \<Rightarrow> conn \<Rightarrow> (int \<times> string option \<times> changes_vtab option \<times> conn) option" where
  "changesConnect malloc_ok c =
     (let (rc, c) = sql_call c in
      if rc \<noteq> SQLITE_OK then Some (rc, Some ''Could not define the table'', None, c)
      else if \<not> malloc_ok then Some (SQLITE_NOMEM, Some ''Out of memory'', None, c)
      else do {
        (rc, err, c) \<leftarrow> crsql_ensureTableInfosAreUpToDate c;
        if rc \<noteq> SQLITE_OK then Some (rc, Some ''Could not update table infos'', None, c)
        else Some (rc, None, Some \<lparr>pSeenPeers = crsql_newSeenPeers, zErrMsg = err\<rparr>, c)
      })"

definition changesDisconnect :: "changes_vtab \<Rightarrow> int" where
  "changesDisconnect p = SQLITE_OK"

text \<open>\<^verbatim>\<open>xUpdate\<close>: \<open>argc\<close> and whether the first argument is NULL; the columns of the new row are \<open>ch\<close>.\<close>

definition changesApply ::
  "sql_env \<Rightarrow> bool \<Rightarrow> nat \<Rightarrow> bool \<Rightarrow> change \<Rightarrow> changes_vtab \<Rightarrow> conn \<Rightarrow>
     (int \<times> int option \<times> changes_vtab \<times> conn) option" where
  "changesApply E realloc_ok argc argv0_null ch v c =
     (if argc > 1 \<and> argv0_null then do {
        r \<leftarrow> crsql_mergeInsert E realloc_ok ch (pSeenPeers v) c;
        Some (mr_rc r, mr_rowid r, v\<lparr>pSeenPeers := mr_peers r,
          zErrMsg := (if mr_rc r \<noteq> SQLITE_OK then mr_errmsg r else zErrMsg v)\<rparr>, mr_conn r)
      }
      else Some (SQLITE_MISUSE, None, v\<lparr>zErrMsg := Some (''Only INSERT and SELECT statements are '' @
        ''allowed against the crsql changes table.'')\<rparr>, c))"

definition changesInsertBegin :: "changes_vtab \<Rightarrow> int" where
  "changesInsertBegin v = SQLITE_OK"

definition changesInsertCommit :: "changes_vtab \<Rightarrow> conn \<Rightarrow> int \<times> changes_vtab \<times> conn" where
  "changesInsertCommit v c =
     (let (rc, c) = crsql_writeTrackedPeers (pSeenPeers v) c in
      (rc, v\<lparr>pSeenPeers := crsql_resetSeenPeers (pSeenPeers v)\<rparr>, c))"

end
