(* ===== verification/Changes_Plan.thy ===== *)
theory Changes_Plan imports Changes_Vtab begin

text \<open>
  Planning a query of \<^verbatim>\<open>crsql_changes\<close>: what \<open>changesBestIndex\<close> tells SQLite and what
  \<open>changesFilter\<close> makes of the arguments SQLite then passes.
\<close>

section \<open>What SQLite does with a plan\<close>

text \<open>The constraints with a positive index are evaluated and passed in the order of the indices,
  which must be 1, 2, and so on, each once.\<close>

definition argv_of :: "plan \<Rightarrow> sqlval list \<Rightarrow> sqlval list" where
  "argv_of p vs = map snd (sort_key fst (filter (\<lambda>(n, v). n > 0) (zip (pl_argv p) vs)))"

definition plan_accepted :: "plan \<Rightarrow> bool" where
  "plan_accepted p \<longleftrightarrow> (let ns = sort (filter (\<lambda>n. n > 0) (pl_argv p)) in ns = [1..<Suc (length ns)])"

section \<open>What the query asks for\<close>

definition asked :: "nat \<Rightarrow> con list \<Rightarrow> sqlval list \<Rightarrow> (con \<times> sqlval) option" where
  "asked col ks vs = find (\<lambda>(k, v). con_column k = int col) (zip ks vs)"

definition asked_version :: "sql_env \<Rightarrow> con list \<Rightarrow> sqlval list \<Rightarrow> int" where
  "asked_version E ks vs = (case asked CHANGES_SINCE_VTAB_DB_VRSN ks vs of
     None \<Rightarrow> MIN_POSSIBLE_DB_VERSION | Some (k, v) \<Rightarrow> column_int64 E v)"

definition asked_site :: "sql_env \<Rightarrow> con list \<Rightarrow> sqlval list \<Rightarrow> blob option" where
  "asked_site E ks vs = (case asked CHANGES_SINCE_VTAB_SITE_ID ks vs of
     None \<Rightarrow> Some [97] | Some (k, v) \<Rightarrow> site_arg E v)"

definition same_site_asked :: "con list \<Rightarrow> sqlval list \<Rightarrow> bool" where
  "same_site_asked ks vs = (case asked CHANGES_SINCE_VTAB_SITE_ID ks vs of
     None \<Rightarrow> False | Some (k, v) \<Rightarrow> con_op k \<in> {OpEQ, OpIS, OpISNULL})"

definition site_op :: "con \<Rightarrow> bool" where
  "site_op k \<longleftrightarrow> con_op k \<in> {OpNE, OpISNOT, OpEQ, OpIS, OpISNOTNULL, OpISNULL}"

definition version_con :: "con \<Rightarrow> bool" where
  "version_con k \<longleftrightarrow> con_column k = int CHANGES_SINCE_VTAB_DB_VRSN"

definition site_con :: "con \<Rightarrow> bool" where
  "site_con k \<longleftrightarrow> con_column k = int CHANGES_SINCE_VTAB_SITE_ID"

definition neutral :: "con list \<Rightarrow> bool" where
  "neutral ks \<longleftrightarrow> list_all (\<lambda>k. \<not> version_con k \<and> \<not> site_con k) ks"

text \<open>At most one constraint on the version, which is \<^verbatim>\<open>>\<close>, and at most one on the site.\<close>

definition query_ok :: "con list \<Rightarrow> bool" where
  "query_ok ks \<longleftrightarrow> length (filter version_con ks) \<le> 1 \<and> length (filter site_con ks) \<le> 1 \<and>
     list_all (\<lambda>k. version_con k \<longrightarrow> con_op k = OpGT) ks \<and> list_all (\<lambda>k. site_con k \<longrightarrow> site_op k) ks"

section \<open>The loop\<close>

lemma best_loop_neutral: "neutral ks \<Longrightarrow> best_loop ks i b = Inr b"
  by (induction ks arbitrary: i) (auto simp: neutral_def version_con_def site_con_def)

lemma best_loop_append:
  "best_loop (xs @ ys) i b =
     (case best_loop xs i b of Inl e \<Rightarrow> Inl e | Inr b' \<Rightarrow> best_loop ys (i + length xs) b')"
  by (induction xs arbitrary: i b) (auto split: sum.splits)

lemma best_loop_version: "version_con k \<Longrightarrow> con_op k = OpGT \<Longrightarrow>
    best_loop (k # ks) i b =
      best_loop ks (i + 1) (b\<lparr>bs_versionIdx := Some i, bs_idxNum := or (bs_idxNum b) 2\<rparr>)"
  by (simp add: version_con_def)

lemma best_loop_site: "site_con k \<Longrightarrow> site_op k \<Longrightarrow>
    best_loop (k # ks) i b =
      best_loop ks (i + 1) (b\<lparr>bs_requestorIdx := Some i, bs_argv := (bs_argv b)[i := 2],
        bs_omit := (bs_omit b)[i := True],
        bs_idxNum := (let n = or (bs_idxNum b) 4 in
          if con_op k \<in> {OpEQ, OpIS, OpISNULL} then or n 8 else n)\<rparr>)"
  by (simp add: site_con_def site_op_def)

lemma split_at_most_one:
  assumes "length (filter P xs) \<le> 1"
  obtains "list_all (\<lambda>x. \<not> P x) xs"
    | as x bs where "xs = as @ x # bs" "P x" "list_all (\<lambda>x. \<not> P x) as" "list_all (\<lambda>x. \<not> P x) bs"
proof (cases "filter P xs")
  case Nil
  then show thesis using that(1) by (simp add: list_all_iff filter_empty_conv)
next
  case (Cons x ys)
  with assms have "ys = []" by simp
  from Cons obtain as bs where xs: "xs = as @ x # bs" "\<forall>u\<in>set as. \<not> P u" "P x" "ys = filter P bs"
    by (auto simp: filter_eq_Cons_iff)
  moreover have "list_all (\<lambda>x. \<not> P x) bs" using \<open>ys = []\<close> xs(4) by (simp add: filter_empty_conv list_all_iff)
  ultimately show thesis using that(2) by (simp add: list_all_iff)
qed

text \<open>The five shapes of such a query.\<close>

lemma query_shapes:
  assumes "query_ok ks"
  obtains (none) "neutral ks"
    | (version) as k bs where "ks = as @ k # bs" "version_con k" "con_op k = OpGT" "neutral as" "neutral bs"
    | (site) as k bs where "ks = as @ k # bs" "site_con k" "site_op k" "neutral as" "neutral bs"
    | (version_site) as k bs j cs where "ks = as @ k # bs @ j # cs" "version_con k" "con_op k = OpGT"
      "site_con j" "site_op j" "neutral as" "neutral bs" "neutral cs"
    | (site_version) as k bs j cs where "ks = as @ k # bs @ j # cs" "site_con k" "site_op k"
      "version_con j" "con_op j = OpGT" "neutral as" "neutral bs" "neutral cs"
proof -
  have excl: "\<not> (version_con k \<and> site_con k)" for k by (simp add: version_con_def site_con_def)
  note q = assms [unfolded query_ok_def]
  show thesis
  proof (rule split_at_most_one [of version_con ks])
    show "length (filter version_con ks) \<le> 1" using q by blast
  next
    assume v: "list_all (\<lambda>x. \<not> version_con x) ks"
    show thesis
    proof (rule split_at_most_one [of site_con ks])
      show "length (filter site_con ks) \<le> 1" using q by blast
    next
      assume "list_all (\<lambda>x. \<not> site_con x) ks"
      with v show thesis using none by (auto simp: neutral_def list_all_iff)
    next
      fix as x bs
      assume "ks = as @ x # bs" "site_con x" "list_all (\<lambda>x. \<not> site_con x) as" "list_all (\<lambda>x. \<not> site_con x) bs"
      with v q show thesis using site [of as x bs] by (auto simp: neutral_def list_all_iff)
    qed
  next
    fix as x bs
    assume v: "ks = as @ x # bs" "version_con x" "list_all (\<lambda>x. \<not> version_con x) as"
      "list_all (\<lambda>x. \<not> version_con x) bs"
    have x: "con_op x = OpGT" "\<not> site_con x" using q v(1,2) excl by auto
    have one: "length (filter site_con as) + length (filter site_con bs) \<le> 1"
      using q x(2) by (simp add: v(1))
    show thesis
    proof (rule split_at_most_one [of site_con as])
      show "length (filter site_con as) \<le> 1" using one by simp
    next
      assume a: "list_all (\<lambda>x. \<not> site_con x) as"
      show thesis
      proof (rule split_at_most_one [of site_con bs])
        show "length (filter site_con bs) \<le> 1" using one by simp
      next
        assume "list_all (\<lambda>x. \<not> site_con x) bs"
        with v a x show thesis using version [of as x bs] by (auto simp: neutral_def list_all_iff)
      next
        fix bs' y cs
        assume "bs = bs' @ y # cs" "site_con y" "list_all (\<lambda>x. \<not> site_con x) bs'" "list_all (\<lambda>x. \<not> site_con x) cs"
        with v a x q show thesis using version_site [of as x bs' y cs] by (auto simp: neutral_def list_all_iff)
      qed
    next
      fix as' y cs
      assume y: "as = as' @ y # cs" "site_con y" "list_all (\<lambda>x. \<not> site_con x) as'" "list_all (\<lambda>x. \<not> site_con x) cs"
      then have "list_all (\<lambda>x. \<not> site_con x) bs" using one by (auto simp: list_all_iff filter_empty_conv)
      with y v x q show thesis using site_version [of as' y cs x bs] by (auto simp: neutral_def list_all_iff)
    qed
  qed
qed

lemma update_replicate: "(replicate (Suc (m + n)) x)[m := y] = replicate m x @ y # replicate n x"
  by (induction m) simp_all

lemma update_replicate_Cons: "(x # replicate (m + n) x)[m := y] = replicate m x @ y # replicate n x"
  using update_replicate [of m n x y] by simp

text \<open>For lists of replicates the case distinction in \<open>list_update\<close> is in the way.\<close>

lemmas update_at = update_replicate_Cons list_update_code list_update_append

lemma no_args: "filter (\<lambda>(n, v). n > 0) (zip (replicate k (0::nat)) vs) = []"
  by (auto simp: filter_empty_conv dest: set_zip_leftD)

lemma asked_append:
  "length xs = length us \<Longrightarrow> asked col (xs @ ys) (us @ vs) =
     (case asked col xs us of None \<Rightarrow> asked col ys vs | Some r \<Rightarrow> Some r)"
  by (simp add: asked_def find_append cong: option.case_cong)

lemma asked_Cons: "asked col (k # ks) (v # vs) = (if con_column k = int col then Some (k, v) else asked col ks vs)"
  by (simp add: asked_def)

lemma asked_neutral: "neutral ks \<Longrightarrow> asked CHANGES_SINCE_VTAB_DB_VRSN ks vs = None"
  "neutral ks \<Longrightarrow> asked CHANGES_SINCE_VTAB_SITE_ID ks vs = None"
  by (auto simp: asked_def find_None_iff neutral_def list_all_iff version_con_def site_con_def
      dest: set_zip_leftD)

lemma split_args:
  assumes "length vs = length (as @ k # bs)"
  obtains ua v ub where "vs = ua @ v # ub" "length ua = length as" "length ub = length bs"
proof
  show "vs = take (length as) vs @ vs ! length as # drop (Suc (length as)) vs"
    using assms by (simp add: id_take_nth_drop)
qed (use assms in simp_all)

section \<open>The plans\<close>

lemma plan_none: "neutral ks \<Longrightarrow> changesBestIndex ks =
    Inr \<lparr>pl_argv = replicate (length ks) 0, pl_omit = replicate (length ks) False, pl_idxNum = 0,
      pl_cost = 2147483647\<rparr>"
  by (simp add: changesBestIndex_def best_loop_neutral)

lemma plan_version:
  assumes "version_con k" and "con_op k = OpGT" and "neutral as" and "neutral bs"
  shows "changesBestIndex (as @ k # bs) =
    Inr \<lparr>pl_argv = replicate (length as) 0 @ 1 # replicate (length bs) 0,
      pl_omit = replicate (length as) False @ True # replicate (length bs) False,
      pl_idxNum = 2, pl_cost = 10\<rparr>"
  using assms
  by (simp add: changesBestIndex_def best_loop_append best_loop_neutral best_loop_version use_con_def
      update_replicate del: best_loop.simps replicate_Suc)

lemma plan_site:
  assumes "site_con k" and "site_op k" and "neutral as" and "neutral bs"
  shows "changesBestIndex (as @ k # bs) =
    Inr \<lparr>pl_argv = replicate (length as) 0 @ 1 # replicate (length bs) 0,
      pl_omit = replicate (length as) False @ True # replicate (length bs) False,
      pl_idxNum = (if con_op k \<in> {OpEQ, OpIS, OpISNULL} then 12 else 4), pl_cost = 2147483647\<rparr>"
  using assms
  by (simp add: changesBestIndex_def best_loop_append best_loop_neutral best_loop_site use_con_def
      update_replicate Let_def list_update_append del: best_loop.simps replicate_Suc)

lemma plan_version_site:
  assumes "version_con k" and "con_op k = OpGT" and "site_con j" and "site_op j"
    and "neutral as" and "neutral bs" and "neutral cs"
  shows "changesBestIndex (as @ k # bs @ j # cs) =
    Inr \<lparr>pl_argv = replicate (length as) 0 @ 1 # replicate (length bs) 0 @ 2 # replicate (length cs) 0,
      pl_omit = replicate (length as) False @ True # replicate (length bs) False @ True # replicate (length cs) False,
      pl_idxNum = (if con_op j \<in> {OpEQ, OpIS, OpISNULL} then 14 else 6), pl_cost = 1\<rparr>"
proof -
  have u: "((replicate (Suc (Suc (a + (b + c)))) x)[Suc (a + b) := y])[a := z] =
      replicate a x @ z # replicate b x @ y # replicate c x"
    "(replicate a x @ z # replicate b x @ y # replicate c x)[Suc (a + b) := y] =
      replicate a x @ z # replicate b x @ y # replicate c x" for a b c and x y z :: 'a
    by (induction a) (simp_all add: update_at del: list_update.simps)
  show ?thesis
    using assms
    by (simp add: changesBestIndex_def best_loop_append best_loop_neutral best_loop_version best_loop_site
        use_con_def u Let_def del: best_loop.simps replicate_Suc)
qed

lemma plan_site_version:
  assumes "site_con k" and "site_op k" and "version_con j" and "con_op j = OpGT"
    and "neutral as" and "neutral bs" and "neutral cs"
  shows "changesBestIndex (as @ k # bs @ j # cs) =
    Inr \<lparr>pl_argv = replicate (length as) 0 @ 2 # replicate (length bs) 0 @ 1 # replicate (length cs) 0,
      pl_omit = replicate (length as) False @ True # replicate (length bs) False @ True # replicate (length cs) False,
      pl_idxNum = (if con_op k \<in> {OpEQ, OpIS, OpISNULL} then 14 else 6), pl_cost = 1\<rparr>"
proof -
  have u: "(replicate (Suc (Suc (a + (b + c)))) x)[a := y, Suc (a + b) := z, a := y] =
      replicate a x @ y # replicate b x @ z # replicate c x" for a b c and x y z :: 'a
    by (induction a) (simp_all add: update_at del: list_update.simps)
  show ?thesis
    using assms
    by (simp add: changesBestIndex_def best_loop_append best_loop_neutral best_loop_version best_loop_site
        use_con_def u Let_def del: best_loop.simps replicate_Suc)
qed

text \<open>C13. A query that compares the version with \<^verbatim>\<open>>\<close> at most once and the site at most once, in any
  order and among any other conditions, gets a plan SQLite accepts; the arguments SQLite then
  passes are decoded to the version and the site the query asks for, the plan's bit 8 says
  whether rows of that site are wanted or all others, and SQLite is told not to check those two
  conditions again.\<close>

theorem planned_filter:
  assumes "query_ok ks" and "length vs = length ks"
  shows "\<exists>p. changesBestIndex ks = Inr p \<and> plan_accepted p \<and>
    filter_args E (pl_idxNum p) (argv_of p vs) = Some (asked_site E ks vs, asked_version E ks vs) \<and>
    (and (pl_idxNum p) 8 = 8) = same_site_asked ks vs \<and>
    pl_omit p = map (\<lambda>k. version_con k \<or> site_con k) ks"
proof -
  have omit: "map (\<lambda>k. version_con k \<or> site_con k) xs = replicate (length xs) False" if "neutral xs" for xs
    using that by (induction xs) (auto simp: neutral_def)
  have cols: "version_con k \<Longrightarrow> con_column k = 5" "site_con k \<Longrightarrow> con_column k = 6" for k
    by (simp_all add: version_con_def site_con_def)
  note simps = plan_accepted_def argv_of_def filter_args_def asked_version_def asked_site_def
    same_site_asked_def asked_append asked_Cons asked_neutral omit no_args cols
  from assms(1) show ?thesis
  proof (cases rule: query_shapes)
    case none
    then show ?thesis using assms(2) plan_none [OF none] by (simp add: simps)
  next
    case (version as k bs)
    obtain ua v ub where "vs = ua @ v # ub" "length ua = length as" "length ub = length bs"
      using split_args [of vs as k bs] assms(2) version(1) by metis
    with version plan_version [OF version(2-5)] show ?thesis by (simp add: simps)
  next
    case (site as k bs)
    obtain ua v ub where "vs = ua @ v # ub" "length ua = length as" "length ub = length bs"
      using split_args [of vs as k bs] assms(2) site(1) by metis
    with site plan_site [OF site(2-5)] show ?thesis by (simp add: simps)
  next
    case (version_site as k bs j cs)
    obtain ua v u' where u: "vs = ua @ v # u'" "length ua = length as" "length u' = length (bs @ j # cs)"
      using split_args [of vs as k "bs @ j # cs"] assms(2) version_site(1) by metis
    obtain ub w uc where "u' = ub @ w # uc" "length ub = length bs" "length uc = length cs"
      using split_args [of u' bs j cs] u(3) by metis
    with u version_site plan_version_site [OF version_site(2-8)] show ?thesis by (simp add: simps)
  next
    case (site_version as k bs j cs)
    obtain ua v u' where u: "vs = ua @ v # u'" "length ua = length as" "length u' = length (bs @ j # cs)"
      using split_args [of vs as k "bs @ j # cs"] assms(2) site_version(1) by metis
    obtain ub w uc where "u' = ub @ w # uc" "length ub = length bs" "length uc = length cs"
      using split_args [of u' bs j cs] u(3) by metis
    with u site_version plan_site_version [OF site_version(2-8)] show ?thesis by (simp add: simps)
  qed
qed

text \<open>\<^verbatim>\<open>site_id = x'01' AND tbl = 'foo' AND db_version > 5\<close>.\<close>

theorem planned_filter_witness:
  "\<exists>p. changesBestIndex [\<lparr>con_column = 6, con_op = OpEQ, con_usable = True\<rparr>,
       \<lparr>con_column = 0, con_op = OpEQ, con_usable = True\<rparr>,
       \<lparr>con_column = 5, con_op = OpGT, con_usable = True\<rparr>] = Inr p \<and>
     filter_args no_env (pl_idxNum p) (argv_of p [VBlob [1], VText ''foo'', VInt 5]) = Some (Some [1], 5) \<and>
     and (pl_idxNum p) 8 = 8"
  using planned_filter [of "[\<lparr>con_column = 6, con_op = OpEQ, con_usable = True\<rparr>,
      \<lparr>con_column = 0, con_op = OpEQ, con_usable = True\<rparr>,
      \<lparr>con_column = 5, con_op = OpGT, con_usable = True\<rparr>]" "[VBlob [1], VText ''foo'', VInt 5]" no_env]
  by (auto simp: query_ok_def version_con_def site_con_def site_op_def asked_site_def asked_version_def
      same_site_asked_def asked_def site_arg_def value_blob_def column_int64_def)

section \<open>Plans that are wrong\<close>

text \<open>A query with two conditions on the site, say \<^verbatim>\<open>site_id = A AND site_id != B\<close>, gets a plan that
  SQLite accepts and whose two conditions SQLite does not check again; the cursor then returns the
  changes of exactly the site that was excluded, because only the last value is read while the
  bit set by the first operator stays.\<close>

theorem two_site_conditions:
  "\<exists>p. changesBestIndex [\<lparr>con_column = 6, con_op = OpEQ, con_usable = True\<rparr>,
       \<lparr>con_column = 6, con_op = OpNE, con_usable = True\<rparr>] = Inr p \<and>
     plan_accepted p \<and> pl_omit p = [True, True] \<and> and (pl_idxNum p) 8 = 8 \<and>
     filter_args E (pl_idxNum p) (argv_of p [a, b]) = Some (site_arg E b, MIN_POSSIBLE_DB_VERSION)"
  by (simp add: changesBestIndex_def Let_def use_con_def plan_accepted_def argv_of_def filter_args_def)

lemma best_loop_usable: "best_loop (map (\<lambda>k. k\<lparr>con_usable := u k\<rparr>) ks) i b = best_loop ks i b"
  by (induction ks arbitrary: i b) simp_all

text \<open>The plan does not depend on which conditions SQLite says can be used: a condition whose
  other side comes from a table that is read later gets an argument too, and SQLite refuses
  the query.\<close>

theorem usable_is_ignored:
  "changesBestIndex (map (\<lambda>k. k\<lparr>con_usable := u k\<rparr>) ks) = changesBestIndex ks"
  by (simp add: changesBestIndex_def best_loop_usable)

end
