(* ===== verification/Changes_Read.thy ===== *)
theory Changes_Read imports Changes_Plan begin

text \<open>
  Reading \<^verbatim>\<open>crsql_changes\<close>: the loop in which SQLite drives the cursor, that it always ends, and
  which rows it delivers.
\<close>

section \<open>The loop of a query\<close>

text \<open>SQLite calls \<^verbatim>\<open>xFilter\<close>, and then \<^verbatim>\<open>xColumn\<close> and \<^verbatim>\<open>xNext\<close> until \<^verbatim>\<open>xEof\<close> or an error. The number
  bounds the calls of \<^verbatim>\<open>xNext\<close>.\<close>

datatype outcome = Undefined | OutOfFuel | Read int "sqlval list list" cursor conn

definition output_row :: "conn \<Rightarrow> cursor \<Rightarrow> sqlval list" where
  "output_row c cur = map (\<lambda>i. snd (changesColumn c cur i)) [0..<7]"

fun add_row :: "sqlval list \<Rightarrow> outcome \<Rightarrow> outcome" where
  "add_row r (Read rc rows cur c) = Read rc (r # rows) cur c"
| "add_row r Undefined = Undefined"
| "add_row r OutOfFuel = OutOfFuel"

fun read_loop :: "sql_env \<Rightarrow> nat \<Rightarrow> cursor \<Rightarrow> conn \<Rightarrow> outcome" where
  "read_loop E 0 cur c = OutOfFuel"
| "read_loop E (Suc n) cur c =
     (if changesEof cur then Read SQLITE_OK [] cur c
      else case changesNext E cur c of
          None \<Rightarrow> Undefined
        | Some (rc, err, cur', c') \<Rightarrow>
            add_row (output_row c cur)
              (if rc \<noteq> SQLITE_OK then Read rc [] cur' c' else read_loop E n cur' c'))"

definition read_changes :: "sql_env \<Rightarrow> nat \<Rightarrow> nat \<Rightarrow> sqlval list \<Rightarrow> conn \<Rightarrow> outcome" where
  "read_changes E n idxNum argv c =
     (case changesOpen True of
        (rc, None) \<Rightarrow> Read rc [] \<lparr>pChangesStmt = None, pRowStmt = None, cur_dbVersion = 0\<rparr> c
      | (rc, Some cur) \<Rightarrow>
          (case changesFilter E idxNum argv cur c of
             None \<Rightarrow> Undefined
           | Some (rc, err, cur, c) \<Rightarrow>
               if rc \<noteq> SQLITE_OK then Read rc [] cur c else read_loop E n cur c))"

section \<open>Termination\<close>

definition rows_left :: "cursor \<Rightarrow> nat" where
  "rows_left cur = (case pChangesStmt cur of None \<Rightarrow> 0 | Some st \<Rightarrow> Suc (length (cs_rest st)))"

lemma rows_left_simps [simp]:
  "rows_left (cur\<lparr>pRowStmt := v\<rparr>) = rows_left cur"
  "rows_left (cur\<lparr>cur_dbVersion := n\<rparr>) = rows_left cur"
  "rows_left (cur\<lparr>pChangesStmt := s\<rparr>) = (case s of None \<Rightarrow> 0 | Some st \<Rightarrow> Suc (length (cs_rest st)))"
  by (simp_all add: rows_left_def)

lemma finalize_simps [simp]: "changesCrsrFinalize f cur = (rc, cur') \<longleftrightarrow>
    rc = f \<and> cur' = cur\<lparr>pChangesStmt := None, pRowStmt := None, cur_dbVersion := 0\<rparr>"
  by (auto simp: changesCrsrFinalize_def)

lemma fetch_row_left_aux:
  "case fetch_row E tbl pks cid cur c of None \<Rightarrow> True | Some (rc, err, cur', c') \<Rightarrow> rows_left cur' \<le> rows_left cur"
  unfolding fetch_row_def changesCrsrFinalize_def Let_def
  by (simp split: option.split stepres.split prod.split Option.bind_split)

lemma fetch_row_left: "fetch_row E tbl pks cid cur c = Some (rc, err, cur', c') \<Longrightarrow> rows_left cur' \<le> rows_left cur"
  using fetch_row_left_aux [where E = E and tbl = tbl and pks = pks and cid = cid and cur = cur and c = c] by simp

lemma next_left:
  assumes "changesNext E cur c = Some (rc, err, cur', c')" and "\<not> changesEof cur"
  shows "rows_left cur' < rows_left cur"
proof -
  obtain st where st: "pChangesStmt cur = Some st" using assms(2) by (auto simp: changesEof_def)
  have "rows_left cur = Suc (length (cs_rest st))" by (simp add: rows_left_def st)
  with assms(1) st show ?thesis
    by (auto simp: changesNext_def Let_def split: list.splits prod.splits if_splits dest!: fetch_row_left)
qed

lemma add_row_OutOfFuel [simp]: "add_row r x = OutOfFuel \<longleftrightarrow> x = OutOfFuel"
  by (cases x) simp_all

lemma read_loop_ends: "rows_left cur < n \<Longrightarrow> read_loop E n cur c \<noteq> OutOfFuel"
proof (induction n arbitrary: cur c)
  case (Suc n)
  have "read_loop E n cur' c' \<noteq> OutOfFuel"
    if "changesNext E cur c = Some (rc, err, cur', c')" "\<not> changesEof cur" for rc err cur' c'
    using next_left [OF that] Suc.prems by (intro Suc.IH) simp
  then show ?case by (auto split: option.split)
qed simp

text \<open>The clock entries of the tables the extension knows.\<close>

definition clock_count :: "conn \<Rightarrow> nat" where
  "clock_count c = (case zpTableInfos (ext c) of
     Live ts \<Rightarrow> sum_list (map (\<lambda>info. length (clock_rows (db c) (ti_tblName info))) (take (tableInfosLen (ext c)) ts))
   | _ \<Rightarrow> 0)"

lemma union_rows_length:
  assumes "union_rows idxNum site v infos d = Some rows"
  shows "length rows \<le> sum_list (map (\<lambda>info. length (clock_rows d (ti_tblName info))) infos)"
proof -
  obtain rss where rss: "those (map (table_changes idxNum site v d) infos) = Some rss"
    "rows = sort_key order_key (remdups (concat rss))"
    using assms by (auto simp: union_rows_def)
  have "length (concat rss) \<le> sum_list (map (\<lambda>info. length (clock_rows d (ti_tblName info))) infos)"
    using rss(1)
  proof (induction infos arbitrary: rss)
    case (Cons info infos)
    then obtain rs rss' where c: "table_changes idxNum site v d info = Some rs" "rss = rs # rss'"
      "those (map (table_changes idxNum site v d) infos) = Some rss'"
      by (auto split: option.splits)
    have "length rs \<le> length (clock_rows d (ti_tblName info))"
      using c(1) by (auto simp: table_changes_def clock_rows_def)
    with Cons.IH [OF c(3)] show ?case by (simp add: c(2))
  qed simp
  then have "length (remdups (concat rss)) \<le> sum_list (map (\<lambda>info. length (clock_rows d (ti_tblName info))) infos)"
    by (rule order_trans [OF length_remdups_leq])
  then show ?thesis by (simp add: rss(2))
qed

lemma filter_left:
  assumes "crsql_ensureTableInfosAreUpToDate c = Some (rc1, err1, c1)"
    and "changesFilter E idxNum argv cur c = Some (rc, err, cur', c')"
  shows "rows_left cur' \<le> clock_count c1"
proof (cases "zpTableInfos (ext c1)")
  case (Live ts)
  have step: "rows_left cur2 \<le> clock_count c1"
    if u: "union_rows idxNum site v (take (tableInfosLen (ext c1)) ts) (db c1) = Some rows"
    and n: "changesNext E (cur1\<lparr>pChangesStmt := Some \<lparr>cs_row = None, cs_rest = map row_values rows\<rparr>\<rparr>) c2 =
      Some (rc2, err2, cur2, c3)" for site v c2 rows cur1 rc2 err2 cur2 c3
    using next_left [OF n] union_rows_length [OF u] by (simp add: changesEof_def clock_count_def Live)
  show ?thesis
    using assms sql_call_same [of c1]
    by (auto simp: changesFilter_def Let_def Live split: prod.splits if_splits option.splits bind_splits intro: step)
qed (use assms in \<open>auto simp: changesFilter_def Let_def rows_left_def split: if_splits bind_splits\<close>)

text \<open>C14. Reading the changes ends, whatever statements fail and whatever the tables hold: a query of
  the changes table takes no more steps of its cursor than the tables the extension knows, after it has
  updated what it knows, have clock entries.\<close>

theorem reading_ends:
  assumes "crsql_ensureTableInfosAreUpToDate c = Some (rc1, err1, c1)" and "clock_count c1 < n"
  shows "read_changes E n idxNum argv c \<noteq> OutOfFuel"
proof (cases "changesFilter E idxNum argv \<lparr>pChangesStmt = None, pRowStmt = None, cur_dbVersion = 0\<rparr> c")
  case None
  then show ?thesis by (simp add: read_changes_def changesOpen_def)
next
  case (Some r)
  obtain rc err cur c' where r: "r = (rc, err, cur, c')" by (cases r)
  have "rows_left cur < n" using filter_left [OF assms(1)] Some r assms(2) by (metis le_less_trans)
  then show ?thesis using read_loop_ends [of cur n E c'] Some r by (simp add: read_changes_def changesOpen_def)
qed

lemma replica_ensure:
  assumes "replica ts c" and "ts \<noteq> []"
  obtains c1 where "crsql_ensureTableInfosAreUpToDate c = Some (SQLITE_OK, None, c1)" "replica ts c1"
    "only_infos c c1" "zpTableInfos (ext c1) = Live ts" "tableInfosLen (ext c1) = length ts" "faults c1 = []"
proof -
  have c: "conn_ok c" "infos_inv c" "current_infos (db c) = Some ts" "cols_ok (db c)"
    using assms(1) by (simp_all add: replica_def)
  then have "ready c" by (simp add: conn_ok_def)
  then have f: "faults c = []" "stmts_live c" "names_short (db c)" "clock_tables_select (db c) \<noteq> []"
    using c(3) assms(2) by (auto simp: ready_def clocks_ok_def current_infos_def)
  then obtain c1 where ens: "crsql_ensureTableInfosAreUpToDate c = Some (SQLITE_OK, None, c1)"
    "zpTableInfos (ext c1) = Live ts" "tableInfosLen (ext c1) = length ts" "infos_inv c1"
    and only: "only_infos c c1"
    using ensure_up_to_date_aux [of c ts] c by blast
  have db1: "db c1 = db c" "syncBit c1 = syncBit c" "faults c1 = []"
    using only f(1) by (simp_all add: only_infos_def)
  then have "replica ts c1"
    using assms(1) ens(4) only_infos_conn_ok [OF only] by (simp add: replica_def)
  with that ens(1-3) only db1(3) show thesis by blast
qed

text \<open>The filled table has two clock entries, so three steps are enough.\<close>

theorem reading_ends_witness: "read_changes no_env 3 6 [VInt 3, VNull] filled_conn \<noteq> OutOfFuel"
proof -
  obtain c1 where c1: "crsql_ensureTableInfosAreUpToDate filled_conn = Some (SQLITE_OK, None, c1)"
    "zpTableInfos (ext c1) = Live [foo_info]" "tableInfosLen (ext c1) = length [foo_info]" "db c1 = db filled_conn"
    using replica_ensure [OF replica_filled] by (auto simp: only_infos_def)
  moreover have "length (clock_rows (db filled_conn) (ti_tblName foo_info)) = 2" by code_simp
  ultimately have "clock_count c1 < 3" by (simp add: clock_count_def)
  from reading_ends [OF c1(1) this] show ?thesis .
qed

section \<open>The row of a clock\<close>

text \<open>What a clock entry is read as: the value of its column, or a delete when the row is gone. The
  entry of a row without other columns carries its own name as value, because that name in
  quotes is no column.\<close>

definition live_value :: "table_info \<Rightarrow> database \<Rightarrow> clock_row \<Rightarrow> sqlval option" where
  "live_value info d k =
     (if ck_col k = DELETE_CID_SENTINEL then None
      else map_option (\<lambda>r. if ck_col k \<in> ci_name ` set (ti_nonPks info) then r (ck_col k) else VText (ck_col k))
        (find_row info (user_rows d (ti_tblName info)) (ck_pk k)))"

definition msg_of :: "table_info \<Rightarrow> database \<Rightarrow> blob \<Rightarrow> clock_row \<Rightarrow> msg" where
  "msg_of info d own k =
     \<lparr>ms_info = info, ms_pk = ck_pk k,
      ms_cid = (if live_value info d k = None then DELETE_CID_SENTINEL else ck_col k),
      ms_val = (case live_value info d k of None \<Rightarrow> VNull | Some v \<Rightarrow> v),
      ms_vrsn = ck_vrsn k, ms_dbv = ck_dbv k,
      ms_site = (case ck_site k of None \<Rightarrow> own | Some b \<Rightarrow> b)\<rparr>"

definition columns_of :: "msg \<Rightarrow> sqlval list" where
  "columns_of m =
     [VText (ti_tblName (ms_info m)), VText (key_text (ms_pk m)), VText (ms_cid m),
      if ms_cid m = DELETE_CID_SENTINEL then VNull else VText (quote_val (ms_val m)),
      VInt (ms_vrsn m), VInt (ms_dbv m), VBlob (ms_site m)]"

text \<open>Tables whose changes can be read and sent: no key column has the name of a column of the
  query, the values are finite, and every clock entry but a delete belongs to a row that exists
  or was deleted.\<close>

definition clock_ok :: "table_info \<Rightarrow> database \<Rightarrow> clock_row \<Rightarrow> bool" where
  "clock_ok info d k \<longleftrightarrow> key_ok info (ck_pk k) \<and>
     ck_col k \<in> {DELETE_CID_SENTINEL, PKS_ONLY_CID_SENTINEL} \<union> ci_name ` set (ti_nonPks info) \<and>
     (case ck_site k of None \<Rightarrow> True | Some b \<Rightarrow> length b \<le> SITE_ID_LEN) \<and>
     (find_row info (user_rows d (ti_tblName info)) (ck_pk k) = None \<longrightarrow>
       clock_lookup (clock_rows d (ti_tblName info)) (ck_pk k) DELETE_CID_SENTINEL \<noteq> None)"

definition readable :: "table_info \<Rightarrow> database \<Rightarrow> bool" where
  "readable info d \<longleftrightarrow>
     (case (db_user d (ti_tblName info), db_clock d (clock_name (ti_tblName info))) of
        (Some t, Some ct) \<Rightarrow>
          find_col (ct_pks ct) ''site_id'' = None \<and> find_col (ct_pks ct) ''db_vrsn'' = None \<and>
          find_col (map ci_name (ut_cols t)) PKS_ONLY_CID_SENTINEL = None
      | _ \<Rightarrow> False) \<and>
     length (ti_tblName info) \<le> MAX_TBL_NAME_LEN \<and>
     list_all (\<lambda>col. length (ci_name col) \<le> MAX_TBL_NAME_LEN) (ti_nonPks info) \<and>
     list_all (clock_ok info d) (clock_rows d (ti_tblName info)) \<and>
     list_all (\<lambda>r. list_all (\<lambda>col. wf_val (r (ci_name col)) \<and> finite_val (r (ci_name col))) (ti_nonPks info))
       (user_rows d (ti_tblName info))"

lemma readableE:
  assumes "readable info d"
  obtains t ct where "db_user d (ti_tblName info) = Some t"
    "db_clock d (clock_name (ti_tblName info)) = Some ct"
    "find_col (ct_pks ct) ''site_id'' = None" "find_col (ct_pks ct) ''db_vrsn'' = None"
    "find_col (map ci_name (ut_cols t)) PKS_ONLY_CID_SENTINEL = None"
  using assms by (auto simp: readable_def split: option.splits)

lemma pks_text_eq:
  assumes "ct_pks ct = map ci_name (ti_pks info)" and "distinct (ct_pks ct)"
    and "length (ck_pk k) = length (ti_pks info)"
  shows "pks_text info ct k = key_text (ck_pk k)"
proof -
  have "map (\<lambda>p. case find_col (ct_pks ct) (ci_name p) of None \<Rightarrow> VText (ci_name p)
      | Some n \<Rightarrow> clock_cell ct k n) (ti_pks info) = map (clock_cell ct k) (ct_pks ct)"
    by (simp add: assms(1) find_col_def comp_def)
  also have "\<dots> = ck_pk k" using clock_cells [of ct k] assms by simp
  finally show ?thesis by (simp add: pks_text_def)
qed

lemma change_of_eq:
  assumes "schema_inv info d" and "db_clock d (clock_name (ti_tblName info)) = Some ct"
    and "key_ok info (ck_pk k)"
  shows "change_of info ct k = \<lparr>cr_tbl = ti_tblName info, cr_pks = key_text (ck_pk k), cr_cid = ck_col k,
    cr_col_vrsn = ck_vrsn k, cr_db_vrsn = ck_dbv k, cr_site = ck_site k\<rparr>"
proof -
  have "ct_pks ct = map ci_name (ti_pks info)" "distinct (ct_pks ct)"
    using assms(1,2) by (auto elim!: schema_invE dest: distinct_pk_names(1))
  with assms(3) show ?thesis by (simp add: change_of_def pks_text_eq key_ok_def)
qed

lemma select_quoted_name:
  assumes "schema_inv info (db c)" and "key_ok info pk" and "db_user (db c) (ti_tblName info) = Some t"
    and "find_col (map ci_name (ut_cols t)) col = None" and "\<not> rowid_name col"
  shows "select_quoted E z (ti_tblName info) (key_where info pk) col c =
    (case find_row info (user_rows (db c) (ti_tblName info)) pk of
       None \<Rightarrow> (Stepped SQLITE_DONE, c) | Some r \<Rightarrow> (GotRow (VText (quote_val (VText col))), c))"
  using assms key_where_user [OF assms(1,3,2)] list_ex_find_row [of pk info "ut_rows t"]
  by (auto simp: select_quoted_def user_rows_def split: option.splits)

lemma fetch_clock:
  assumes "schema_inv info (db c)" and "db_user (db c) (ti_tblName info) = Some t"
    and "find_col (map ci_name (ut_cols t)) PKS_ONLY_CID_SENTINEL = None" and "key_ok info (ck_pk k)"
    and "ck_col k \<in> {DELETE_CID_SENTINEL, PKS_ONLY_CID_SENTINEL} \<union> ci_name ` set (ti_nonPks info)" and "faults c = []"
    and "find_cached_info c (Some (ti_tblName info)) = Some (Some info)" and "pRowStmt cur = None"
  shows "fetch_row E (Some (ti_tblName info)) (Some (key_text (ck_pk k))) (Some (ck_col k)) cur c = Some (SQLITE_OK, None,
    cur\<lparr>pRowStmt := map_option (\<lambda>v. VText (quote_val v)) (live_value info (db c) k)\<rparr>, c)"
proof -
  have key: "key_vals_ok (ck_pk k)" "length (ck_pk k) = length (ti_pks info)" using assms(4) by (auto simp: key_ok_def)
  have pks: "ti_pks info \<noteq> []" using assms(1) by (auto elim: schema_invE)
  have noop: "cur\<lparr>pRowStmt := None\<rparr> = cur" using assms(8) by simp
  show ?thesis
  proof (cases "ck_col k = DELETE_CID_SENTINEL")
    case True
    then show ?thesis
      using assms(7) pks noop by (simp add: fetch_row_def crsql_rowPatchDataQuery_def strcmp_0_iff live_value_def)
  next
    case False
    obtain z where z: "crsql_rowPatchDataQuery info (ck_col k) (key_text (ck_pk k)) = Some z" "z \<noteq> []"
      using row_patch_query [OF key, of "ck_col k"] False by auto
    have w: "where_pairs (ti_pks info) (key_text (ck_pk k)) = Some (key_where info (ck_pk k))"
      using where_pairs_key_text [OF key(1), of "ti_pks info"] key(2) by (simp add: key_where_def)
    note fetch = fetch_row_def assms(6,7) z w pks live_value_def False
    consider (col) "ck_col k \<in> ci_name ` set (ti_nonPks info)"
      | (pko) "ck_col k = PKS_ONLY_CID_SENTINEL" "ck_col k \<notin> ci_name ` set (ti_nonPks info)"
      using assms(5) False by blast
    then show ?thesis
    proof cases
      case col
      then show ?thesis
        using assms(8) select_quoted_key [OF assms(1,4) col, of E z] noop
        by (simp add: fetch split: option.split)
    next
      case pko
      have "\<not> rowid_name PKS_ONLY_CID_SENTINEL" by code_simp
      with select_quoted_name [OF assms(1,4,2,3), of E z] pko show ?thesis
        using assms(8) noop z [unfolded pko(1)] by (simp add: fetch split: option.split)
    qed
  qed
qed

lemma fetch_live:
  assumes "schema_inv info (db c)" and "readable info (db c)" and "clock_ok info (db c) k" and "faults c = []"
    and "find_cached_info c (Some (ti_tblName info)) = Some (Some info)"
    and "pRowStmt cur = None"
  shows "fetch_row E (Some (ti_tblName info)) (Some (key_text (ck_pk k))) (Some (ck_col k)) cur c = Some (SQLITE_OK, None,
    cur\<lparr>pRowStmt := map_option (\<lambda>v. VText (quote_val v)) (live_value info (db c) k)\<rparr>, c)"
  using assms(2,3) fetch_clock [OF assms(1) _ _ _ _ assms(4-6)] by (elim readableE) (simp add: clock_ok_def)

text \<open>One step of the cursor reads one row; the loop then reads them all.\<close>

definition reads :: "sql_env \<Rightarrow> conn \<Rightarrow> change_row \<Rightarrow> msg \<Rightarrow> bool" where
  "reads E c r m \<longleftrightarrow> (\<forall>cur x rest. pChangesStmt cur = Some \<lparr>cs_row = x, cs_rest = row_values r # rest\<rparr> \<longrightarrow>
     (\<exists>cur'. changesNext E cur c = Some (SQLITE_OK, None, cur', c) \<and>
       pChangesStmt cur' = Some \<lparr>cs_row = Some (row_values r), cs_rest = rest\<rparr> \<and> output_row c cur' = columns_of m))"

lemma seven: "[0..<7] = [0, 1, 2, 3, 4, 5, 6::nat]"
  by code_simp

lemma output_row_eq:
  assumes "pChangesStmt cur = Some \<lparr>cs_row = Some (row_values r), cs_rest = rest\<rparr>"
  shows "output_row c cur = [VText (cr_tbl r), VText (cr_pks r),
    (case pRowStmt cur of None \<Rightarrow> VText DELETE_CID_SENTINEL | Some v \<Rightarrow> VText (cr_cid r)),
    (case pRowStmt cur of None \<Rightarrow> VNull | Some v \<Rightarrow> v), VInt (cr_col_vrsn r), VInt (cur_dbVersion cur),
    (case cr_site r of None \<Rightarrow> VBlob (take SITE_ID_LEN (siteId (ext c))) | Some b \<Rightarrow> VBlob b)]"
  by (simp add: output_row_def seven changesColumn_def column_value_def row_values_def site_val_def Let_def assms
      split: option.split)

lemma live_value_cid: "live_value info d k \<noteq> None \<Longrightarrow> ck_col k \<noteq> DELETE_CID_SENTINEL"
  by (simp add: live_value_def split: if_splits)

lemma reads_clock:
  assumes "schema_inv info (db c)" and "readable info (db c)" and "clock_ok info (db c) k" and "faults c = []"
    and "find_cached_info c (Some (ti_tblName info)) = Some (Some info)"
    and "db_clock (db c) (clock_name (ti_tblName info)) = Some ct"
  shows "reads E c (change_of info ct k) (msg_of info (db c) (take SITE_ID_LEN (siteId (ext c))) k)"
  unfolding reads_def
proof (intro allI impI)
  fix cur :: cursor and x rest
  let ?r = "change_of info ct k"
  assume cur: "pChangesStmt cur = Some \<lparr>cs_row = x, cs_rest = row_values ?r # rest\<rparr>"
  have r: "?r = \<lparr>cr_tbl = ti_tblName info, cr_pks = key_text (ck_pk k), cr_cid = ck_col k,
      cr_col_vrsn = ck_vrsn k, cr_db_vrsn = ck_dbv k, cr_site = ck_site k\<rparr>"
    using change_of_eq [OF assms(1,6)] assms(3) by (simp add: clock_ok_def)
  define cur1 where "cur1 = cur\<lparr>pRowStmt := None, pChangesStmt := Some \<lparr>cs_row = Some (row_values ?r), cs_rest = rest\<rparr>,
    cur_dbVersion := cr_db_vrsn ?r\<rparr>"
  define cur2 where "cur2 = cur1\<lparr>pRowStmt := map_option (\<lambda>v. VText (quote_val v)) (live_value info (db c) k)\<rparr>"
  have "fetch_row E (Some (ti_tblName info)) (Some (key_text (ck_pk k))) (Some (ck_col k)) cur1 c = Some (SQLITE_OK, None, cur2, c)"
    using fetch_live [OF assms(1-5)] by (simp add: cur1_def cur2_def)
  then have "changesNext E cur c = Some (SQLITE_OK, None, cur2, c)"
    using cur assms(4)
    by (simp add: changesNext_def cur1_def r column_value_def row_values_def column_text_def column_int64_def Let_def)
  moreover have "pChangesStmt cur2 = Some \<lparr>cs_row = Some (row_values ?r), cs_rest = rest\<rparr>"
    by (simp add: cur2_def cur1_def)
  moreover have "output_row c cur2 = columns_of (msg_of info (db c) (take SITE_ID_LEN (siteId (ext c))) k)"
  proof -
    have st: "pRowStmt cur2 = map_option (\<lambda>v. VText (quote_val v)) (live_value info (db c) k)"
      "cur_dbVersion cur2 = ck_dbv k" "pChangesStmt cur2 = Some \<lparr>cs_row = Some (row_values ?r), cs_rest = rest\<rparr>"
      by (simp_all add: cur2_def cur1_def r)
    show ?thesis
    proof (cases "live_value info (db c) k")
      case None
      then show ?thesis
        by (simp add: output_row_eq [OF st(3)] st(1,2) r msg_of_def columns_of_def split: option.split)
    next
      case (Some v)
      then show ?thesis
        using live_value_cid [of info "db c" k]
        by (simp add: output_row_eq [OF st(3)] st(1,2) r msg_of_def columns_of_def split: option.split)
    qed
  qed
  ultimately show "\<exists>cur'. changesNext E cur c = Some (SQLITE_OK, None, cur', c) \<and>
       pChangesStmt cur' = Some \<lparr>cs_row = Some (row_values ?r), cs_rest = rest\<rparr> \<and>
       output_row c cur' = columns_of (msg_of info (db c) (take SITE_ID_LEN (siteId (ext c))) k)"
    by blast
qed

lemma read_loop_all:
  assumes "faults c = []" and "list_all2 (reads E c) rows ms"
    and "pChangesStmt cur = Some \<lparr>cs_row = x, cs_rest = map row_values rows\<rparr>" and "length rows + 1 < n"
  shows "\<exists>cur'. read_loop E n cur c = Read SQLITE_OK (output_row c cur # map columns_of ms) cur' c \<and>
    changesEof cur'"
  using assms(2-)
proof (induction rows ms arbitrary: cur x n rule: list_all2_induct)
  case Nil
  then have "n = Suc (Suc (n - 2))" by simp
  then obtain n' where "n = Suc (Suc n')" by blast
  with Nil show ?case
    using assms(1) by (auto simp: changesEof_def changesNext_def changesCrsrFinalize_def)
next
  case (Cons r rows m ms)
  obtain n' where n: "n = Suc n'" using Cons.prems(2) by (cases n) auto
  obtain cur' where cur': "changesNext E cur c = Some (SQLITE_OK, None, cur', c)"
    "pChangesStmt cur' = Some \<lparr>cs_row = Some (row_values r), cs_rest = map row_values rows\<rparr>" "output_row c cur' = columns_of m"
    using Cons.hyps(1) Cons.prems(1) unfolding reads_def list.map by blast
  obtain cur'' where "read_loop E n' cur' c = Read SQLITE_OK (output_row c cur' # map columns_of ms) cur'' c"
    "changesEof cur''"
    using Cons.IH [OF cur'(2), of n'] Cons.prems(2) n by auto
  with cur' n Cons.prems(1) show ?case by (auto simp: changesEof_def)
qed

section \<open>The rows of a query\<close>

definition selected :: "nat \<Rightarrow> blob option \<Rightarrow> int \<Rightarrow> clock_row \<Rightarrow> bool" where
  "selected idxNum site v k \<longleftrightarrow> ((ck_site k = site) = (and idxNum 8 = 8)) \<and> ck_dbv k > v"

text \<open>The messages a database holds for a reader.\<close>

definition msgs_for :: "nat \<Rightarrow> blob option \<Rightarrow> int \<Rightarrow> table_info list \<Rightarrow> blob \<Rightarrow> database \<Rightarrow> msg set" where
  "msgs_for idxNum site v ts own d =
     {msg_of info d own k | info k. info \<in> set ts \<and>
        k \<in> set (clock_rows d (ti_tblName info)) \<and> selected idxNum site v k}"

lemma row_selected_eq:
  assumes "find_col (ct_pks t) ''site_id'' = None" and "find_col (ct_pks t) ''db_vrsn'' = None"
  shows "row_selected idxNum site v t k = selected idxNum site v k"
  using assms by (cases "ck_site k"; cases site) (simp_all add: row_selected_def selected_def alias_cell_def site_val_def)

lemma key_text_inj:
  assumes "key_vals_ok a" and "key_vals_ok b" and "length a = length b" and "key_text a = key_text b"
  shows "a = b"
proof -
  have "map quote_val a = map quote_val b"
    using split_key_text [OF assms(1)] split_key_text [OF assms(2)] assms(3,4) by simp
  then have "map eval_lit (map quote_val a) = map eval_lit (map quote_val b)" by simp
  moreover have "map (eval_lit \<circ> quote_val) vs = map Some vs" if "key_vals_ok vs" for vs
    using that by (simp add: key_vals_ok_def list_all_iff eval_lit_quote)
  ultimately have "map Some a = map Some b" using assms(1,2) by simp
  then show ?thesis by (simp add: inj_map_eq_map)
qed

lemma union_query_exists: "list_all (\<lambda>t. ti_pks t \<noteq> []) ts \<Longrightarrow> \<exists>z. crsql_changesUnionQuery ts i = Some z"
  by (simp add: crsql_changesUnionQuery_def union_arr_eq Let_def)

lemma list_all2_choice: "\<forall>r\<in>set rs. \<exists>m. P r m \<Longrightarrow> \<exists>ms. list_all2 P rs ms"
proof (induction rs)
  case (Cons r rs)
  then obtain m ms where "P r m" "list_all2 P rs ms" by auto
  then have "list_all2 P (r # rs) (m # ms)" by simp
  then show ?case by blast
qed (auto intro: exI [of _ "[]"])

lemma list_all2_right: "list_all2 P rs ms \<Longrightarrow> m \<in> set ms \<Longrightarrow> \<exists>r. P r m"
  by (induction rule: list_all2_induct) auto

lemma list_all2_left: "list_all2 P rs ms \<Longrightarrow> r \<in> set rs \<Longrightarrow> \<exists>m\<in>set ms. P r m"
  by (induction rule: list_all2_induct) auto

lemma those_all: "(\<And>x. x \<in> set xs \<Longrightarrow> f x = Some (g x)) \<Longrightarrow> those (map f xs) = Some (map g xs)"
  by (induction xs) auto

lemma union_rows_eq:
  assumes "list_all (\<lambda>info. readable info d) ts"
  shows "\<exists>rows. union_rows idxNum site v ts d = Some rows \<and> sorted (map order_key rows) \<and>
    set rows = {change_of info (the (db_clock d (clock_name (ti_tblName info)))) k | info k.
      info \<in> set ts \<and> k \<in> set (clock_rows d (ti_tblName info)) \<and> selected idxNum site v k}"
proof -
  define g where "g = (\<lambda>info. map (change_of info (the (db_clock d (clock_name (ti_tblName info)))))
    (filter (selected idxNum site v) (clock_rows d (ti_tblName info))))"
  have "table_changes idxNum site v d info = Some (g info)" if info: "info \<in> set ts" for info
  proof -
    have "readable info d" using assms info by (simp add: list_all_iff)
    then obtain t ct where ct: "db_clock d (clock_name (ti_tblName info)) = Some ct"
      "find_col (ct_pks ct) ''site_id'' = None" "find_col (ct_pks ct) ''db_vrsn'' = None"
      by (rule readableE)
    then show ?thesis
      by (simp add: table_changes_def g_def row_selected_eq [OF ct(2,3), abs_def] clock_rows_def)
  qed
  then have "union_rows idxNum site v ts d = Some (sort_key order_key (remdups (concat (map g ts))))"
    by (simp add: union_rows_def those_all)
  moreover have "set (concat (map g ts)) = {change_of info (the (db_clock d (clock_name (ti_tblName info)))) k | info k.
      info \<in> set ts \<and> k \<in> set (clock_rows d (ti_tblName info)) \<and> selected idxNum site v k}"
    by (auto simp: g_def)
  ultimately show ?thesis by simp
qed

text \<open>The order of the query: by version, then by the name of the table.\<close>

definition msg_order :: "msg \<Rightarrow> int \<times> nat list" where
  "msg_order m = (ms_dbv m, map of_char (ti_tblName (ms_info m)))"

lemma read_rows_of:
  assumes "replica ts c" and "list_all (\<lambda>info. readable info (db c)) ts"
    and "zpTableInfos (ext c) = Live ts" and "tableInfosLen (ext c) = length ts"
    and "union_rows idxNum site v ts (db c) = Some rows"
  shows "\<exists>ms. list_all2 (reads E c) rows ms \<and> sorted (map msg_order ms) \<and>
    set ms = msgs_for idxNum site v ts (take SITE_ID_LEN (siteId (ext c))) (db c)"
proof -
  let ?d = "db c" and ?own = "take SITE_ID_LEN (siteId (ext c))"
  let ?ct = "\<lambda>info. the (db_clock ?d (clock_name (ti_tblName info)))"
  let ?hit = "\<lambda>info k. info \<in> set ts \<and> k \<in> set (clock_rows ?d (ti_tblName info)) \<and> selected idxNum site v k"
  let ?Q = "\<lambda>r m. reads E c r m \<and>
    (\<exists>info k. ?hit info k \<and> r = change_of info (?ct info) k \<and> m = msg_of info ?d ?own k)"
  have rows: "sorted (map order_key rows)" "set rows = {change_of info (?ct info) k | info k. ?hit info k}"
    using union_rows_eq [OF assms(2), of idxNum site v] assms(5) by auto
  have inv: "schema_inv info ?d" "readable info ?d" if "info \<in> set ts" for info
    using assms(1,2) that by (simp_all add: replica_def list_all_iff)
  have ok: "clock_ok info ?d k" if "?hit info k" for info k
    using inv(2) [of info] that by (auto simp: readable_def list_all_iff)
  have ct: "db_clock ?d (clock_name (ti_tblName info)) = Some (?ct info)" if "info \<in> set ts" for info
    using inv(1) [OF that] by (auto elim: schema_invE)
  have faults: "faults c = []" using assms(1) by (simp add: replica_def conn_ok_def ready_faults)
  have dist: "distinct (map ti_tblName ts)" using assms(1) by (simp add: replica_def)
  have cached: "find_cached_info c (Some (ti_tblName info)) = Some (Some info)" if "info \<in> set ts" for info
    using assms(3,4) that findTableInfo_distinct [OF dist that] by (auto simp: find_cached_info_def)
  have "\<forall>r\<in>set rows. \<exists>m. ?Q r m"
  proof
    fix r assume "r \<in> set rows"
    then obtain info k where h: "?hit info k" "r = change_of info (?ct info) k" using rows(2) by blast
    then have "reads E c r (msg_of info ?d ?own k)"
      using reads_clock [OF inv ok faults cached ct] by blast
    with h show "\<exists>m. ?Q r m" by blast
  qed
  from list_all2_choice [OF this] obtain ms where ms: "list_all2 ?Q rows ms" ..
  have eqs: "change_of info (?ct info) k = \<lparr>cr_tbl = ti_tblName info, cr_pks = key_text (ck_pk k), cr_cid = ck_col k,
    cr_col_vrsn = ck_vrsn k, cr_db_vrsn = ck_dbv k, cr_site = ck_site k\<rparr>" if "?hit info k" for info k
    using change_of_eq [OF inv(1) ct] ok [OF that] that by (simp add: clock_ok_def)
  have inj: "info = info' \<and> k = k'"
    if "?hit info k" "?hit info' k'" "change_of info (?ct info) k = change_of info' (?ct info') k'" for info k info' k'
  proof -
    have e: "ti_tblName info = ti_tblName info'" "key_text (ck_pk k) = key_text (ck_pk k')" "ck_col k = ck_col k'"
      "ck_vrsn k = ck_vrsn k'" "ck_dbv k = ck_dbv k'" "ck_site k = ck_site k'"
      using that(3) by (simp_all add: eqs [OF that(1)] eqs [OF that(2)])
    then have "info = info'" using dist that(1,2) by (auto simp: distinct_map dest: inj_onD)
    moreover from this have "ck_pk k = ck_pk k'"
      using ok [OF that(1)] ok [OF that(2)] e(2) by (intro key_text_inj) (auto simp: clock_ok_def key_ok_def)
    ultimately show ?thesis using e by simp
  qed
  have "list_all2 (reads E c) rows ms" using ms by (rule list_all2_mono) simp
  moreover have "map msg_order ms = map order_key rows"
    using ms
  proof (induction rows ms rule: list_all2_induct)
    case (Cons r rows m ms)
    then show ?case using eqs by (auto simp: msg_of_def msg_order_def order_key_def)
  qed simp
  moreover have "set ms = msgs_for idxNum site v ts ?own ?d"
  proof (rule set_eqI)
    fix m
    show "m \<in> set ms \<longleftrightarrow> m \<in> msgs_for idxNum site v ts ?own ?d"
    proof
      assume "m \<in> set ms"
      from list_all2_right [OF ms this] obtain r where "?Q r m" ..
      then show "m \<in> msgs_for idxNum site v ts ?own ?d" unfolding msgs_for_def by blast
    next
      assume "m \<in> msgs_for idxNum site v ts ?own ?d"
      then obtain info k where h: "?hit info k" "m = msg_of info ?d ?own k" unfolding msgs_for_def by blast
      then have "change_of info (?ct info) k \<in> set rows" using rows(2) by blast
      from list_all2_left [OF ms this] obtain m' where "m' \<in> set ms" "?Q (change_of info (?ct info) k) m'" ..
      then show "m \<in> set ms" using inj h by blast
    qed
  qed
  ultimately show ?thesis using rows(1) by auto
qed

lemma read_changes_aux:
  assumes "replica ts c" and "ts \<noteq> []" and "list_all (\<lambda>info. readable info (db c)) ts"
    and "filter_args E idxNum argv = Some (site, v)"
  shows "\<exists>n ms c'. (\<forall>m>n. \<exists>cur. read_changes E m idxNum argv c = Read SQLITE_OK (map columns_of ms) cur c') \<and>
    replica ts c' \<and> only_infos c c' \<and> db c' = db c \<and> sorted (map msg_order ms) \<and>
    set ms = msgs_for idxNum site v ts (take SITE_ID_LEN (siteId (ext c))) (db c)"
proof -
  obtain c1 where c1: "crsql_ensureTableInfosAreUpToDate c = Some (SQLITE_OK, None, c1)" "replica ts c1"
    "only_infos c c1" "zpTableInfos (ext c1) = Live ts" "tableInfosLen (ext c1) = length ts" "faults c1 = []"
    using replica_ensure [OF assms(1,2)] .
  have same: "db c1 = db c" "siteId (ext c1) = siteId (ext c)" using c1(3) by (simp_all add: only_infos_def)
  have read1: "list_all (\<lambda>info. readable info (db c1)) ts" using assms(3) same by simp
  obtain rows where rows: "union_rows idxNum site v ts (db c1) = Some rows"
    using union_rows_eq [OF read1, of idxNum site v] by blast
  obtain ms where ms: "list_all2 (reads E c1) rows ms" "sorted (map msg_order ms)"
    "set ms = msgs_for idxNum site v ts (take SITE_ID_LEN (siteId (ext c))) (db c)"
    using read_rows_of [OF c1(2) read1 c1(4,5) rows, of E] same by auto
  have inv: "schema_inv info (db c1)" if "info \<in> set ts" for info
    using c1(2) that by (simp add: replica_def list_all_iff)
  have pks: "list_all (\<lambda>t. ti_pks t \<noteq> []) ts"
    unfolding list_all_iff by (auto dest!: inv elim: schema_invE)
  have tables: "list_all (\<lambda>t. db_clock (db c1) (clock_name (ti_tblName t)) \<noteq> None) ts"
    unfolding list_all_iff using inv by (blast elim: schema_invE)
  obtain z where z: "crsql_changesUnionQuery ts idxNum = Some z" using union_query_exists [OF pks] by blast
  define cur0 where "cur0 = \<lparr>pChangesStmt = None, pRowStmt = None, cur_dbVersion = 0\<rparr>"
  define cur1 where "cur1 = cur0\<lparr>pChangesStmt := Some \<lparr>cs_row = None, cs_rest = map row_values rows\<rparr>\<rparr>"
  have filter: "changesFilter E idxNum argv cur0 c = changesNext E cur1 c1"
    using c1 assms(2,4) z tables rows
    by (simp add: changesFilter_def cur0_def cur1_def Let_def)
  have "\<exists>cur. read_changes E n idxNum argv c = Read SQLITE_OK (map columns_of ms) cur c1"
    if n: "n > length rows" for n
  proof (cases rows)
    case Nil
    obtain n' where "n = Suc n'" using n by (cases n) auto
    moreover have "ms = []" using ms(1) Nil by simp
    ultimately show ?thesis
      using Nil filter c1(6)
      by (simp add: read_changes_def changesOpen_def cur0_def [symmetric] changesNext_def cur1_def
          changesCrsrFinalize_def changesEof_def)
  next
    case (Cons r rest)
    then obtain m ms' where m: "ms = m # ms'" "reads E c1 r m" "list_all2 (reads E c1) rest ms'"
      using ms(1) by (auto simp: list_all2_Cons1)
    have "pChangesStmt cur1 = Some \<lparr>cs_row = None, cs_rest = row_values r # map row_values rest\<rparr>" by (simp add: cur1_def Cons)
    then obtain cur2 where cur2: "changesNext E cur1 c1 = Some (SQLITE_OK, None, cur2, c1)"
      "pChangesStmt cur2 = Some \<lparr>cs_row = Some (row_values r), cs_rest = map row_values rest\<rparr>"
      "output_row c1 cur2 = columns_of m"
      using m(2) unfolding reads_def by blast
    have "length rest + 1 < n" using n Cons by simp
    then obtain cur3 where "read_loop E n cur2 c1 = Read SQLITE_OK (output_row c1 cur2 # map columns_of ms') cur3 c1"
      using read_loop_all [OF c1(6) m(3) cur2(2)] by blast
    then show ?thesis
      using filter cur2 m(1) by (simp add: read_changes_def changesOpen_def cur0_def [symmetric])
  qed
  then show ?thesis using ms c1(2,3) same by blast
qed

text \<open>C9. On a healthy replica a query of the changes table delivers, after finitely many steps, exactly
  the clock entries it asks for, those with a larger version and (not) of the given site, in the
  order of their versions and, within one version, of the names of their tables; each comes with its
  value, or as a delete when the row is gone, and entries of local writes carry the site id of the database. The database is not changed.\<close>

theorem selected_changes_are_read:
  assumes "replica ts c" and "ts \<noteq> []" and "list_all (\<lambda>info. readable info (db c)) ts"
    and "filter_args E idxNum argv = Some (site, v)"
  shows "\<exists>n ms c'. (\<forall>m>n. \<exists>cur. read_changes E m idxNum argv c = Read SQLITE_OK (map columns_of ms) cur c') \<and>
    replica ts c' \<and> db c' = db c \<and> sorted (map msg_order ms) \<and>
    set ms = msgs_for idxNum site v ts (take SITE_ID_LEN (siteId (ext c))) (db c)"
  using read_changes_aux [OF assms] by blast

text \<open>The change of \<^verbatim>\<open>b\<close> in the row with key 1, read from the database of site \<^verbatim>\<open>07 07 ...\<close>.\<close>

lemma readable_filled: "readable foo_info (db filled_conn)"
  by code_simp

theorem selected_changes_are_read_witness:
  "\<exists>n ms c'. (\<forall>m>n. \<exists>cur. read_changes no_env m 0 [] filled_conn = Read SQLITE_OK (map columns_of ms) cur c') \<and>
     [VText ''foo'', VText ''1'', VText ''b'', VText (sq ''x''), VInt 1, VInt 3, VBlob (replicate 16 7)]
       \<in> set (map columns_of ms)"
proof -
  let ?k = "hd (clock_rows (db filled_conn) ''foo'')"
  let ?m = "msg_of foo_info (db filled_conn) (take 16 (siteId (ext filled_conn))) ?k"
  have "?k \<in> set (clock_rows (db filled_conn) (ti_tblName foo_info))"
    "selected 0 (Some [97]) 0 ?k" by code_simp+
  then have m: "?m \<in> msgs_for 0 (Some [97]) 0 [foo_info] (take 16 (siteId (ext filled_conn))) (db filled_conn)"
    unfolding msgs_for_def by force
  have row: "columns_of ?m =
    [VText ''foo'', VText ''1'', VText ''b'', VText (sq ''x''), VInt 1, VInt 3, VBlob (replicate 16 7)]"
    by code_simp
  have f: "filter_args no_env 0 [] = Some (Some [97], 0)" by (simp add: filter_args_def)
  have r: "list_all (\<lambda>info. readable info (db filled_conn)) [foo_info]" using readable_filled by simp
  obtain n ms c' where
    "\<forall>m>n. \<exists>cur. read_changes no_env m 0 [] filled_conn = Read SQLITE_OK (map columns_of ms) cur c'"
    "set ms = msgs_for 0 (Some [97]) 0 [foo_info] (take 16 (siteId (ext filled_conn))) (db filled_conn)"
    using selected_changes_are_read [OF replica_filled _ r f] by auto
  moreover from this(2) m have "columns_of ?m \<in> set (map columns_of ms)" by simp
  ultimately show ?thesis unfolding row by blast
qed

end
