(* ===== verification/Sync.thy ===== *)
theory Sync imports Changes_Read begin

text \<open>
  Synchronisation end to end: the rows one replica reads from its changes table are inserted into
  the changes table of another, which then holds the join of both states.
\<close>

section \<open>The join of two states\<close>

fun join_row :: "row_state \<Rightarrow> row_state \<Rightarrow> row_state" where
  "join_row (Alive a m) (Alive b n) = Alive (a \<or> b)
     (\<lambda>col. case m col of None \<Rightarrow> n col | Some x \<Rightarrow> Some (lww (n col) x))"
| "join_row _ _ = Dead"

definition join_db :: "abs_db \<Rightarrow> abs_db \<Rightarrow> abs_db" where
  "join_db A B tbl pk = join_row (A tbl pk) (B tbl pk)"

lemma lww_sym: "lww (Some a) b = lww (Some b) a"
  using wins_total [of a b] wins_trans [of a b a] wins_irrefl by (auto simp: lww_def)

lemma lww_assoc: "lww (Some (lww (Some a) b)) c = lww (Some a) (lww (Some b) c)"
  using lww_commute [of "Some b" a c] lww_sym by metis

lemma lww_self: "lww (Some a) a = a"
  using wins_irrefl by (simp add: lww_def)

lemma lww_None: "lww None a = a"
  by (simp add: lww_def)

lemma lww_swap: "lww q (lww (Some b) a) = lww (Some a) (lww q b)"
  using lww_sym [of a b] lww_assoc lww_sym lww_None by (cases q) metis+

text \<open>The states of a row form a semilattice.\<close>

interpretation rowjoin: semilattice join_row
proof
  fix a b c :: row_state
  show "join_row (join_row a b) c = join_row a (join_row b c)"
  proof (cases a; cases b; cases c)
    fix x m y n z p
    assume "a = Alive x m" "b = Alive y n" "c = Alive z p"
    then show ?thesis
      by (auto simp: fun_eq_iff lww_swap lww_None intro: lww_sym split: option.split)
  qed simp_all
  show "join_row a b = join_row b a"
  proof (cases a; cases b)
    fix x m y n
    assume "a = Alive x m" "b = Alive y n"
    then show ?thesis by (auto simp: fun_eq_iff lww_sym lww_None split: option.split)
  qed simp_all
  show "join_row a a = a"
    by (cases a) (auto simp: fun_eq_iff lww_self split: option.split)
qed

text \<open>So they are ordered by how much they know, from nothing to the deleted row, and states of databases
  are ordered row by row.\<close>

instantiation row_state :: bounded_semilattice_sup_bot
begin

definition sup_row_state :: "row_state \<Rightarrow> row_state \<Rightarrow> row_state" where
  "sup_row_state = join_row"

definition less_eq_row_state :: "row_state \<Rightarrow> row_state \<Rightarrow> bool" where
  "less_eq_row_state a b \<longleftrightarrow> join_row a b = b"

definition less_row_state :: "row_state \<Rightarrow> row_state \<Rightarrow> bool" where
  "less_row_state a b \<longleftrightarrow> a \<le> b \<and> \<not> b \<le> a"

definition bot_row_state :: row_state where
  "bot_row_state = Alive False Map.empty"

instance
proof
  fix a b c :: row_state
  show "a < b \<longleftrightarrow> a \<le> b \<and> \<not> b \<le> a" by (rule less_row_state_def)
  show "a \<le> a" by (simp add: less_eq_row_state_def)
  show "a \<le> b \<Longrightarrow> b \<le> c \<Longrightarrow> a \<le> c" unfolding less_eq_row_state_def by (metis rowjoin.assoc)
  show "a \<le> b \<Longrightarrow> b \<le> a \<Longrightarrow> a = b" unfolding less_eq_row_state_def by (metis rowjoin.commute)
  show "a \<le> sup a b" unfolding less_eq_row_state_def sup_row_state_def by simp
  show "b \<le> sup a b" unfolding less_eq_row_state_def sup_row_state_def by (metis rowjoin.commute rowjoin.left_idem)
  show "b \<le> a \<Longrightarrow> c \<le> a \<Longrightarrow> sup b c \<le> a"
    unfolding less_eq_row_state_def sup_row_state_def by (metis rowjoin.assoc)
  show "bot \<le> a"
    by (cases a) (simp_all add: less_eq_row_state_def bot_row_state_def)
qed

end

instantiation row_state :: order_top
begin

definition top_row_state :: row_state where
  "top_row_state = Dead"

instance by standard (simp add: less_eq_row_state_def top_row_state_def)

end

lemma join_db_sup: "join_db A B = sup A B"
  by (simp add: join_db_def sup_fun_def sup_row_state_def fun_eq_iff)

lemma join_db_commute: "join_db A B = join_db B A"
  by (simp add: join_db_sup sup.commute)

section \<open>Many operations on one row\<close>

text \<open>An operation is a join, too; so it is absorbed by every state above one that absorbs it.\<close>

fun op_state :: "row_op \<Rightarrow> row_state" where
  "op_state Delete_op = Dead"
| "op_state Row_op = Alive True Map.empty"
| "op_state (Col_op col v x) = Alive True [col \<mapsto> (v, x)]"

lemma apply_op_join: "apply_op p s = join_row (op_state p) s"
  by (cases p; cases s) (auto simp: fun_eq_iff)

lemma absorbed_above: "apply_op p a = a \<Longrightarrow> join_row a s = s \<Longrightarrow> apply_op p s = s"
  unfolding apply_op_join by (metis rowjoin.assoc)

lemma absorbed_msg_above: "apply_msg m A = A \<Longrightarrow> join_db A S = S \<Longrightarrow> apply_msg m S = S"
  unfolding apply_msg_def join_db_def fun_eq_iff by (metis absorbed_above)

lemma fold_delete: "Delete_op \<in> set ops \<Longrightarrow> fold apply_op ops s = Dead"
proof -
  have dead: "fold apply_op ops Dead = Dead" for ops by (induction ops) simp_all
  have "apply_op Delete_op s = Dead" for s by (cases s) simp_all
  then show "Delete_op \<in> set ops \<Longrightarrow> fold apply_op ops s = Dead"
    by (induction ops arbitrary: s) (auto simp: dead)
qed

lemma fold_dead: "fold apply_op ops Dead = Dead"
  by (induction ops) simp_all

text \<open>When each column has at most one version, the result is determined by the set of operations.\<close>

definition one_version :: "row_op list \<Rightarrow> bool" where
  "one_version ops \<longleftrightarrow> (\<forall>col v x v' x'. Col_op col v x \<in> set ops \<longrightarrow> Col_op col v' x' \<in> set ops \<longrightarrow>
     v = v' \<and> x = x')"

lemma one_versionD: "one_version ops \<Longrightarrow> Col_op col v x \<in> set ops \<Longrightarrow> Col_op col v' x' \<in> set ops \<Longrightarrow>
    v = v' \<and> x = x'"
  unfolding one_version_def by blast

lemma one_version_Cons: "one_version (p # ops) \<Longrightarrow> one_version ops"
  unfolding one_version_def by (meson list.set_intros(2))

lemma fold_alive:
  assumes "Delete_op \<notin> set ops" and "one_version ops"
  shows "\<exists>m'. fold apply_op ops (Alive b m) = Alive (b \<or> ops \<noteq> []) m' \<and>
    (\<forall>col v x. Col_op col v x \<in> set ops \<longrightarrow> m' col = Some (lww (m col) (v, x))) \<and>
    (\<forall>col. (\<forall>v x. Col_op col v x \<notin> set ops) \<longrightarrow> m' col = m col)"
  using assms
proof (induction ops arbitrary: b m)
  case (Cons p ops)
  have nodel: "Delete_op \<notin> set ops" "p \<noteq> Delete_op" using Cons.prems(1) by auto
  have IH: "\<exists>m'. fold apply_op ops (Alive True n) = Alive True m' \<and>
    (\<forall>c v x. Col_op c v x \<in> set ops \<longrightarrow> m' c = Some (lww (n c) (v, x))) \<and>
    (\<forall>c. (\<forall>v x. Col_op c v x \<notin> set ops) \<longrightarrow> m' c = n c)" for n
    using Cons.IH [OF nodel(1) one_version_Cons [OF Cons.prems(2)], of True n] by simp
  from nodel consider "p = Row_op" | col v x where "p = Col_op col v x" by (cases p) auto
  then show ?case
  proof cases
    case 1
    with IH [of m] show ?thesis by auto
  next
    case (2 col v x)
    let ?n = "m(col \<mapsto> lww (m col) (v, x))"
    obtain m' where m': "fold apply_op ops (Alive True ?n) = Alive True m'"
      "\<And>c v x. Col_op c v x \<in> set ops \<Longrightarrow> m' c = Some (lww (?n c) (v, x))"
      "\<And>c. \<forall>v x. Col_op c v x \<notin> set ops \<Longrightarrow> m' c = ?n c"
      using IH [of ?n] by blast
    have this_col: "m' col = Some (lww (m col) (v, x))"
    proof (cases "\<exists>v' x'. Col_op col v' x' \<in> set ops")
      case True
      then obtain v' x' where p': "Col_op col v' x' \<in> set ops" by blast
      then have "v' = v \<and> x' = x" using one_versionD [OF Cons.prems(2), of col v' x' v x] 2 by simp
      then show ?thesis using m'(2) [OF p'] lww_idem by simp
    next
      case False
      then show ?thesis using m'(3) [of col] by simp
    qed
    have "m' c = Some (lww (m c) (w, y))" if "Col_op c w y \<in> set (p # ops)" for c w y
    proof (cases "c = col")
      case True
      have "Col_op col v x \<in> set (p # ops)" using 2 by simp
      then have "w = v \<and> y = x" using one_versionD [OF Cons.prems(2)] that True by blast
      then show ?thesis using this_col True by simp
    next
      case False
      then show ?thesis using that m'(2) [of c w y] 2 by simp
    qed
    moreover have "m' c = m c" if "\<forall>w y. Col_op c w y \<notin> set (p # ops)" for c
      using that m'(3) [of c] 2 by auto
    moreover have "fold apply_op (p # ops) (Alive b m) = Alive (b \<or> p # ops \<noteq> []) m'"
      using m'(1) 2 by simp
    ultimately show ?thesis by blast
  qed
qed simp

section \<open>A database as messages\<close>

text \<open>Every row has a clock entry and every entry is visible to a query without conditions.\<close>

definition complete :: "table_info \<Rightarrow> database \<Rightarrow> bool" where
  "complete info d \<longleftrightarrow>
     list_all (\<lambda>k. ck_dbv k > MIN_POSSIBLE_DB_VERSION \<and> ck_site k \<noteq> Some [97]) (clock_rows d (ti_tblName info)) \<and>
     list_all (\<lambda>r. list_ex (\<lambda>k. sql_eqs (pk_vals info r) (ck_pk k)) (clock_rows d (ti_tblName info)))
       (user_rows d (ti_tblName info))"

lemma same_clock_unique:
  assumes "clocks_distinct clocks" and "k \<in> set clocks" and "k' \<in> set clocks"
    and "same_clock pk col k" and "same_clock pk col k'"
  shows "k = k'"
proof -
  have "length (filter (same_clock pk col) clocks) \<le> 1"
    using clocks_distinct_filter [OF assms(1)] by simp
  moreover have "k \<in> set (filter (same_clock pk col) clocks)" "k' \<in> set (filter (same_clock pk col) clocks)"
    using assms by simp_all
  ultimately show ?thesis by (cases "filter (same_clock pk col) clocks") auto
qed

lemma lookup_in: "clock_lookup clocks pk col = Some k \<Longrightarrow> k \<in> set clocks \<and> same_clock pk col k"
  by (auto simp: clock_lookup_def find_Some_iff)

lemma lookup_Some_iff:
  assumes "clocks_distinct clocks"
  shows "clock_lookup clocks pk col = Some k \<longleftrightarrow> k \<in> set clocks \<and> same_clock pk col k"
proof
  assume k: "k \<in> set clocks \<and> same_clock pk col k"
  then obtain k' where "clock_lookup clocks pk col = Some k'"
    by (cases "clock_lookup clocks pk col") (auto simp: clock_lookup_def find_None_iff)
  with lookup_in [OF this] same_clock_unique [OF assms] k show "clock_lookup clocks pk col = Some k" by blast
qed (rule lookup_in)

text \<open>The operations a reader gets for one key.\<close>

definition key_ops :: "table_info \<Rightarrow> database \<Rightarrow> blob \<Rightarrow> sqlval list \<Rightarrow> row_op set" where
  "key_ops info d own pk =
     {op_of (msg_of info d own k) | k. k \<in> set (clock_rows d (ti_tblName info)) \<and> sql_eqs pk (ck_pk k)}"

lemma op_of_live:
  assumes "names_ok info" and "ck_col k \<noteq> DELETE_CID_SENTINEL"
    and "find_row info (user_rows d (ti_tblName info)) (ck_pk k) = Some r"
  shows "op_of (msg_of info d own k) =
    (if ck_col k \<in> ci_name ` set (ti_nonPks info) then Col_op (ck_col k) (ck_vrsn k) (quote_val (r (ck_col k)))
     else Row_op)"
  using assms by (simp add: op_of_def msg_of_def live_value_def)

lemma key_ops_dead:
  assumes "clock_lookup (clock_rows d (ti_tblName info)) pk DELETE_CID_SENTINEL \<noteq> None"
  shows "Delete_op \<in> key_ops info d own pk"
proof -
  obtain k where k: "k \<in> set (clock_rows d (ti_tblName info))" "same_clock pk DELETE_CID_SENTINEL k"
    using assms lookup_in by blast
  then have "op_of (msg_of info d own k) = Delete_op"
    by (simp add: op_of_def msg_of_def live_value_def same_clock_def)
  with k show ?thesis unfolding key_ops_def same_clock_def by force
qed

lemma key_ops_alive:
  assumes "data_inv info d" and "readable info d" and "names_ok info"
    and "clock_lookup (clock_rows d (ti_tblName info)) pk DELETE_CID_SENTINEL = None"
  shows "op \<in> key_ops info d own pk \<Longrightarrow> find_row info (user_rows d (ti_tblName info)) pk \<noteq> None \<and>
      (op = Row_op \<or> (\<exists>col v x. op = Col_op col v x))"
    and "Col_op col v x \<in> key_ops info d own pk \<longleftrightarrow> col \<in> ci_name ` set (ti_nonPks info) \<and>
      local_cell info d pk col = Some (v, x)"
proof -
  let ?clocks = "clock_rows d (ti_tblName info)" and ?rows = "user_rows d (ti_tblName info)"
  have dist: "clocks_distinct ?clocks" using assms(1) by (simp add: data_inv_def data_parts_def)
  have live: "ck_col k \<noteq> DELETE_CID_SENTINEL \<and> (\<exists>r. find_row info ?rows pk = Some r \<and> find_row info ?rows (ck_pk k) = Some r)"
    if k: "k \<in> set ?clocks" "sql_eqs pk (ck_pk k)" for k
  proof -
    have "ck_col k \<noteq> DELETE_CID_SENTINEL"
      using k assms(4) lookup_Some_iff [OF dist, of pk DELETE_CID_SENTINEL k] by (auto simp: same_clock_def)
    moreover have "clock_ok info d k" using assms(2) k(1) by (auto simp: readable_def list_all_iff)
    moreover have "clock_lookup ?clocks (ck_pk k) DELETE_CID_SENTINEL = None"
      using assms(4) clock_lookup_cong [OF k(2)] by simp
    ultimately show ?thesis using find_row_cong [OF k(2), of info ?rows] by (auto simp: clock_ok_def)
  qed
  show "op \<in> key_ops info d own pk \<Longrightarrow> find_row info ?rows pk \<noteq> None \<and>
      (op = Row_op \<or> (\<exists>col v x. op = Col_op col v x))"
  proof -
    assume "op \<in> key_ops info d own pk"
    then obtain k where k: "k \<in> set ?clocks" "sql_eqs pk (ck_pk k)" "op = op_of (msg_of info d own k)"
      unfolding key_ops_def by blast
    then obtain r where "find_row info ?rows pk = Some r" "find_row info ?rows (ck_pk k) = Some r"
      "ck_col k \<noteq> DELETE_CID_SENTINEL" using live by blast
    then show ?thesis using op_of_live [OF assms(3)] k(3) by simp
  qed
  show "Col_op col v x \<in> key_ops info d own pk \<longleftrightarrow> col \<in> ci_name ` set (ti_nonPks info) \<and>
      local_cell info d pk col = Some (v, x)"
  proof
    assume "Col_op col v x \<in> key_ops info d own pk"
    then obtain k where k: "k \<in> set ?clocks" "sql_eqs pk (ck_pk k)" "op_of (msg_of info d own k) = Col_op col v x"
      unfolding key_ops_def by force
    then obtain r where r: "find_row info ?rows pk = Some r" "find_row info ?rows (ck_pk k) = Some r"
      "ck_col k \<noteq> DELETE_CID_SENTINEL" using live by blast
    then have "ck_col k \<in> ci_name ` set (ti_nonPks info)" "ck_col k = col" "ck_vrsn k = v" "quote_val (r col) = x"
      using op_of_live [OF assms(3) r(3,2)] k(3) by (auto split: if_splits)
    moreover from this k have "clock_lookup ?clocks pk col = Some k"
      using lookup_Some_iff [OF dist] by (simp add: same_clock_def)
    ultimately show "col \<in> ci_name ` set (ti_nonPks info) \<and> local_cell info d pk col = Some (v, x)"
      using r(1) by (simp add: local_cell_def cell_text_def)
  next
    assume a: "col \<in> ci_name ` set (ti_nonPks info) \<and> local_cell info d pk col = Some (v, x)"
    then obtain k where k: "clock_lookup ?clocks pk col = Some k" "ck_vrsn k = v" "cell_text (find_row info ?rows pk) col = x"
      by (auto simp: local_cell_def)
    have k': "k \<in> set ?clocks" "sql_eqs pk (ck_pk k)" "ck_col k = col"
      using lookup_in [OF k(1)] by (simp_all add: same_clock_def)
    then obtain r where r: "find_row info ?rows pk = Some r" "find_row info ?rows (ck_pk k) = Some r"
      "ck_col k \<noteq> DELETE_CID_SENTINEL" using live by blast
    then have "op_of (msg_of info d own k) = Col_op col v x"
      using op_of_live [OF assms(3) r(3,2)] k(2,3) a k'(3) by (simp add: cell_text_def)
    with k' show "Col_op col v x \<in> key_ops info d own pk" unfolding key_ops_def by force
  qed
qed

text \<open>Applying the operations of one database to the row of another joins the two.\<close>

lemma key_ops_join:
  assumes "data_inv info d" and "readable info d" and "names_ok info" and "complete info d"
    and "set ops = key_ops info d own pk"
  shows "fold apply_op ops s = join_row (abs_row info d pk) s"
proof (cases "clock_lookup (clock_rows d (ti_tblName info)) pk DELETE_CID_SENTINEL")
  case (Some k)
  then have "Delete_op \<in> set ops" using key_ops_dead assms(5) by blast
  with Some show ?thesis by (simp add: fold_delete abs_row_def abs_parts_def)
next
  case None
  note alive = key_ops_alive [OF assms(1-3) None]
  let ?row = "find_row info (user_rows d (ti_tblName info)) pk"
  obtain m where m: "abs_row info d pk = Alive (?row \<noteq> None) m"
    "\<And>col. m col = (if col \<in> ci_name ` set (ti_nonPks info) then local_cell info d pk col else None)"
    using None by (simp add: abs_row_def abs_parts_def local_cell_def)
  have col: "Col_op col v x \<in> set ops \<longleftrightarrow> m col = Some (v, x)" for col v x
    using alive(2) assms(5) m(2) by simp
  show ?thesis
  proof (cases s)
    case Dead
    then show ?thesis by (simp add: fold_dead m(1))
  next
    case (Alive b n)
    have "Delete_op \<notin> set ops" using alive(1) assms(5) by blast
    moreover have "one_version ops" using col unfolding one_version_def by simp
    ultimately obtain m' where m': "fold apply_op ops s = Alive (b \<or> ops \<noteq> []) m'"
      "\<And>col v x. Col_op col v x \<in> set ops \<Longrightarrow> m' col = Some (lww (n col) (v, x))"
      "\<And>col. \<forall>v x. Col_op col v x \<notin> set ops \<Longrightarrow> m' col = n col"
      using fold_alive Alive by blast
    have "ops \<noteq> [] \<longleftrightarrow> ?row \<noteq> None"
    proof
      assume "ops \<noteq> []"
      then have "hd ops \<in> key_ops info d own pk" using assms(5) hd_in_set by blast
      then show "?row \<noteq> None" using alive(1) by blast
    next
      assume "?row \<noteq> None"
      then have "list_ex (\<lambda>r. sql_eqs pk (pk_vals info r)) (user_rows d (ti_tblName info))"
        using list_ex_find_row by blast
      then obtain r where "r \<in> set (user_rows d (ti_tblName info))" "sql_eqs pk (pk_vals info r)"
        unfolding list_ex_iff by blast
      moreover from this obtain k where "k \<in> set (clock_rows d (ti_tblName info))" "sql_eqs (pk_vals info r) (ck_pk k)"
        using assms(4) by (auto simp: complete_def list_all_iff list_ex_iff)
      ultimately have "op_of (msg_of info d own k) \<in> key_ops info d own pk"
        unfolding key_ops_def using sql_eqs_trans by blast
      then show "ops \<noteq> []" using assms(5) by auto
    qed
    moreover have "m' col = (case m col of None \<Rightarrow> n col | Some x \<Rightarrow> Some (lww (n col) x))" for col
    proof (cases "m col")
      case None
      then show ?thesis using m'(3) [of col] col by simp
    next
      case (Some y)
      then show ?thesis using m'(2) [of col "fst y" "snd y"] col by simp
    qed
    ultimately show ?thesis using m' m(1) Alive by (auto simp: fun_eq_iff)
  qed
qed

definition msgs_at :: "string \<Rightarrow> sqlval list \<Rightarrow> msg list \<Rightarrow> msg list" where
  "msgs_at tbl pk ms = filter (\<lambda>m. tbl = ti_tblName (ms_info m) \<and> sql_eqs pk (ms_pk m)) ms"

lemma fold_apply_msg: "fold apply_msg ms A tbl pk = fold apply_op (map op_of (msgs_at tbl pk ms)) (A tbl pk)"
  by (induction ms arbitrary: A) (simp_all add: msgs_at_def apply_msg_def)

text \<open>A reader that gets all messages of a database ends in the join.\<close>

lemma all_msgs_join:
  assumes "distinct (map ti_tblName ts)"
    and "\<And>info. info \<in> set ts \<Longrightarrow> data_inv info d \<and> readable info d \<and> names_ok info \<and> complete info d"
    and "set ms = msgs_for 0 (Some [97]) MIN_POSSIBLE_DB_VERSION ts own d"
    and "\<And>tbl pk. tbl \<notin> ti_tblName ` set ts \<Longrightarrow> A tbl pk = Dead"
  shows "fold apply_msg ms A = join_db (abs_of ts d) A"
proof (intro ext)
  fix tbl pk
  show "fold apply_msg ms A tbl pk = join_db (abs_of ts d) A tbl pk"
  proof (cases "crsql_findTableInfo ts tbl")
    case None
    then have "tbl \<notin> ti_tblName ` set ts" by (simp add: findTableInfo_None)
    then show ?thesis using assms(4) by (simp add: fold_apply_msg fold_dead join_db_def abs_of_def None)
  next
    case (Some info)
    then have info: "info \<in> set ts" "ti_tblName info = tbl" using findTableInfo_Some by blast+
    note ok = assms(2) [OF info(1)]
    have sel: "selected 0 (Some [97]) MIN_POSSIBLE_DB_VERSION k" if "k \<in> set (clock_rows d tbl)" for k
      using ok that info(2) by (auto simp: complete_def list_all_iff selected_def)
    have "set (map op_of (msgs_at tbl pk ms)) = key_ops info d own pk"
    proof (rule set_eqI, rule iffI)
      fix p assume "p \<in> set (map op_of (msgs_at tbl pk ms))"
      then obtain info' k where k: "info' \<in> set ts" "k \<in> set (clock_rows d (ti_tblName info'))"
        "p = op_of (msg_of info' d own k)" "tbl = ti_tblName info'" "sql_eqs pk (ck_pk k)"
        using assms(3) by (auto simp: msgs_at_def msgs_for_def msg_of_def)
      then have "info' = info" using assms(1) info by (auto simp: distinct_map dest: inj_onD)
      with k show "p \<in> key_ops info d own pk" unfolding key_ops_def by blast
    next
      fix p assume "p \<in> key_ops info d own pk"
      then obtain k where k: "k \<in> set (clock_rows d tbl)" "p = op_of (msg_of info d own k)" "sql_eqs pk (ck_pk k)"
        unfolding key_ops_def info(2) by blast
      then have "msg_of info d own k \<in> set ms" using assms(3) sel info unfolding msgs_for_def by blast
      with k info show "p \<in> set (map op_of (msgs_at tbl pk ms))"
        by (auto simp: msgs_at_def msg_of_def)
    qed
    then show ?thesis
      using key_ops_join [of info d "map op_of (msgs_at tbl pk ms)" own pk "A tbl pk"] ok Some
      by (simp add: fold_apply_msg join_db_def abs_of_def)
  qed
qed

section \<open>Inserting the rows of another replica\<close>

text \<open>The columns of an inserted row as \<^verbatim>\<open>crsql_mergeInsert\<close> takes them from its arguments.\<close>

definition received :: "sql_env \<Rightarrow> sqlval list \<Rightarrow> change" where
  "received E v = \<lparr>ch_tbl = column_text E (v ! CHANGES_SINCE_VTAB_TBL),
     ch_pk = column_text E (v ! CHANGES_SINCE_VTAB_PK), ch_cid = column_text E (v ! CHANGES_SINCE_VTAB_CID),
     ch_val = column_text E (v ! CHANGES_SINCE_VTAB_CVAL),
     ch_col_vrsn = column_int64 E (v ! CHANGES_SINCE_VTAB_COL_VRSN),
     ch_db_vrsn = column_int64 E (v ! CHANGES_SINCE_VTAB_DB_VRSN),
     ch_site = value_blob E (v ! CHANGES_SINCE_VTAB_SITE_ID)\<rparr>"

text \<open>The rows are inserted one after the other; \<^verbatim>\<open>xUpdate\<close> gets two arguments before the columns.\<close>

fun apply_rows :: "sql_env \<Rightarrow> sqlval list list \<Rightarrow> changes_vtab \<Rightarrow> conn \<Rightarrow> (changes_vtab \<times> conn) option" where
  "apply_rows E [] v c = Some (v, c)"
| "apply_rows E (r # rs) v c = do {
     (rc, rowid, v, c) \<leftarrow> changesApply E True (2 + length r) True (received E r) v c;
     if rc \<noteq> SQLITE_OK then None else apply_rows E rs v c
   }"

lemma length_columns_of [simp]: "length (columns_of m) = 7"
  by (simp add: columns_of_def)

lemma received_columns: "received E (columns_of m) =
    (if ms_cid m = DELETE_CID_SENTINEL then (encode m)\<lparr>ch_val := None\<rparr> else encode m)"
  by (simp add: received_def columns_of_def encode_def column_text_def column_int64_def value_blob_def)

text \<open>The value of a delete is not looked at.\<close>

lemma merge_row_delete_val:
  "ch_cid ch = Some DELETE_CID_SENTINEL \<Longrightarrow> merge_row E info (ch\<lparr>ch_val := x\<rparr>) sp c = merge_row E info ch sp c"
  by (simp add: merge_row_def strcmp_0_iff split_def cong: if_cong option.case_cong)

lemma mergeInsert_delete_val:
  "ch_cid ch = Some DELETE_CID_SENTINEL \<Longrightarrow>
     crsql_mergeInsert E a (ch\<lparr>ch_val := x\<rparr>) sp c = crsql_mergeInsert E a ch sp c"
  by (simp add: crsql_mergeInsert_def merge_row_delete_val split_def cong: if_cong option.case_cong)

lemma mergeInsert_received: "crsql_mergeInsert E a (received E (columns_of m)) sp c = crsql_mergeInsert E a (encode m) sp c"
  using mergeInsert_delete_val [of "encode m" E a None sp c] by (simp add: received_columns encode_def)

text \<open>What an inserted batch does: the database and the peers that were seen.\<close>

fun see :: "msg \<Rightarrow> (blob \<Rightarrow> int option) \<Rightarrow> blob \<Rightarrow> int option" where
  "see m f = f(ms_site m := max_opt (f (ms_site m)) (Some (ms_dbv m)))"

lemma apply_rows_refines:
  assumes "replica ts c" and "peers_inv (pSeenPeers v)" and "list_all (msg_ok ts) ms"
  shows "\<exists>v' c'. apply_rows E (map columns_of ms) v c = Some (v', c') \<and> replica ts c' \<and> keeps c c' \<and>
    peers_inv (pSeenPeers v') \<and> seen (pSeenPeers v') = fold see ms (seen (pSeenPeers v)) \<and>
    abs_of ts (db c') = fold apply_msg ms (abs_of ts (db c)) \<and>
    (list_all (\<lambda>m. site_ok (ms_site m)) ms \<longrightarrow> dflts_all ts (db c) \<longrightarrow> dflts_all ts (db c') \<and>
      (open_tables ts (db c) \<longrightarrow> open_tables ts (db c')))"
  using assms
proof (induction ms arbitrary: v c)
  case (Cons m ms)
  obtain r where r: "crsql_mergeInsert E True (encode m) (pSeenPeers v) c = Some r" "mr_rc r = SQLITE_OK"
    "replica ts (mr_conn r)" "abs_of ts (db (mr_conn r)) = apply_msg m (abs_of ts (db c))" "keeps c (mr_conn r)"
    "peers_inv (mr_peers r)" "seen (mr_peers r) = see m (seen (pSeenPeers v))"
    "site_ok (ms_site m) \<longrightarrow> dflts_all ts (db c) \<longrightarrow> dflts_all ts (db (mr_conn r)) \<and>
      (open_tables ts (db c) \<longrightarrow> open_tables ts (db (mr_conn r)))"
    using mergeInsert_canonical [of ts c m "pSeenPeers v" E] Cons.prems
    by (auto simp: merge_ok_def split: option.splits)
  define v1 where "v1 = v\<lparr>pSeenPeers := mr_peers r\<rparr>"
  have "changesApply E True (2 + length (columns_of m)) True (received E (columns_of m)) v c =
      Some (SQLITE_OK, mr_rowid r, v1, mr_conn r)"
    using r(1,2) by (simp add: changesApply_def mergeInsert_received v1_def)
  then have step: "apply_rows E (map columns_of (m # ms)) v c = apply_rows E (map columns_of ms) v1 (mr_conn r)"
    by simp
  have v1: "pSeenPeers v1 = mr_peers r" and ok: "list_all (msg_ok ts) ms" using Cons.prems(3) by (simp_all add: v1_def)
  obtain v' c' where ih: "apply_rows E (map columns_of ms) v1 (mr_conn r) = Some (v', c')" "replica ts c'" "keeps (mr_conn r) c'"
    "peers_inv (pSeenPeers v')" "seen (pSeenPeers v') = fold see ms (seen (mr_peers r))"
    "abs_of ts (db c') = fold apply_msg ms (abs_of ts (db (mr_conn r)))"
    "list_all (\<lambda>m. site_ok (ms_site m)) ms \<longrightarrow> dflts_all ts (db (mr_conn r)) \<longrightarrow> dflts_all ts (db c') \<and>
      (open_tables ts (db (mr_conn r)) \<longrightarrow> open_tables ts (db c'))"
    using Cons.IH [of "mr_conn r" v1, unfolded v1, OF r(3,6) ok] by blast
  show ?case unfolding step using ih r(4,7,8) keeps_trans [OF r(5) ih(3)] by (intro exI [of _ v'] exI [of _ c']) (simp del: see.simps)
qed (simp add: keeps_refl)

lemma msgs_for_ok:
  assumes "list_all (\<lambda>info. readable info d) ts" and "length own \<le> SITE_ID_LEN" and "m \<in> msgs_for i s v ts own d"
  shows "msg_ok ts m"
proof -
  obtain info k where k: "info \<in> set ts" "k \<in> set (clock_rows d (ti_tblName info))" "m = msg_of info d own k"
    using assms(3) unfolding msgs_for_def by blast
  have rd: "readable info d" and ck: "clock_ok info d k"
    using assms(1) k(1,2) by (auto simp: list_all_iff readable_def)
  have site: "length (ms_site m) \<le> SITE_ID_LEN"
    using ck assms(2) by (simp add: k(3) msg_of_def clock_ok_def split: option.splits)
  have cid: "length (ms_cid m) \<le> MAX_TBL_NAME_LEN"
    using ck rd by (auto simp: k(3) msg_of_def clock_ok_def readable_def list_all_iff)
  have val: "wf_val (ms_val m) \<and> finite_val (ms_val m)"
  proof (cases "live_value info d k")
    case (Some x)
    then obtain r where r: "find_row info (user_rows d (ti_tblName info)) (ck_pk k) = Some r"
      "x = (if ck_col k \<in> ci_name ` set (ti_nonPks info) then r (ck_col k) else VText (ck_col k))"
      "ck_col k \<noteq> DELETE_CID_SENTINEL"
      by (auto simp: live_value_def split: if_splits)
    then have "r \<in> set (user_rows d (ti_tblName info))"
      unfolding find_row_def find_Some_iff by (auto simp: in_set_conv_nth)
    then have "ck_col k \<in> ci_name ` set (ti_nonPks info) \<Longrightarrow> wf_val (r (ck_col k)) \<and> finite_val (r (ck_col k))"
      using rd by (auto simp: readable_def list_all_iff)
    moreover have "c_string PKS_ONLY_CID_SENTINEL" by code_simp
    ultimately show ?thesis using r ck Some by (auto simp: k(3) msg_of_def clock_ok_def)
  qed (simp add: k(3) msg_of_def)
  show ?thesis
    using k(1) ck rd site cid val by (simp add: msg_ok_def k(3) msg_of_def clock_ok_def readable_def)
qed

section \<open>Pulling all changes of another replica\<close>

text \<open>A replica all of whose state can be read.\<close>

definition source :: "table_info list \<Rightarrow> conn \<Rightarrow> bool" where
  "source ts c \<longleftrightarrow> replica ts c \<and> list_all (\<lambda>info. readable info (db c) \<and> complete info (db c)) ts"

lemma readable_open:
  assumes "data_inv info d"
  shows "readable info d \<and> complete info d \<longleftrightarrow>
    names_free info d \<and> good_parts info (user_rows d (ti_tblName info)) (clock_rows d (ti_tblName info))"
proof -
  have "distinct_keys info (user_rows d (ti_tblName info))" "clocks_distinct (clock_rows d (ti_tblName info))"
    using assms by (simp_all add: data_inv_def data_parts_def)
  then show ?thesis
    by (auto simp: readable_def complete_def names_free_def good_parts_def good_table_def all_clocked_def
        good_clock_def clock_ok_def vals_ok_def list_all_iff)
qed

lemma source_open: "source ts c \<longleftrightarrow> replica ts c \<and> open_tables ts (db c)"
  using readable_open by (auto simp: source_def open_tables_def replica_def list_all_iff)

lemma source_join:
  assumes "source ts c" and "set ms = msgs_for 0 (Some [97]) MIN_POSSIBLE_DB_VERSION ts own (db c)"
  shows "fold apply_msg ms (abs_of ts d) = join_db (abs_of ts (db c)) (abs_of ts d)"
proof (rule all_msgs_join [OF _ _ assms(2)])
  show "distinct (map ti_tblName ts)" using assms(1) by (simp add: source_def replica_def)
  show "data_inv info (db c) \<and> readable info (db c) \<and> names_ok info \<and> complete info (db c)"
    if "info \<in> set ts" for info
    using assms(1) that schema_names_ok by (auto simp: source_def replica_def list_all_iff)
  show "abs_of ts d tbl pk = Dead" if "tbl \<notin> ti_tblName ` set ts" for tbl pk
    using that by (simp add: abs_of_def findTableInfo_None [symmetric])
qed

lemma msgs_for_sites:
  assumes "list_all (\<lambda>info. complete info d) ts" and "list_all (\<lambda>info. readable info d) ts" and "site_ok own"
    and "m \<in> msgs_for i s v ts own d"
  shows "site_ok (ms_site m)"
proof -
  obtain info k where k: "info \<in> set ts" "k \<in> set (clock_rows d (ti_tblName info))" "m = msg_of info d own k"
    using assms(4) unfolding msgs_for_def by blast
  then have "clock_ok info d k" "ck_site k \<noteq> Some [97]"
    using assms(1,2) by (auto simp: list_all_iff readable_def complete_def)
  with assms(3) show ?thesis by (auto simp: k(3) msg_of_def clock_ok_def site_ok_def split: option.splits)
qed

lemma read_all_aux:
  assumes "source ts cA" and "ts \<noteq> []"
  obtains n ms cA' where "\<And>m. m > n \<Longrightarrow> \<exists>cur. read_changes EA m 0 [] cA = Read SQLITE_OK (map columns_of ms) cur cA'"
    "replica ts cA'" "only_infos cA cA'"
    "set ms = msgs_for 0 (Some [97]) MIN_POSSIBLE_DB_VERSION ts (take SITE_ID_LEN (siteId (ext cA))) (db cA)"
proof -
  have A: "replica ts cA" "list_all (\<lambda>info. readable info (db cA)) ts"
    using assms(1) by (simp_all add: source_def list_all_iff)
  have f: "filter_args EA 0 [] = Some (Some [97], MIN_POSSIBLE_DB_VERSION)" by (simp add: filter_args_def)
  from read_changes_aux [OF A(1) assms(2) A(2) f] that show thesis by blast
qed

lemma apply_all_aux:
  assumes "source ts cA" and "replica ts cB" and "peers_inv (pSeenPeers v)"
    and "set ms = msgs_for 0 (Some [97]) MIN_POSSIBLE_DB_VERSION ts (take SITE_ID_LEN (siteId (ext cA))) (db cA)"
  obtains v' cB' where "apply_rows EB (map columns_of ms) v cB = Some (v', cB')" "replica ts cB'" "keeps cB cB'"
    "peers_inv (pSeenPeers v')" "abs_of ts (db cB') = join_db (abs_of ts (db cA)) (abs_of ts (db cB))"
    "site_ok (take SITE_ID_LEN (siteId (ext cA))) \<Longrightarrow> dflts_all ts (db cB) \<Longrightarrow> dflts_all ts (db cB')"
    "site_ok (take SITE_ID_LEN (siteId (ext cA))) \<Longrightarrow> dflts_all ts (db cB) \<Longrightarrow> open_tables ts (db cB) \<Longrightarrow>
      open_tables ts (db cB')"
proof -
  let ?own = "take SITE_ID_LEN (siteId (ext cA))"
  have A: "list_all (\<lambda>info. readable info (db cA)) ts" "list_all (\<lambda>info. complete info (db cA)) ts"
    using assms(1) by (simp_all add: source_def list_all_iff)
  have "list_all (msg_ok ts) ms"
    using msgs_for_ok [OF A(1), of ?own] assms(4) by (auto simp: list_all_iff)
  then obtain v' cB' where B: "apply_rows EB (map columns_of ms) v cB = Some (v', cB')" "replica ts cB'" "keeps cB cB'"
    "peers_inv (pSeenPeers v')" "abs_of ts (db cB') = fold apply_msg ms (abs_of ts (db cB))"
    "list_all (\<lambda>m. site_ok (ms_site m)) ms \<longrightarrow> dflts_all ts (db cB) \<longrightarrow> dflts_all ts (db cB') \<and>
      (open_tables ts (db cB) \<longrightarrow> open_tables ts (db cB'))"
    using apply_rows_refines [OF assms(2,3)] by blast
  have "fold apply_msg ms (abs_of ts (db cB)) = join_db (abs_of ts (db cA)) (abs_of ts (db cB))"
    using source_join [OF assms(1,4)] .
  moreover have "list_all (\<lambda>m. site_ok (ms_site m)) ms" if "site_ok ?own"
    using msgs_for_sites [OF A(2,1) that] assms(4) by (auto simp: list_all_iff)
  ultimately show thesis using that B by simp
qed

lemma pull_aux:
  assumes "source ts cA" and "ts \<noteq> []" and "replica ts cB" and "peers_inv (pSeenPeers v)"
  shows "\<exists>n rows cA' v' cB'. (\<forall>m>n. \<exists>cur. read_changes EA m 0 [] cA = Read SQLITE_OK rows cur cA') \<and>
    only_infos cA cA' \<and> replica ts cA' \<and> apply_rows EB rows v cB = Some (v', cB') \<and> replica ts cB' \<and>
    abs_of ts (db cB') = join_db (abs_of ts (db cA)) (abs_of ts (db cB))"
proof -
  obtain n ms cA' where ms: "\<And>m. m > n \<Longrightarrow> \<exists>cur. read_changes EA m 0 [] cA = Read SQLITE_OK (map columns_of ms) cur cA'"
    "replica ts cA'" "only_infos cA cA'"
    "set ms = msgs_for 0 (Some [97]) MIN_POSSIBLE_DB_VERSION ts (take SITE_ID_LEN (siteId (ext cA))) (db cA)"
    using read_all_aux [OF assms(1,2), of EA] by blast
  from apply_all_aux [OF assms(1,3,4) ms(4), of EB] ms(1-3) show ?thesis by metis
qed

text \<open>C3. Reading all changes of a replica and inserting them, row by row, into the changes table of
  another makes the second replica's state the join of both: a row is deleted if either side
  deleted it, exists if it exists on either side, and each column has the winning version.\<close>

theorem pull_joins:
  assumes "source ts cA" and "ts \<noteq> []" and "replica ts cB" and "peers_inv (pSeenPeers v)"
  shows "\<exists>n rows cA' v' cB'. (\<forall>m>n. \<exists>cur. read_changes EA m 0 [] cA = Read SQLITE_OK rows cur cA') \<and>
    apply_rows EB rows v cB = Some (v', cB') \<and> replica ts cB' \<and>
    abs_of ts (db cB') = join_db (abs_of ts (db cA)) (abs_of ts (db cB))"
  using pull_aux [OF assms, of EA EB] by blast

text \<open>Two replicas with any states that exchange all their changes end in the same state.\<close>

theorem exchange_converges:
  assumes "source ts cA" and "source ts cB" and "ts \<noteq> []"
    and "peers_inv (pSeenPeers vA)" and "peers_inv (pSeenPeers vB)"
  shows "\<exists>n rowsA rowsB cA1 cB1 vA2 cA2 vB2 cB2.
    (\<forall>m>n. \<exists>cur. read_changes EA m 0 [] cA = Read SQLITE_OK rowsA cur cA1) \<and>
    (\<forall>m>n. \<exists>cur. read_changes EB m 0 [] cB = Read SQLITE_OK rowsB cur cB1) \<and>
    apply_rows EA rowsB vA cA1 = Some (vA2, cA2) \<and> apply_rows EB rowsA vB cB1 = Some (vB2, cB2) \<and>
    abs_of ts (db cA2) = abs_of ts (db cB2)"
proof -
  have A: "replica ts cA" and B: "replica ts cB" using assms(1,2) by (simp_all add: source_def)
  obtain n1 rowsA cA1 where 1: "\<forall>m>n1. \<exists>cur. read_changes EA m 0 [] cA = Read SQLITE_OK rowsA cur cA1"
    "only_infos cA cA1" "replica ts cA1"
    using pull_aux [OF assms(1,3) B assms(5), of EA EB] by blast
  obtain n2 rowsB cB1 vA2 cA2 where 2: "\<forall>m>n2. \<exists>cur. read_changes EB m 0 [] cB = Read SQLITE_OK rowsB cur cB1"
    "only_infos cB cB1" "replica ts cB1" "apply_rows EA rowsB vA cA1 = Some (vA2, cA2)"
    "abs_of ts (db cA2) = join_db (abs_of ts (db cB)) (abs_of ts (db cA1))"
    using pull_aux [OF assms(2,3) 1(3) assms(4), of EB EA] by blast
  obtain n3 rowsA' cA1' vB2 cB2 where 3: "\<forall>m>n3. \<exists>cur. read_changes EA m 0 [] cA = Read SQLITE_OK rowsA' cur cA1'"
    "apply_rows EB rowsA' vB cB1 = Some (vB2, cB2)"
    "abs_of ts (db cB2) = join_db (abs_of ts (db cA)) (abs_of ts (db cB1))"
    using pull_aux [OF assms(1,3) 2(3) assms(5), of EA EB] by blast
  have "db cA1 = db cA" "db cB1 = db cB" using 1(2) 2(2) by (simp_all add: only_infos_def)
  then have "abs_of ts (db cA2) = abs_of ts (db cB2)" using 2(5) 3(3) join_db_commute by metis
  define n where "n = max n1 (max n2 n3)"
  have "n1 < Suc n" "n3 < Suc n" by (simp_all add: n_def less_Suc_eq_le)
  then have "rowsA' = rowsA" using 1(1) 3(1) by fastforce
  moreover note \<open>abs_of ts (db cA2) = abs_of ts (db cB2)\<close>
  moreover have "\<forall>m>n. \<exists>cur. read_changes EA m 0 [] cA = Read SQLITE_OK rowsA cur cA1"
    "\<forall>m>n. \<exists>cur. read_changes EB m 0 [] cB = Read SQLITE_OK rowsB cur cB1"
    using 1(1) 2(1) by (simp_all add: n_def)
  ultimately show ?thesis using 2(4) 3(2) by blast
qed

text \<open>A pull may leave out every change that the puller has, or that a change it reads makes superfluous.\<close>

lemma partial_pull_aux:
  assumes "source ts cA" and "ts \<noteq> []" and "replica ts cB" and "peers_inv (pSeenPeers v)"
    and "filter_args EA idxNum argv = Some (site, bound)"
    and "\<And>m. m \<in> msgs_for 0 (Some [97]) MIN_POSSIBLE_DB_VERSION ts (take SITE_ID_LEN (siteId (ext cA))) (db cA) \<Longrightarrow>
      m \<notin> msgs_for idxNum site bound ts (take SITE_ID_LEN (siteId (ext cA))) (db cA) \<Longrightarrow>
      apply_msg m (abs_of ts (db cB)) = abs_of ts (db cB) \<or>
      (\<exists>m' \<in> msgs_for idxNum site bound ts (take SITE_ID_LEN (siteId (ext cA))) (db cA).
         \<forall>X. apply_msg m (apply_msg m' X) = apply_msg m' X)"
  shows "\<exists>n rows cA' v' cB'. (\<forall>m>n. \<exists>cur. read_changes EA m idxNum argv cA = Read SQLITE_OK rows cur cA') \<and>
    apply_rows EB rows v cB = Some (v', cB') \<and> replica ts cB' \<and>
    abs_of ts (db cB') = join_db (abs_of ts (db cA)) (abs_of ts (db cB))"
proof -
  let ?own = "take SITE_ID_LEN (siteId (ext cA))" and ?S = "abs_of ts (db cB)"
  have A: "replica ts cA" "list_all (\<lambda>info. readable info (db cA)) ts"
    using assms(1) by (simp_all add: source_def list_all_iff)
  have f: "filter_args EA 0 [] = Some (Some [97], MIN_POSSIBLE_DB_VERSION)" by (simp add: filter_args_def)
  obtain all where all: "set all = msgs_for 0 (Some [97]) MIN_POSSIBLE_DB_VERSION ts ?own (db cA)"
    using read_changes_aux [OF A(1) assms(2) A(2) f] by blast
  obtain n ms cA' where ms: "\<forall>m>n. \<exists>cur. read_changes EA m idxNum argv cA = Read SQLITE_OK (map columns_of ms) cur cA'"
    "set ms = msgs_for idxNum site bound ts ?own (db cA)"
    using read_changes_aux [OF A(1) assms(2) A(2) assms(5)] by blast
  have "list_all (msg_ok ts) ms"
    using msgs_for_ok [OF A(2), of ?own] ms(2) by (auto simp: list_all_iff)
  then obtain v' cB' where B: "apply_rows EB (map columns_of ms) v cB = Some (v', cB')" "replica ts cB'"
    "abs_of ts (db cB') = fold apply_msg ms ?S"
    using apply_rows_refines [OF assms(3,4)] by blast
  let ?old = "filter (\<lambda>m. m \<notin> set ms) all" and ?R = "fold apply_msg ms ?S"
  have "apply_msg m ?R = ?R" if m: "m \<in> set ?old" for m
  proof -
    consider "apply_msg m ?S = ?S" | m' where "m' \<in> set ms" "\<And>X. apply_msg m (apply_msg m' X) = apply_msg m' X"
      using assms(6) [of m] m all ms(2) by auto
    then show ?thesis
    proof cases
      case 1
      then show ?thesis using msgs.fold_commute [of "[m]" ms ?S] by simp
    next
      case 2
      then have "apply_msg m' ?R = ?R" using msgs.replay [of "[m']" ms ?S] by simp
      with 2(2) [of ?R] show ?thesis by simp
    qed
  qed
  moreover have "fold apply_msg xs R = R" if "\<forall>m\<in>set xs. apply_msg m R = R" for xs R
    using that by (induction xs) auto
  ultimately have "fold apply_msg ?old ?R = ?R" by blast
  moreover have "msgs_for idxNum site bound ts ?own (db cA) \<subseteq> set all"
    using assms(1) unfolding all msgs_for_def source_def complete_def list_all_iff selected_def by auto
  then have "set (ms @ ?old) = set all" using ms(2) by auto
  then have "fold apply_msg (ms @ ?old) ?S = fold apply_msg all ?S" by (rule msgs.same_set)
  ultimately have "?R = fold apply_msg all ?S" by simp
  also have "\<dots> = join_db (abs_of ts (db cA)) ?S" using source_join [OF assms(1) all] .
  finally have "abs_of ts (db cB') = join_db (abs_of ts (db cA)) ?S" using B(3) by simp
  with ms(1) B(1,2) show ?thesis by blast
qed

text \<open>A pull may ask for less, such as the changes after the version seen last that do not come from
  the puller itself, as long as every change it leaves out is one the puller has: the result is
  the same join.\<close>

theorem partial_pull_joins:
  assumes "source ts cA" and "ts \<noteq> []" and "replica ts cB" and "peers_inv (pSeenPeers v)"
    and "filter_args EA idxNum argv = Some (site, bound)"
    and "\<forall>m \<in> msgs_for 0 (Some [97]) MIN_POSSIBLE_DB_VERSION ts (take SITE_ID_LEN (siteId (ext cA))) (db cA) -
      msgs_for idxNum site bound ts (take SITE_ID_LEN (siteId (ext cA))) (db cA).
      apply_msg m (abs_of ts (db cB)) = abs_of ts (db cB)"
  shows "\<exists>n rows cA' v' cB'. (\<forall>m>n. \<exists>cur. read_changes EA m idxNum argv cA = Read SQLITE_OK rows cur cA') \<and>
    apply_rows EB rows v cB = Some (v', cB') \<and> replica ts cB' \<and>
    abs_of ts (db cB') = join_db (abs_of ts (db cA)) (abs_of ts (db cB))"
  using partial_pull_aux [OF assms(1-5)] assms(6) by blast

text \<open>A replica absorbs its own changes.\<close>

lemma own_msg_absorbed:
  assumes "source ts c" and "set all = msgs_for 0 (Some [97]) MIN_POSSIBLE_DB_VERSION ts own (db c)" and "m \<in> set all"
  shows "apply_msg m (abs_of ts (db c)) = abs_of ts (db c)"
proof -
  have "fold apply_msg all (abs_of ts (db c)) = abs_of ts (db c)"
    using source_join [OF assms(1,2), of "db c"] by (simp add: join_db_def fun_eq_iff)
  then show ?thesis using msgs.replay [of "[m]" all "abs_of ts (db c)"] assms(3) by simp
qed

lemma own_change_absorbed:
  assumes "source ts c" and "m \<in> msgs_for 0 (Some [97]) MIN_POSSIBLE_DB_VERSION ts own (db c)"
  shows "apply_msg m (abs_of ts (db c)) = abs_of ts (db c)"
proof -
  have "msgs_for 0 (Some [97]) MIN_POSSIBLE_DB_VERSION ts own (db c) \<subseteq>
      (\<Union>info \<in> set ts. msg_of info (db c) own ` set (clock_rows (db c) (ti_tblName info)))"
    unfolding msgs_for_def by blast
  then have "finite (msgs_for 0 (Some [97]) MIN_POSSIBLE_DB_VERSION ts own (db c))"
    by (rule finite_subset) simp
  then obtain all where "set all = msgs_for 0 (Some [97]) MIN_POSSIBLE_DB_VERSION ts own (db c)"
    using finite_list by blast
  then show ?thesis using own_msg_absorbed [OF assms(1)] assms(2) by blast
qed

section \<open>Two concrete replicas\<close>

definition other_conn :: conn where
  "other_conn = upd_db (upd_rows ''foo'' (\<lambda>_. [row_of (VInt 1) (VText ''z''), row_of (VInt 2) (VInt 4)])) filled_conn"

definition new_vtab :: changes_vtab where
  "new_vtab = \<lparr>pSeenPeers = crsql_newSeenPeers, zErrMsg = None\<rparr>"

lemma source_filled: "source [foo_info] filled_conn"
proof -
  have "complete foo_info (db filled_conn)" by code_simp
  then show ?thesis using replica_filled readable_filled by (simp add: source_def)
qed

lemma source_other: "source [foo_info] other_conn"
proof -
  have "current_infos (db other_conn) = Some [foo_info]" "cols_ok (db other_conn)"
    "schema_inv foo_info (db other_conn)" "data_inv foo_info (db other_conn)"
    "readable foo_info (db other_conn)" "complete foo_info (db other_conn)" by code_simp+
  moreover have "conn_ok other_conn" "syncBit other_conn = 0"
    using replica_filled by (simp_all add: other_conn_def replica_def)
  moreover have "infos_inv other_conn"
    using replica_filled by (auto simp: replica_def infos_inv_def other_conn_def split: ptr.splits)
  ultimately show ?thesis by (simp add: source_def replica_def)
qed

lemma peers_new_vtab: "peers_inv (pSeenPeers new_vtab)"
  by (simp add: new_vtab_def peers_inv_new)

theorem pull_joins_witness:
  "\<exists>n rows cA' v' cB'. (\<forall>m>n. \<exists>cur. read_changes no_env m 0 [] filled_conn = Read SQLITE_OK rows cur cA') \<and>
    apply_rows no_env rows new_vtab other_conn = Some (v', cB') \<and>
    abs_of [foo_info] (db cB') = join_db (abs_of [foo_info] (db filled_conn)) (abs_of [foo_info] (db other_conn))"
  using pull_joins [OF source_filled _ _ peers_new_vtab, of other_conn no_env no_env] source_other
  by (auto simp: source_def)

theorem exchange_converges_witness:
  "\<exists>n rowsA rowsB cA1 cB1 vA2 cA2 vB2 cB2.
    (\<forall>m>n. \<exists>cur. read_changes no_env m 0 [] filled_conn = Read SQLITE_OK rowsA cur cA1) \<and>
    (\<forall>m>n. \<exists>cur. read_changes no_env m 0 [] other_conn = Read SQLITE_OK rowsB cur cB1) \<and>
    apply_rows no_env rowsB new_vtab cA1 = Some (vA2, cA2) \<and>
    apply_rows no_env rowsA new_vtab cB1 = Some (vB2, cB2) \<and>
    abs_of [foo_info] (db cA2) = abs_of [foo_info] (db cB2)"
  using exchange_converges [OF source_filled source_other _ peers_new_vtab peers_new_vtab, of no_env no_env]
  by simp

text \<open>Only the change of row 2, which has version 7, is read; the one left out has version 3.\<close>

theorem partial_pull_joins_witness:
  "\<exists>n rows cA' v' cB'. (\<forall>m>n. \<exists>cur. read_changes no_env m 2 [VInt 3] filled_conn = Read SQLITE_OK rows cur cA') \<and>
    apply_rows no_env rows new_vtab filled_conn = Some (v', cB') \<and>
    abs_of [foo_info] (db cB') = join_db (abs_of [foo_info] (db filled_conn)) (abs_of [foo_info] (db filled_conn))"
proof -
  let ?own = "take SITE_ID_LEN (siteId (ext filled_conn))"
  have f: "filter_args no_env 2 [VInt 3] = Some (Some [97], 3)" "filter_args no_env 0 [] = Some (Some [97], 0)"
    by (simp_all add: filter_args_def column_int64_def)
  have r: "list_all (\<lambda>info. readable info (db filled_conn)) [foo_info]" using readable_filled by simp
  obtain all where all: "set all = msgs_for 0 (Some [97]) MIN_POSSIBLE_DB_VERSION [foo_info] ?own (db filled_conn)"
    using read_changes_aux [OF replica_filled _ r f(2)] by auto
  have "\<forall>m \<in> msgs_for 0 (Some [97]) MIN_POSSIBLE_DB_VERSION [foo_info] ?own (db filled_conn) -
      msgs_for 2 (Some [97]) 3 [foo_info] ?own (db filled_conn).
      apply_msg m (abs_of [foo_info] (db filled_conn)) = abs_of [foo_info] (db filled_conn)"
    using own_msg_absorbed [OF source_filled all] all by blast
  from partial_pull_joins [OF source_filled _ replica_filled peers_new_vtab f(1) this, of no_env]
  show ?thesis by auto
qed

end
