(* ===== verification/Compat.thy ===== *)
theory Compat imports Ext_Data begin

text \<open>
  Whether a table may become replicated (\<^verbatim>\<open>crsql_isTableCompatible\<close> in \<^verbatim>\<open>core/src/tableinfo.c\<close>) and
  the queries on the schema in \<^verbatim>\<open>core/src/util.c\<close>. The pragmas are asked about tables of the user
  only; a table that does not exist has no indices and no columns.
\<close>

section \<open>Queries on the schema\<close>

definition count_query :: "(database \<Rightarrow> nat) \<Rightarrow> query" where
  "count_query n c = (GotRow (VInt (int (n (db c)))), c)"

definition crsql_doesTableExist :: "string \<Rightarrow> conn \<Rightarrow> int \<times> conn" where
  "crsql_doesTableExist tblName c =
     crsql_getCount (count_query (\<lambda>d. length (filter (\<lambda>n. n = tblName) (db_master d)))) c"

text \<open>\<^verbatim>\<open>pragma_index_list\<close>, \<^verbatim>\<open>pragma_foreign_key_list\<close> and \<^verbatim>\<open>pragma_table_xinfo\<close>.\<close>

definition index_list :: "database \<Rightarrow> string \<Rightarrow> index_entry list" where
  "index_list d tbl = (case db_user d tbl of None \<Rightarrow> [] | Some t \<Rightarrow> ut_indices t)"

definition foreign_keys :: "database \<Rightarrow> string \<Rightarrow> nat" where
  "foreign_keys d tbl = (case db_user d tbl of None \<Rightarrow> 0 | Some t \<Rightarrow> ut_fks t)"

definition table_xinfo :: "database \<Rightarrow> string \<Rightarrow> (column_info \<times> bool) list" where
  "table_xinfo d tbl = (case db_user d tbl of None \<Rightarrow> []
     | Some t \<Rightarrow> map (\<lambda>k. (k, ci_name k \<in> set (ut_dflt_given t))) (ut_cols t @ ut_hidden t))"

text \<open>\<^verbatim>\<open>pragma_index_info\<close>: the columns of the index of that name, in order.\<close>

definition index_info :: "database \<Rightarrow> string \<Rightarrow> string option list" where
  "index_info d name =
     (case find (\<lambda>i. ix_name i = name) (concat (map (index_list d) (db_master d))) of
        None \<Rightarrow> [] | Some i \<Rightarrow> ix_cols i)"

text \<open>The loop over the names after the first step: a NULL name is copied, which is undefined; more
  rows than counted fail the assertion. The result is the code of the last step.\<close>

fun read_names :: "nat \<Rightarrow> string option list \<Rightarrow> conn \<Rightarrow> (int \<times> string list \<times> conn) option" where
  "read_names room [] c = (let (f, c) = sql_call c in Some (if f \<noteq> 0 then f else SQLITE_DONE, [], c))"
| "read_names room (n # ns) c =
     (let (f, c) = sql_call c in
      if f \<noteq> 0 then Some (f, [], c)
      else case (room, n) of
        (Suc room, Some s) \<Rightarrow>
          (case read_names room ns c of None \<Rightarrow> None | Some (rc, names, c) \<Rightarrow> Some (rc, s # names, c))
      | _ \<Rightarrow> None)"

text \<open>The result code, the names and their number as the caller sees them, and the message.\<close>

definition crsql_getIndexedCols ::
  "string \<Rightarrow> conn \<Rightarrow> (int \<times> string list option \<times> int \<times> string option \<times> conn) option" where
  "crsql_getIndexedCols indexName c =
     (let (numCols, c) = crsql_getCount (count_query (\<lambda>d. length (index_info d indexName))) c in
      if numCols \<le> 0 then Some (numCols, None, 0, None, c)
      else let (f, c) = sql_call c in
      if f \<noteq> 0 then
        Some (f, None, 0, Some (''Failed preparing pragma_index_info('' @ sq indexName @ '') stmt''), c)
      else let (f, c1) = sql_call c in
      if f \<noteq> 0 \<or> index_info (db c) indexName = [] then Some (SQLITE_OK, None, 0, None, c1)
      else do {
        (rc, indexedCols, c) \<leftarrow> read_names (nat numCols) (index_info (db c) indexName) c;
        if rc \<noteq> SQLITE_DONE then Some (rc, None, 0, Some ''Failed allocating index info'', c)
        else Some (SQLITE_OK, Some indexedCols, numCols, None, c)
      })"

section \<open>The check\<close>

text \<open>One count: the check stops with a message when preparing fails, without one when stepping fails,
  and with another when the count is bad.\<close>

definition compat_count ::
  "(database \<Rightarrow> nat) \<Rightarrow> string \<Rightarrow> (nat \<Rightarrow> bool) \<Rightarrow> string \<Rightarrow> conn \<Rightarrow> (string option + unit) \<times> conn" where
  "compat_count n prep_msg bad bad_msg c =
     (case run_query (count_query n) c of
        (PrepFail rc, c) \<Rightarrow> (Inl (Some prep_msg), c)
      | (Stepped rc, c) \<Rightarrow> (Inl None, c)
      | (GotRow v, c) \<Rightarrow>
          ((if (case v of VInt i \<Rightarrow> bad (nat i) | _ \<Rightarrow> bad 0) then Inl (Some bad_msg) else Inr ()), c))"

definition crsql_isTableCompatible :: "string \<Rightarrow> conn \<Rightarrow> (string option + unit) \<times> conn" where
  "crsql_isTableCompatible tblName c =
     (case compat_count
        (\<lambda>d. length (filter (\<lambda>i. ix_origin i \<noteq> ''pk'' \<and> ix_unique i) (index_list d tblName)))
        (''Failed to analyze index information for '' @ tblName)
        (\<lambda>count. count \<noteq> 0)
        (''Table '' @ tblName @ '' has unique indices besides the primary key. This is '' @
         ''not '' @ ''allowed for CRRs'') c of
        (Inl err, c) \<Rightarrow> (Inl err, c)
      | (Inr ok, c) \<Rightarrow>
      (case compat_count
        (\<lambda>d. length (filter (\<lambda>i. ix_origin i = ''pk'') (index_list d tblName)))
        (''Failed to analyze primary key information for '' @ tblName)
        (\<lambda>count. count = 0)
        (''Table '' @ tblName @ '' has no primary key. CRRs must have a primary key'') c of
        (Inl err, c) \<Rightarrow> (Inl err, c)
      | (Inr ok, c) \<Rightarrow>
      (case compat_count
        (\<lambda>d. foreign_keys d tblName)
        (''Failed to analyze primary key information for '' @ tblName)
        (\<lambda>count. count \<noteq> 0)
        (''Table '' @ tblName @ '' has foreign key constraints. CRRs must not have '' @ ''checked '' @
         ''foreign key constraints as they can be violated by row level '' @
         ''security or replication.'') c of
        (Inl err, c) \<Rightarrow> (Inl err, c)
      | (Inr ok, c) \<Rightarrow>
      compat_count
        (\<lambda>d. length (filter (\<lambda>(k, dflt). ci_notnull k = 1 \<and> \<not> dflt \<and> ci_pk k = 0) (table_xinfo d tblName)))
        (''Failed to analyze default value information for '' @ tblName)
        (\<lambda>count. count \<noteq> 0)
        (''Table '' @ tblName @ '' has a NOT NULL column without a DEFAULT VALUE. This '' @ ''is not '' @
         ''allowed as it prevents forwards and backwards compatability '' @ ''between '' @
         ''schema versions. Make the column nullable or assign a default '' @ ''value '' @ ''to it.'') c)))"

section \<open>Results\<close>

lemma doesTableExist_ok:
  "faults c = [] \<Longrightarrow> distinct (db_master (db c)) \<Longrightarrow>
     crsql_doesTableExist n c = (if n \<in> set (db_master (db c)) then 1 else 0, c)"
proof -
  have "distinct xs \<Longrightarrow> length (filter (\<lambda>m. m = n) xs) = (if n \<in> set xs then 1 else 0)" for xs
    by (induction xs) (auto simp: filter_empty_conv)
  then show "faults c = [] \<Longrightarrow> distinct (db_master (db c)) \<Longrightarrow> ?thesis"
    by (simp add: crsql_doesTableExist_def crsql_getCount_def count_query_def)
qed

lemma read_names_ok:
  assumes "faults c = []"
  shows "length ns \<le> room \<Longrightarrow> read_names room ns c =
    (if None \<in> set ns then None else Some (SQLITE_DONE, map the ns, c))"
proof (induction ns arbitrary: room)
  case (Cons n ns)
  obtain k where "room = Suc k" using Cons.prems by (cases room) auto
  with Cons assms show ?case by (cases n) auto
qed (simp add: assms)

text \<open>The columns of an index are returned in the order of the index; an index on an expression,
  whose column has no name, makes the code copy a NULL string, which is undefined.\<close>

theorem getIndexedCols_result:
  assumes "faults c = []"
  shows "crsql_getIndexedCols name c =
    (let cols = index_info (db c) name in
     if cols = [] then Some (SQLITE_OK, None, 0, None, c)
     else if None \<in> set cols then None
     else Some (SQLITE_OK, Some (map the cols), int (length cols), None, c))"
  using assms read_names_ok [OF assms, of "index_info (db c) name" "length (index_info (db c) name)"]
  by (auto simp: crsql_getIndexedCols_def crsql_getCount_def count_query_def Let_def)

theorem getIndexedCols_result_witness:
  "crsql_getIndexedCols ''sqlite_autoindex_foo_1'' test_conn = Some (SQLITE_OK, Some [''a''], 1, None, test_conn)"
proof -
  have "faults test_conn = []" by (simp add: test_conn_def)
  moreover have "index_info (db test_conn) ''sqlite_autoindex_foo_1'' = [Some ''a'']" by code_simp
  ultimately show ?thesis using getIndexedCols_result [of test_conn "''sqlite_autoindex_foo_1''"] by simp
qed

text \<open>What a replicated table must be like.\<close>

definition table_allowed :: "user_table \<Rightarrow> bool" where
  "table_allowed t \<longleftrightarrow>
     list_ex (\<lambda>i. ix_origin i = ''pk'') (ut_indices t) \<and>
     list_all (\<lambda>i. ix_unique i \<longrightarrow> ix_origin i = ''pk'') (ut_indices t) \<and> ut_fks t = 0 \<and>
     list_all (\<lambda>k. ci_notnull k = 1 \<longrightarrow> ci_pk k = 0 \<longrightarrow> ci_name k \<in> set (ut_dflt_given t))
       (ut_cols t @ ut_hidden t)"

lemma compat_count_ok:
  "faults c = [] \<Longrightarrow> compat_count n pm bad bm c = ((if bad (n (db c)) then Inl (Some bm) else Inr ()), c)"
  by (simp add: compat_count_def count_query_def)

lemma isTableCompatible_aux:
  assumes "faults c = []"
  shows "\<exists>res. crsql_isTableCompatible tbl c = (res, c) \<and>
    (res = Inr () \<longleftrightarrow> (\<exists>t. db_user (db c) tbl = Some t \<and> table_allowed t)) \<and> res \<noteq> Inl None"
proof (cases "db_user (db c) tbl")
  case None
  then show ?thesis
    using assms by (simp add: crsql_isTableCompatible_def compat_count_ok index_list_def)
next
  case (Some t)
  have f: "length (filter P xs) = 0 \<longleftrightarrow> list_all (\<lambda>x. \<not> P x) xs" for P :: "'a \<Rightarrow> bool" and xs
    by (simp add: filter_empty_conv list_all_iff)
  have "table_allowed t \<longleftrightarrow>
    length (filter (\<lambda>i. ix_origin i \<noteq> ''pk'' \<and> ix_unique i) (ut_indices t)) = 0 \<and>
    length (filter (\<lambda>i. ix_origin i = ''pk'') (ut_indices t)) \<noteq> 0 \<and> ut_fks t = 0 \<and>
    length (filter (\<lambda>(k, dflt). ci_notnull k = 1 \<and> \<not> dflt \<and> ci_pk k = 0)
      (map (\<lambda>k. (k, ci_name k \<in> set (ut_dflt_given t))) (ut_cols t @ ut_hidden t))) = 0"
    unfolding table_allowed_def f by (auto simp: list_all_iff list_ex_iff)
  with Some assms show ?thesis
    by (simp add: crsql_isTableCompatible_def compat_count_ok index_list_def foreign_keys_def table_xinfo_def)
qed



text \<open>A table declared with \<^verbatim>\<open>INTEGER PRIMARY KEY\<close> has a primary key but no index for it, the
  column being the rowid; it is refused with the message that it has no primary key.\<close>

theorem integer_primary_key_refused:
  assumes "faults c = []" and "db_user (db c) tbl = Some t" and "ut_indices t = []"
  shows "crsql_isTableCompatible tbl c =
    (Inl (Some (''Table '' @ tbl @ '' has no primary key. CRRs must have a primary key'')), c)"
  using assms by (simp add: crsql_isTableCompatible_def compat_count_ok index_list_def)

theorem integer_primary_key_refused_witness:
  "let c = test_conn\<lparr>db := test_db\<lparr>db_user := [''foo'' \<mapsto> test_user\<lparr>ut_indices := []\<rparr>]\<rparr>\<rparr> in
   crsql_isTableCompatible ''foo'' c =
     (Inl (Some ''Table foo has no primary key. CRRs must have a primary key''), c)"
  using integer_primary_key_refused [of "test_conn\<lparr>db := test_db\<lparr>db_user := [''foo'' \<mapsto> test_user\<lparr>ut_indices := []\<rparr>]\<rparr>\<rparr>"
      "''foo''" "test_user\<lparr>ut_indices := []\<rparr>"]
  by (simp add: test_conn_def Let_def)

end
