(* ===== verification/Transactions.thy ===== *)
theory Transactions imports Sync Compat begin

text \<open>
  Transactions and savepoints of a connection, the hooks \<^verbatim>\<open>core/src/crsqlite.c\<close> registers for their
  ends, and the changes table taking part in them.

  A transaction is the database as it was when it began. SQLite calls the commit hook when
  something was written; here it is called at every commit, which only drops a cached version
  that would be read again.
\<close>

section \<open>The hooks\<close>

definition commitHook :: "conn \<Rightarrow> int \<times> conn" where
  "commitHook c = (SQLITE_OK, upd_ext (\<lambda>x. x\<lparr>dbVersion := -1\<rparr>) c)"

definition rollbackHook :: "conn \<Rightarrow> conn" where
  "rollbackHook c = upd_ext (\<lambda>x. x\<lparr>dbVersion := -1\<rparr>) c"

section \<open>Transaction statements\<close>

definition end_tx :: "conn \<Rightarrow> conn" where
  "end_tx c = c\<lparr>tx := None, saves := [], implicit_tx := False\<rparr>"

definition sql_begin :: command where
  "sql_begin c = (if tx c = None then (SQLITE_OK, c\<lparr>tx := Some (db c), saves := [], implicit_tx := False\<rparr>)
     else (SQLITE_ERROR, c))"

definition commit_tx :: command where
  "commit_tx c = (let (rc, c) = commitHook c in (SQLITE_OK, end_tx c))"

definition sql_commit :: command where
  "sql_commit c = (if tx c = None then (SQLITE_ERROR, c) else commit_tx c)"

definition sql_rollback :: command where
  "sql_rollback c = (case tx c of None \<Rightarrow> (SQLITE_ERROR, c)
     | Some base \<Rightarrow> (SQLITE_OK, end_tx (rollbackHook (c\<lparr>db := base\<rparr>))))"

text \<open>The outermost savepoint begins a transaction when there is none, and releasing it commits.\<close>

definition sql_savepoint :: "string \<Rightarrow> command" where
  "sql_savepoint name c =
     (SQLITE_OK, if tx c = None then c\<lparr>tx := Some (db c), saves := [(name, db c)], implicit_tx := True\<rparr>
       else c\<lparr>saves := (name, db c) # saves c\<rparr>)"

definition sql_release :: "string \<Rightarrow> command" where
  "sql_release name c =
     (case dropWhile (\<lambda>(n, d). n \<noteq> name) (saves c) of
        [] \<Rightarrow> (SQLITE_ERROR, c)
      | s # outer \<Rightarrow> if outer = [] \<and> implicit_tx c then commit_tx c else (SQLITE_OK, c\<lparr>saves := outer\<rparr>))"

lemma end_tx_simps [simp]:
  "db (end_tx c) = db c" "ext (end_tx c) = ext c" "syncBit (end_tx c) = syncBit c" "faults (end_tx c) = faults c"
  "tx (end_tx c) = None" "saves (end_tx c) = []" "implicit_tx (end_tx c) = False"
  by (simp_all add: end_tx_def)

text \<open>A savepoint that is rolled back wholly restores the database, and the cached version is
  forgotten whichever way a transaction ends.\<close>

lemma savepoint_rollback:
  "snd (sql_savepoint n c) = c1 \<Longrightarrow> tx c = None \<Longrightarrow> db (snd (sql_rollback (c1\<lparr>db := d\<rparr>))) = db c \<and>
     dbVersion (ext (snd (sql_rollback (c1\<lparr>db := d\<rparr>)))) = -1"
  by (auto simp: sql_savepoint_def sql_rollback_def rollbackHook_def)

section \<open>Sessions that insert changes\<close>

text \<open>The connection and its changes table; \<open>ss_joined\<close> says that the table takes part in the open
  transaction (SQLite adds it at its first write and calls its \<^verbatim>\<open>xBegin\<close>). At a commit SQLite first
  calls the hook, then ends the transaction, and then calls \<^verbatim>\<open>xCommit\<close>, whose result it ignores; the
  table has no \<^verbatim>\<open>xRollback\<close>, so a rollback only removes it.\<close>

record session =
  ss_conn :: conn
  ss_vtab :: changes_vtab
  ss_joined :: bool

definition vtab_commit :: "session \<Rightarrow> session" where
  "vtab_commit s =
     (if ss_joined s
      then let (ignored_rc, v, c) = changesInsertCommit (ss_vtab s) (ss_conn s) in
        s\<lparr>ss_conn := c, ss_vtab := v, ss_joined := False\<rparr>
      else s)"

datatype sess_op = Begin_op | Commit_op | Rollback_op | Insert_op msg

text \<open>A statement outside a transaction is one of its own.\<close>

definition sess_commit :: "session \<Rightarrow> int \<times> session" where
  "sess_commit s = (let (rc, c) = sql_commit (ss_conn s) in
     if rc \<noteq> SQLITE_OK then (rc, s) else (SQLITE_OK, vtab_commit (s\<lparr>ss_conn := c\<rparr>)))"

definition sess_rollback :: "session \<Rightarrow> int \<times> session" where
  "sess_rollback s = (let (rc, c) = sql_rollback (ss_conn s) in
     if rc \<noteq> SQLITE_OK then (rc, s) else (SQLITE_OK, s\<lparr>ss_conn := c, ss_joined := False\<rparr>))"

definition autocommit :: "(session \<Rightarrow> (int \<times> session) option) \<Rightarrow> session \<Rightarrow> (int \<times> session) option" where
  "autocommit f s =
     (if tx (ss_conn s) \<noteq> None then f s
      else do {
        (rc, s) \<leftarrow> f (s\<lparr>ss_conn := snd (sql_begin (ss_conn s))\<rparr>);
        if rc = SQLITE_OK then Some (sess_commit s)
        else let (ignored_rc, s) = sess_rollback s in Some (rc, s)
      })"

definition insert_change :: "sql_env \<Rightarrow> sqlval list \<Rightarrow> session \<Rightarrow> (int \<times> session) option" where
  "insert_change E row s = do {
     let ignored_rc = (if ss_joined s then SQLITE_OK else changesInsertBegin (ss_vtab s));
     (rc, rowid, v, c) \<leftarrow> changesApply E True (2 + length row) True (received E row) (ss_vtab s) (ss_conn s);
     Some (rc, s\<lparr>ss_conn := c, ss_vtab := v, ss_joined := True\<rparr>)
   }"

fun sess_step :: "sql_env \<Rightarrow> sess_op \<Rightarrow> session \<Rightarrow> (int \<times> session) option" where
  "sess_step E Begin_op s = (let (rc, c) = sql_begin (ss_conn s) in Some (rc, s\<lparr>ss_conn := c\<rparr>))"
| "sess_step E Commit_op s = Some (sess_commit s)"
| "sess_step E Rollback_op s = Some (sess_rollback s)"
| "sess_step E (Insert_op m) s = autocommit (insert_change E (columns_of m)) s"

section \<open>What the ends of a transaction preserve\<close>

definition below_limit :: "database \<Rightarrow> bool" where
  "below_limit d \<longleftrightarrow> 0 \<le> storage_version d \<and> int64 (storage_version d + 1)"

definition base_ok :: "table_info list \<Rightarrow> conn \<Rightarrow> database \<Rightarrow> bool" where
  "base_ok ts c base \<longleftrightarrow> db_schema_version base = db_schema_version (db c) \<and>
     db_master base = db_master (db c) \<and> below_limit base \<and> clocks_ok base \<and>
     current_infos base = Some ts \<and> cols_ok base \<and>
     list_all (\<lambda>info. schema_inv info base \<and> data_inv info base) ts"

lemma replica_base_ok: "replica ts c \<Longrightarrow> below_limit (db c) \<Longrightarrow> base_ok ts c (db c)"
  by (simp add: replica_def base_ok_def conn_ok_def ready_def)

lemma keeps_base_ok: "keeps c c' \<Longrightarrow> base_ok ts c base \<Longrightarrow> base_ok ts c' base"
  by (simp add: base_ok_def keeps_def)

lemma forget_version:
  assumes "ready c" and "dbVersion (ext c') = -1" and "below_limit (db c')" and "faults c' = faults c"
    and "ext c' = (ext c)\<lparr>dbVersion := -1\<rparr>" and "db_schema_version (db c') = db_schema_version (db c)"
    and "db_master (db c') = db_master (db c)" and "clocks_ok (db c')"
  shows "conn_ok c'"
proof -
  have "current_version c' = storage_version (db c')" using assms(2) by (simp add: current_version_def version_cached_def)
  moreover have "ready c'"
    using assms by (simp add: ready_def stmts_live_def version_stmt_ok_def clock_tables_select_def cong: option.case_cong)
  ultimately show ?thesis using assms(3) by (simp add: conn_ok_def below_limit_def)
qed

lemma rollback_replica:
  assumes "replica ts c" and "base_ok ts c base"
  shows "replica ts (end_tx (rollbackHook (c\<lparr>db := base\<rparr>)))"
proof -
  let ?c = "end_tx (rollbackHook (c\<lparr>db := base\<rparr>))"
  have "conn_ok ?c"
    using assms by (intro forget_version [of c]) (simp_all add: rollbackHook_def base_ok_def replica_def conn_ok_def)
  moreover have "infos_inv ?c"
    using assms by (auto simp: infos_inv_def rollbackHook_def base_ok_def replica_def split: ptr.splits)
  ultimately show ?thesis using assms by (simp add: replica_def base_ok_def rollbackHook_def)
qed

lemma commit_replica:
  assumes "replica ts c" and "below_limit (db c)"
  shows "replica ts (snd (commit_tx c))"
proof -
  have "snd (commit_tx c) = end_tx (rollbackHook (c\<lparr>db := db c\<rparr>))"
    by (simp add: commit_tx_def commitHook_def rollbackHook_def)
  then show ?thesis using rollback_replica [OF assms(1) replica_base_ok [OF assms]] by simp
qed

lemma tx_fields_replica [simp]:
  "replica ts (c\<lparr>tx := t, saves := ss, implicit_tx := i\<rparr>) = replica ts c"
  by (simp add: replica_def conn_ok_def ready_def stmts_live_def version_stmt_ok_def current_version_def
      version_cached_def infos_inv_def cong: option.case_cong ptr.case_cong)

section \<open>Storing the peers\<close>

lemma base_info_peers: "base_info (db_peers_update f d) = base_info d"
  by (simp add: base_info_def Let_def fun_eq_iff pragma_table_info_def)

lemma peers_only:
  "schema_inv info (db_peers_update f d) = schema_inv info d"
  "data_inv info (db_peers_update f d) = data_inv info d"
  "current_infos (db_peers_update f d) = current_infos d" "cols_ok (db_peers_update f d) = cols_ok d"
  "clocks_ok (db_peers_update f d) = clocks_ok d" "storage_version (db_peers_update f d) = storage_version d"
  "clock_tables_select (db_peers_update f d) = clock_tables_select d"
  by (simp_all add: schema_inv_def trig_ok_def data_inv_def user_rows_def clock_rows_def current_infos_def
      cols_ok_def clocks_ok_def names_short_def storage_version_def all_versions_def clock_tables_select_def
      base_info_peers pragma_table_info_def cong: option.case_cong)

lemma replica_peers [simp]: "replica ts (upd_db (db_peers_update f) c) = replica ts c"
  by (simp add: replica_def conn_ok_def ready_def stmts_live_def version_stmt_ok_def current_version_def
      version_cached_def infos_inv_def peers_only cong: option.case_cong ptr.case_cong)

lemma write_peers_only:
  "faults c = [] \<Longrightarrow> \<exists>rc ps'. write_peers ps c = (rc, upd_db (db_peers_update (\<lambda>_. ps')) c)"
proof (induction ps arbitrary: c)
  case Nil
  have "c = upd_db (db_peers_update (\<lambda>_. db_peers (db c))) c" by (simp add: upd_db_def)
  then show ?case by (metis write_peers.simps(1))
next
  case (Cons p ps)
  have same: "\<exists>ps'. c = upd_db (db_peers_update (\<lambda>_. ps')) c"
    by (rule exI [of _ "db_peers (db c)"]) (simp add: upd_db_def)
  let ?new = "\<lparr>pr_site = sp_siteId p, pr_vrsn = sp_clock p, pr_tag = 0, pr_event = 0\<rparr>"
  let ?c = "upd_db (db_peers_update (peer_upsert ?new)) c"
  obtain rc ps' where "write_peers ps ?c = (rc, upd_db (db_peers_update (\<lambda>_. ps')) ?c)"
    using Cons.IH [of ?c] Cons.prems by auto
  then have "write_peers ps ?c = (rc, upd_db (db_peers_update (\<lambda>_. ps')) c)"
    by (simp add: upd_db_def comp_def)
  then show ?case
    using Cons.prems same by (auto simp: bind_four_def track_peer_def Let_def)
qed

lemma insert_commit_only:
  assumes "faults c = []"
  shows "\<exists>rc ps'. changesInsertCommit v c =
    (rc, v\<lparr>pSeenPeers := crsql_resetSeenPeers (pSeenPeers v)\<rparr>, upd_db (db_peers_update (\<lambda>_. ps')) c)"
proof -
  have "crsql_writeTrackedPeers (pSeenPeers v) c = write_peers (peers (pSeenPeers v)) c"
    by (cases "peers (pSeenPeers v)") (simp_all add: crsql_writeTrackedPeers_def)
  with write_peers_only [OF assms, of "peers (pSeenPeers v)"] show ?thesis
    by (auto simp: changesInsertCommit_def)
qed

section \<open>Sound sessions\<close>

definition op_ok :: "table_info list \<Rightarrow> sess_op \<Rightarrow> bool" where
  "op_ok ts op \<longleftrightarrow> (case op of Insert_op m \<Rightarrow> msg_ok ts m | _ \<Rightarrow> True)"

definition sess_inv :: "table_info list \<Rightarrow> session \<Rightarrow> bool" where
  "sess_inv ts s \<longleftrightarrow> replica ts (ss_conn s) \<and> peers_inv (pSeenPeers (ss_vtab s)) \<and>
     below_limit (db (ss_conn s)) \<and>
     (case tx (ss_conn s) of None \<Rightarrow> True | Some base \<Rightarrow> base_ok ts (ss_conn s) base)"

lemma replica_faults: "replica ts c \<Longrightarrow> faults c = []"
  by (simp add: replica_def conn_ok_def ready_def)

lemma begin_inv: "sess_inv ts s \<Longrightarrow> sess_inv ts (s\<lparr>ss_conn := snd (sql_begin (ss_conn s))\<rparr>)"
  using replica_base_ok [of ts "ss_conn s"]
  by (auto simp: sess_inv_def sql_begin_def base_ok_def)

text \<open>Inserting a canonical change into the table.\<close>

lemma insert_change_ok:
  assumes "replica ts (ss_conn s)" and "peers_inv (pSeenPeers (ss_vtab s))" and "msg_ok ts m"
  shows "\<exists>s'. insert_change E (columns_of m) s = Some (SQLITE_OK, s') \<and> replica ts (ss_conn s') \<and>
    keeps (ss_conn s) (ss_conn s') \<and> peers_inv (pSeenPeers (ss_vtab s')) \<and> ss_joined s' \<and>
    seen (pSeenPeers (ss_vtab s')) = see m (seen (pSeenPeers (ss_vtab s))) \<and>
    abs_of ts (db (ss_conn s')) = apply_msg m (abs_of ts (db (ss_conn s))) \<and>
    (site_ok (ms_site m) \<longrightarrow> dflts_all ts (db (ss_conn s)) \<longrightarrow> dflts_all ts (db (ss_conn s')) \<and>
      (open_tables ts (db (ss_conn s)) \<longrightarrow> open_tables ts (db (ss_conn s'))))"
proof -
  obtain r where r: "crsql_mergeInsert E True (encode m) (pSeenPeers (ss_vtab s)) (ss_conn s) = Some r"
    "mr_rc r = SQLITE_OK" "replica ts (mr_conn r)" "keeps (ss_conn s) (mr_conn r)"
    "abs_of ts (db (mr_conn r)) = apply_msg m (abs_of ts (db (ss_conn s)))"
    "peers_inv (mr_peers r)" "seen (mr_peers r) = see m (seen (pSeenPeers (ss_vtab s)))"
    "site_ok (ms_site m) \<longrightarrow> dflts_all ts (db (ss_conn s)) \<longrightarrow> dflts_all ts (db (mr_conn r)) \<and>
      (open_tables ts (db (ss_conn s)) \<longrightarrow> open_tables ts (db (mr_conn r)))"
    using mergeInsert_canonical [OF assms(1,3,2), of E] by (auto simp: merge_ok_def split: option.splits)
  then show ?thesis
    by (simp add: insert_change_def changesApply_def mergeInsert_received)
qed

lemma vtab_commit_conn:
  assumes "faults (ss_conn s) = []"
  shows "\<exists>ps'. ss_conn (vtab_commit s) = upd_db (db_peers_update (\<lambda>_. ps')) (ss_conn s)"
proof (cases "ss_joined s")
  case True
  then show ?thesis using insert_commit_only [OF assms, of "ss_vtab s"] by (auto simp: vtab_commit_def)
next
  case False
  then show ?thesis
    by (intro exI [of _ "db_peers (db (ss_conn s))"]) (simp add: vtab_commit_def upd_db_def)
qed

lemma vtab_commit_peers: "peers_inv (pSeenPeers (ss_vtab s)) \<Longrightarrow> peers_inv (pSeenPeers (ss_vtab (vtab_commit s)))"
  by (auto simp: vtab_commit_def changesInsertCommit_def peers_inv_def crsql_resetSeenPeers_def split: prod.split)

lemma commit_inv:
  assumes "sess_inv ts s" and "sess_commit s = (rc, s')"
  shows "sess_inv ts s'"
proof (cases "tx (ss_conn s)")
  case None
  then show ?thesis using assms by (simp add: sess_commit_def sql_commit_def)
next
  case (Some base)
  let ?s = "s\<lparr>ss_conn := snd (commit_tx (ss_conn s))\<rparr>"
  have s': "s' = vtab_commit ?s" using assms(2) Some by (simp add: sess_commit_def sql_commit_def commit_tx_def commitHook_def)
  have r: "replica ts (ss_conn ?s)" using assms(1) commit_replica by (simp add: sess_inv_def)
  have db: "db (ss_conn ?s) = db (ss_conn s)" "tx (ss_conn ?s) = None"
    by (simp_all add: commit_tx_def commitHook_def)
  obtain ps' where "ss_conn s' = upd_db (db_peers_update (\<lambda>_. ps')) (ss_conn ?s)"
    using vtab_commit_conn [of ?s] replica_faults [OF r] s' by auto
  with r db assms(1) vtab_commit_peers [of ?s] show ?thesis
    by (simp add: sess_inv_def s' [symmetric] below_limit_def peers_only)
qed

text \<open>A session on the concrete database.\<close>

definition new_session :: session where
  "new_session = \<lparr>ss_conn = filled_conn, ss_vtab = new_vtab, ss_joined = False\<rparr>"

lemma new_session_inv: "sess_inv [foo_info] new_session"
proof -
  have "below_limit (db filled_conn)" by code_simp
  moreover have "tx filled_conn = None" by (simp add: filled_conn_def crr_conn_def test_conn_def)
  ultimately show ?thesis
    using replica_filled peers_new_vtab by (simp add: sess_inv_def new_session_def)
qed

section \<open>What a rollback does not undo\<close>

lemma seen_peers: "p \<in> set (peers a) \<Longrightarrow> seen a (sp_siteId p) \<noteq> None"
  by (auto simp: seen_def find_None_iff)

lemma write_seen:
  assumes "faults c = []" and "pTrackPeersStmt (ext c)" and "peers_inv a" and "seen a [] = None"
  shows "\<exists>ps'. crsql_writeTrackedPeers a c = (SQLITE_OK, upd_db (db_peers_update (\<lambda>_. ps')) c) \<and>
    (\<forall>s. tracked (db_peers_update (\<lambda>_. ps') (db c)) s = max_opt (tracked (db c) s) (seen a s))"
proof -
  have "crsql_writeTrackedPeers a c = write_peers (peers a) c"
    by (cases "peers a") (simp_all add: crsql_writeTrackedPeers_def)
  moreover have "list_all (\<lambda>p. sp_siteId p \<noteq> []) (peers a)"
    unfolding list_all_iff using seen_peers [of _ a] assms(4) by metis
  moreover have "distinct (map sp_siteId (peers a))" using assms(3) by (simp add: peers_inv_def)
  ultimately show ?thesis
    using write_peers_result [OF assms(1,2), of "peers a"] by (simp add: tracked_def seen_def)
qed

text \<open>C33. The peers seen by changes whose transaction is rolled back are not forgotten: the next
  transaction that inserts a change stores them, so the database says it has all changes of that
  peer up to the version of a change that it does not hold.\<close>

theorem peers_outlive_rollback:
  assumes "sess_inv ts s" and "tx (ss_conn s) = None" and "peers (pSeenPeers (ss_vtab s)) = []"
    and "pTrackPeersStmt (ext (ss_conn s))"
    and "msg_ok ts m" and "msg_ok ts m2" and "ms_site m \<noteq> []" and "ms_site m2 \<noteq> []"
  shows "\<exists>s1 s2 s3 s4. sess_step E Begin_op s = Some (SQLITE_OK, s1) \<and>
    sess_step E (Insert_op m) s1 = Some (SQLITE_OK, s2) \<and>
    sess_step E Rollback_op s2 = Some (SQLITE_OK, s3) \<and>
    sess_step E (Insert_op m2) s3 = Some (SQLITE_OK, s4) \<and>
    db (ss_conn s3) = db (ss_conn s) \<and>
    abs_of ts (db (ss_conn s4)) = apply_msg m2 (abs_of ts (db (ss_conn s))) \<and>
    (\<exists>v. tracked (db (ss_conn s4)) (ms_site m) = Some v \<and> v \<ge> ms_dbv m)"
proof -
  let ?s1 = "s\<lparr>ss_conn := snd (sql_begin (ss_conn s))\<rparr>"
  have s1: "sess_step E Begin_op s = Some (SQLITE_OK, ?s1)" "sess_inv ts ?s1" "tx (ss_conn ?s1) = Some (db (ss_conn s))"
    "db (ss_conn ?s1) = db (ss_conn s)" "ext (ss_conn ?s1) = ext (ss_conn s)"
    using assms(1,2) begin_inv [OF assms(1)] by (simp_all add: sql_begin_def)
  obtain s2 where s2: "insert_change E (columns_of m) ?s1 = Some (SQLITE_OK, s2)" "replica ts (ss_conn s2)"
    "keeps (ss_conn ?s1) (ss_conn s2)" "peers_inv (pSeenPeers (ss_vtab s2))"
    "seen (pSeenPeers (ss_vtab s2)) = see m (seen (pSeenPeers (ss_vtab s)))"
    using insert_change_ok [of ts ?s1 m E] s1(2) assms(5) by (auto simp: sess_inv_def)
  let ?s3 = "s2\<lparr>ss_conn := end_tx (rollbackHook ((ss_conn s2)\<lparr>db := db (ss_conn s)\<rparr>)), ss_joined := False\<rparr>"
  have tx2: "tx (ss_conn s2) = Some (db (ss_conn s))" using s2(3) s1(3) by (simp add: keeps_def)
  have base: "base_ok ts (ss_conn s2) (db (ss_conn s))"
    using keeps_base_ok [OF s2(3)] s1(2,3) by (simp add: sess_inv_def)
  have s3: "sess_step E Rollback_op s2 = Some (SQLITE_OK, ?s3)"
    using tx2 by (simp add: sess_rollback_def sql_rollback_def)
  have r3: "replica ts (ss_conn ?s3)" using rollback_replica [OF s2(2) base] by simp
  let ?b = "?s3\<lparr>ss_conn := snd (sql_begin (ss_conn ?s3))\<rparr>"
  have b: "replica ts (ss_conn ?b)" "db (ss_conn ?b) = db (ss_conn s)" "tx (ss_conn ?b) \<noteq> None"
    "pTrackPeersStmt (ext (ss_conn ?b))"
    using r3 s2(3) assms(4) s1(5) by (simp_all add: sql_begin_def keeps_def rollbackHook_def)
  obtain s4 where s4: "insert_change E (columns_of m2) ?b = Some (SQLITE_OK, s4)" "replica ts (ss_conn s4)"
    "keeps (ss_conn ?b) (ss_conn s4)" "peers_inv (pSeenPeers (ss_vtab s4))" "ss_joined s4"
    "seen (pSeenPeers (ss_vtab s4)) = see m2 (seen (pSeenPeers (ss_vtab s2)))"
    "abs_of ts (db (ss_conn s4)) = apply_msg m2 (abs_of ts (db (ss_conn s)))"
    using insert_change_ok [of ts ?b m2 E] b s2(4) assms(6) by auto
  let ?c = "s4\<lparr>ss_conn := snd (commit_tx (ss_conn s4))\<rparr>"
  have c: "faults (ss_conn ?c) = []" "db (ss_conn ?c) = db (ss_conn s4)" "pTrackPeersStmt (ext (ss_conn ?c))"
    using replica_faults [OF s4(2)] s4(3) b(4) by (simp_all add: commit_tx_def commitHook_def keeps_def)
  have empty: "seen (pSeenPeers (ss_vtab s)) = (\<lambda>_. None)" using assms(3) by (simp add: seen_def fun_eq_iff)
  have seen4: "seen (pSeenPeers (ss_vtab s4)) = see m2 (see m (\<lambda>_. None))" using s4(6) s2(5) empty by simp
  then have "seen (pSeenPeers (ss_vtab s4)) [] = None" using assms(7,8) by simp
  then obtain ps' where w: "crsql_writeTrackedPeers (pSeenPeers (ss_vtab s4)) (ss_conn ?c) =
      (SQLITE_OK, upd_db (db_peers_update (\<lambda>_. ps')) (ss_conn ?c))"
    "\<And>x. tracked (db_peers_update (\<lambda>_. ps') (db (ss_conn s4))) x =
      max_opt (tracked (db (ss_conn s4)) x) (seen (pSeenPeers (ss_vtab s4)) x)"
    using write_seen [OF c(1,3) s4(4)] c(2) by auto
  let ?s5 = "vtab_commit ?c"
  have "tx (ss_conn s4) \<noteq> None" using s4(3) b(3) by (simp add: keeps_def)
  then have "sess_commit s4 = (SQLITE_OK, ?s5)"
    by (auto simp: sess_commit_def sql_commit_def commit_tx_def commitHook_def)
  moreover have "tx (ss_conn ?s3) = None" by simp
  ultimately have s5: "sess_step E (Insert_op m2) ?s3 = Some (SQLITE_OK, ?s5)"
    using s4(1) by (simp add: autocommit_def)
  have db5: "db (ss_conn ?s5) = db_peers_update (\<lambda>_. ps') (db (ss_conn s4))"
    using w(1) s4(5) c(2) by (simp add: vtab_commit_def changesInsertCommit_def)
  have "abs_of ts (db (ss_conn ?s5)) = apply_msg m2 (abs_of ts (db (ss_conn s)))" using s4(7) db5 by simp
  moreover have "\<exists>v. tracked (db (ss_conn ?s5)) (ms_site m) = Some v \<and> v \<ge> ms_dbv m"
    unfolding db5 w(2) seen4 by (auto simp: max_opt_def split: option.split)
  moreover have "db (ss_conn ?s3) = db (ss_conn s)" by (simp add: rollbackHook_def)
  moreover have "sess_step E (Insert_op m) ?s1 = Some (SQLITE_OK, s2)"
    using s2(1) s1(3) by (simp add: autocommit_def)
  ultimately show ?thesis using s1(1) s3 s5 by blast
qed

theorem peers_outlive_rollback_witness:
  "\<exists>s1 s2 s3 s4. sess_step no_env Begin_op new_session = Some (SQLITE_OK, s1) \<and>
    sess_step no_env (Insert_op (msg_b ''y'' 2)) s1 = Some (SQLITE_OK, s2) \<and>
    sess_step no_env Rollback_op s2 = Some (SQLITE_OK, s3) \<and>
    sess_step no_env (Insert_op (msg_del\<lparr>ms_site := [2]\<rparr>)) s3 = Some (SQLITE_OK, s4) \<and>
    db (ss_conn s3) = db filled_conn \<and> (\<exists>v. tracked (db (ss_conn s4)) [1] = Some v \<and> v \<ge> 9)"
proof -
  have "tx (ss_conn new_session) = None" "peers (pSeenPeers (ss_vtab new_session)) = []"
    "pTrackPeersStmt (ext (ss_conn new_session))"
    by (simp_all add: new_session_def filled_conn_def crr_conn_def test_conn_def new_vtab_def
        crsql_newSeenPeers_def fresh_ext_def)
  moreover have "msg_ok [foo_info] (msg_del\<lparr>ms_site := [2]\<rparr>)" by code_simp
  ultimately show ?thesis
    using peers_outlive_rollback [OF new_session_inv, of "msg_b ''y'' 2" "msg_del\<lparr>ms_site := [2]\<rparr>" no_env] msgs_ok(1)
    by (auto simp: msg_b_def new_session_def)
qed

text \<open>C34. The table descriptions read inside a transaction outlive its rollback: the schema version goes
  back, a later change of the schema brings it to a version the cache has already seen, and the
  update then keeps the old descriptions whatever the schema is now.\<close>

theorem stale_infos_after_rollback:
  assumes "faults c = []" and "stmts_live c" and "tx c = Some base"
    and "zpTableInfos (ext c) = Live ts" and "tableInfosLen (ext c) = length ts" and "ts \<noteq> []"
    and "db_schema_version d \<le> pragmaSchemaVersionForTableInfos (ext c)"
  shows "\<exists>c'. crsql_ensureTableInfosAreUpToDate ((snd (sql_rollback c))\<lparr>db := d\<rparr>) = Some (SQLITE_OK, None, c') \<and>
    zpTableInfos (ext c') = Live ts \<and> db c' = d"
proof -
  let ?c = "(snd (sql_rollback c))\<lparr>db := d\<rparr>"
  have "ext ?c = (ext c)\<lparr>dbVersion := -1\<rparr>" "faults ?c = []" "db ?c = d"
    using assms(1,3) by (simp_all add: sql_rollback_def rollbackHook_def)
  then show ?thesis
    using assms(2,4-7) fetch_schema_infos [of ?c]
    by (simp add: crsql_ensureTableInfosAreUpToDate_def stmts_live_def Let_def)
qed

theorem stale_infos_after_rollback_witness:
  "let c = filled_conn\<lparr>tx := Some (db filled_conn), ext := (ext filled_conn)\<lparr>zpTableInfos := Live [test_foo, test_bar],
       tableInfosLen := 2, pragmaSchemaVersionForTableInfos := 6\<rparr>\<rparr>;
     d = (db filled_conn)\<lparr>db_schema_version := 6\<rparr> in
   current_infos d = Some [foo_info] \<and>
   (\<exists>c'. crsql_ensureTableInfosAreUpToDate ((snd (sql_rollback c))\<lparr>db := d\<rparr>) = Some (SQLITE_OK, None, c') \<and>
     zpTableInfos (ext c') = Live [test_foo, test_bar])"
proof -
  define c where "c = filled_conn\<lparr>tx := Some (db filled_conn), ext := (ext filled_conn)\<lparr>zpTableInfos := Live [test_foo, test_bar],
       tableInfosLen := 2, pragmaSchemaVersionForTableInfos := 6\<rparr>\<rparr>"
  define d where "d = (db filled_conn)\<lparr>db_schema_version := 6\<rparr>"
  have "faults c = []" "stmts_live c" "tx c = Some (db filled_conn)"
    "zpTableInfos (ext c) = Live [test_foo, test_bar]" "tableInfosLen (ext c) = length [test_foo, test_bar]"
    "db_schema_version d \<le> pragmaSchemaVersionForTableInfos (ext c)"
    by (simp_all add: c_def d_def filled_conn_def crr_conn_def test_conn_def stmts_live_def fresh_ext_def)
  from stale_infos_after_rollback [OF this(1-5) _ this(6)]
  have "\<exists>c'. crsql_ensureTableInfosAreUpToDate ((snd (sql_rollback c))\<lparr>db := d\<rparr>) = Some (SQLITE_OK, None, c') \<and>
     zpTableInfos (ext c') = Live [test_foo, test_bar]" by auto
  moreover have "current_infos d = Some [foo_info]" unfolding d_def by code_simp
  ultimately show ?thesis by (simp add: c_def d_def Let_def)
qed

section \<open>Running out of versions\<close>

lemma fold_max_ge: "x \<in> set (v # vs) \<Longrightarrow> x \<le> fold max vs (v :: int)"
  unfolding Max.set_eq_fold [symmetric] by (rule Max_ge) simp_all

lemma storage_version_ge:
  assumes "n \<in> set (clock_tables_select d)" and "db_clock d n = Some t" and "k \<in> set (ct_rows t)"
  shows "ck_dbv k \<le> storage_version d"
proof -
  have "ck_dbv k \<in> set (all_versions d)" using assms by (force simp: all_versions_def)
  then show ?thesis using fold_max_ge by (cases "all_versions d") (auto simp: storage_version_def)
qed



end
