(* ===== verification/Crsqlite_Ext.thy ===== *)
theory Crsqlite_Ext imports Transactions begin

text \<open>
  The entry point of the extension and its SQL functions (\<^verbatim>\<open>core/src/crsqlite.c\<close>,
  \<^verbatim>\<open>core/src/core_init.c\<close>): the id of the site, the tables the extension keeps, making a table
  replicated, altering one, and what loading the extension registers.

  A statement run inside a function may itself be the outermost transaction. The message of an
  error is the text the code makes, or SQLite's own for the failing statement.
\<close>

datatype message = NoText | OwnText string | SqliteText int

definition own_text :: "string option \<Rightarrow> message" where
  "own_text m = (case m of None \<Rightarrow> NoText | Some s \<Rightarrow> OwnText s)"

abbreviation (input) TBL_SITE_ID :: string where "TBL_SITE_ID \<equiv> ''__crsql_siteid''"
abbreviation (input) TBL_SCHEMA :: string where "TBL_SCHEMA \<equiv> ''__crsql_master''"
abbreviation (input) TBL_SCHEMA_PROPS :: string where "TBL_SCHEMA_PROPS \<equiv> ''__crsql_master_prop''"

section \<open>The id of the site\<close>

text \<open>Sixteen random bytes with the version and variant bits of a UUID.\<close>

definition uuid :: "blob \<Rightarrow> blob" where
  "uuid rnd = (let blob = rnd[6 := and (rnd ! 6) 0x0f + 0x40] in blob[8 := and (blob ! 8) 0x3f + 0x80])"

definition create_table :: "string \<Rightarrow> (database \<Rightarrow> database) \<Rightarrow> command" where
  "create_table name f c =
     (if name \<in> set (db_master (db c)) \<or> name \<in> set (db_indexes (db c)) then (SQLITE_ERROR, c)
      else (SQLITE_OK, upd_db (\<lambda>d. bump_schema (f (d\<lparr>db_master := db_master d @ [name]\<rparr>))) c))"

definition create_table_if :: "string \<Rightarrow> (database \<Rightarrow> database) \<Rightarrow> command" where
  "create_table_if name f c =
     (if name \<in> set (db_master (db c)) then (SQLITE_OK, c) else create_table name f c)"

definition create_index_if :: "string \<Rightarrow> string \<Rightarrow> command" where
  "create_index_if name tbl c =
     (if tbl \<notin> set (db_master (db c)) \<or> name \<in> set (db_master (db c)) then (SQLITE_ERROR, c)
      else if name \<in> set (db_indexes (db c)) then (SQLITE_OK, c)
      else (SQLITE_OK, upd_db (\<lambda>d. bump_schema (d\<lparr>db_indexes := db_indexes d @ [name]\<rparr>)) c))"

definition set_siteId :: "blob \<Rightarrow> conn \<Rightarrow> conn" where
  "set_siteId b = upd_ext (\<lambda>x. x\<lparr>siteId := b\<rparr>)"

definition createSiteIdAndSiteIdTable :: "blob \<Rightarrow> conn \<Rightarrow> int \<times> conn" where
  "createSiteIdAndSiteIdTable rnd c =
     (let (rc, c) = exec_text (''CREATE TABLE '' @ dq TBL_SITE_ID @ '' (site_id)'')
            (create_table TBL_SITE_ID (\<lambda>d. d\<lparr>db_site_ids := []\<rparr>)) c in
      if rc \<noteq> SQLITE_OK then (rc, c)
      else let (rc, c) = sql_call c in
      if rc \<noteq> SQLITE_OK then (rc, c)
      else let c = set_siteId (uuid rnd) c; (rc, c) = sql_call c in
      if rc \<noteq> SQLITE_OK then (rc, c)
      else let (rc, c) = sql_call c in
      if rc \<noteq> SQLITE_OK then (rc, c)
      else (SQLITE_OK, upd_db (\<lambda>d. d\<lparr>db_site_ids := db_site_ids d @ [VBlob (siteId (ext c))]\<rparr>) c))"

definition initPeerTrackingTable :: command where
  "initPeerTrackingTable = exec_text
     (''CREATE TABLE IF NOT EXISTS crsql_tracked_peers ('' @ dq ''site_id'' @ '' '' @
      ''BLOB NOT NULL, '' @ dq ''version'' @ '' INTEGER NOT NULL, '' @ dq ''seq'' @ '' INTEGER DEFAULT 0, '' @
      dq ''tag'' @ '' INTEGER, '' @ dq ''event'' @ '' '' @ ''INTEGER, PRIMARY '' @
      ''KEY ('' @ dq ''site_id'' @ '', '' @ dq ''tag'' @ '', '' @ dq ''event'' @ '')) STRICT;'')
     (create_table_if ''crsql_tracked_peers'' (\<lambda>d. d\<lparr>db_peers := []\<rparr>))"

text \<open>Copying sixteen bytes from NULL or from a shorter value is undefined.\<close>

definition initSiteId :: "sql_env \<Rightarrow> blob \<Rightarrow> conn \<Rightarrow> (int \<times> conn) option" where
  "initSiteId E rnd c =
     (let (tableExists, c) = crsql_doesTableExist TBL_SITE_ID c in
      if tableExists = 0 then Some (createSiteIdAndSiteIdTable rnd c)
      else let (f, c) = sql_call c;
               rc = (if f \<noteq> 0 then f else if TBL_SITE_ID \<notin> set (db_master (db c)) then SQLITE_ERROR
                     else SQLITE_OK) in
      if rc \<noteq> SQLITE_OK then Some (rc, c)
      else let (f, c) = sql_call c in
      if f \<noteq> 0 then Some (f, c)
      else case db_site_ids (db c) of
        [] \<Rightarrow> Some (SQLITE_DONE, c)
      | v # vs \<Rightarrow>
          if length (value_blob E v) < SITE_ID_LEN then None
          else Some (SQLITE_OK, set_siteId (take SITE_ID_LEN (value_blob E v)) c))"

text \<open>The result of the outer \<^verbatim>\<open>ROLLBACK\<close> and \<^verbatim>\<open>RELEASE\<close> is not looked at.\<close>

definition rollback_all :: "conn \<Rightarrow> conn" where
  "rollback_all c = snd (run_exec sql_rollback c)"

definition createSchemaTableIfNotExists :: "conn \<Rightarrow> int \<times> conn" where
  "createSchemaTableIfNotExists c =
     (let (rc, c) = run_exec (sql_savepoint ''crsql_create_schema_table'') c in
      if rc \<noteq> SQLITE_OK then (rc, c)
      else let (rc, c) = exec_text
            (''CREATE TABLE IF NOT EXISTS '' @ dq TBL_SCHEMA @ '' (id INTEGER PRIMARY KEY '' @
             ''AUTOINCREMENT, type TEXT NOT NULL, name TEXT NOT '' @ ''NULL, augments TEXT NOT NULL) STRICT;'')
            (create_table_if TBL_SCHEMA id) c in
      if rc \<noteq> SQLITE_OK then (rc, rollback_all c)
      else let (rc, c) = exec_text
            (''CREATE UNIQUE INDEX IF NOT EXISTS __crsql_master_index ON '' @ dq TBL_SCHEMA @ '' (type, name);'')
            (create_index_if ''__crsql_master_index'' TBL_SCHEMA) c in
      if rc \<noteq> SQLITE_OK then (rc, rollback_all c)
      else let (rc, c) = exec_text
            (''CREATE TABLE IF NOT EXISTS '' @ dq TBL_SCHEMA_PROPS @ '' (master_id INTEGER NOT NULL, key '' @
             ''TEXT NOT NULL, ord INTEGER DEFAULT 0, value ANY) STRICT;'')
            (create_table_if TBL_SCHEMA_PROPS id) c in
      if rc \<noteq> SQLITE_OK then (rc, rollback_all c)
      else let (rc, c) = exec_text
            (''CREATE UNIQUE INDEX IF NOT EXISTS __crsql_master_prop_id_index '' @ ''ON '' @
             dq TBL_SCHEMA_PROPS @ '' (master_id, key, ord);'')
            (create_index_if ''__crsql_master_prop_id_index'' TBL_SCHEMA_PROPS) c in
      if rc \<noteq> SQLITE_OK then (rc, rollback_all c)
      else let (ignored_rc, c) = run_exec (sql_release ''crsql_create_schema_table'') c in (rc, c))"

section \<open>Making a table replicated\<close>

text \<open>The columns of a clock table: the key and four of its own.\<close>

definition clock_columns :: "table_info \<Rightarrow> string list" where
  "clock_columns info = map ci_name (ti_pks info) @
     [''__crsql_col_name'', ''__crsql_col_version'', ''__crsql_db_version'', ''__crsql_site_id'']"

definition create_clock :: "table_info \<Rightarrow> command" where
  "create_clock info c =
     (let name = clock_name (ti_tblName info) in
      if ti_pks info = [] then (SQLITE_ERROR, c)
      else if name \<in> set (db_master (db c)) then (SQLITE_OK, c)
      else if \<not> distinct (map (map fold_case) (clock_columns info)) then (SQLITE_ERROR, c)
      else create_table name (\<lambda>d. d\<lparr>db_clock := (db_clock d)(name \<mapsto>
        \<lparr>ct_pks = map ci_name (ti_pks info), ct_rows = []\<rparr>)\<rparr>) c)"

definition crsql_createClockTable :: "table_info \<Rightarrow> conn \<Rightarrow> int \<times> conn" where
  "crsql_createClockTable tableInfo c =
     (let tbl = ti_tblName tableInfo; pkList = fmt_s (identifier_list (ti_pks tableInfo) None);
          (rc, c) = exec_text
            (''CREATE TABLE IF NOT EXISTS '' @ dq (tbl @ ''__crsql_clock'') @ '' (      '' @ pkList @
             '',      '' @ dq ''__crsql_col_name'' @ '' NOT NULL,      '' @ dq ''__crsql_col_version'' @
             '' NOT NULL,      '' @ dq ''__crsql_db_version'' @ '' NOT NULL,      '' @
             dq ''__crsql_site_id'' @ '',      PRIMARY KEY ('' @ pkList @ '', '' @
             dq ''__crsql_col_name'' @ '')    )'')
            (create_clock tableInfo) c in
      if rc \<noteq> SQLITE_OK then (rc, c)
      else let (ignored_rc, c) = exec_text
            (''CREATE INDEX IF NOT EXISTS '' @ dq (tbl @ ''__crsql_clock_dbv_idx'') @ '' ON '' @
             dq (tbl @ ''__crsql_clock'') @ '' ('' @ dq ''__crsql_db_version'' @ '')'')
            (create_index_if (tbl @ ''__crsql_clock_dbv_idx'') (clock_name tbl)) c in
      (rc, c))"

definition createCrr :: "string option \<Rightarrow> conn \<Rightarrow> (int \<times> message \<times> conn) option" where
  "createCrr tblName c =
     (let tblName = fmt_s tblName in
      case crsql_isTableCompatible tblName c of
        (Inl err, c) \<Rightarrow> Some (SQLITE_ERROR, own_text err, c)
      | (Inr ok, c) \<Rightarrow> do {
          (rc, tableInfo, err, c) \<leftarrow> crsql_getTableInfo tblName c;
          case tableInfo of
            None \<Rightarrow> Some (rc, own_text err, c)
          | Some tableInfo \<Rightarrow>
              let (rc, c) = crsql_createClockTable tableInfo c;
                  (rc, c) =
                    (if rc = SQLITE_OK
                     then let (rc, c) = crsql_removeCrrTriggersIfExist (ti_tblName tableInfo) c in
                       if rc = SQLITE_OK then crsql_createCrrTriggers tableInfo c else (rc, c)
                     else (rc, c)) in
              Some (rc, if rc = SQLITE_OK then NoText else SqliteText rc, c)
        })"

text \<open>The arguments: a table, or a schema, which is ignored, and a table. \<open>None\<close>: the number is 0.\<close>

definition table_arg :: "string option list \<Rightarrow> string option option" where
  "table_arg args = (case args of [] \<Rightarrow> None | [schemaName, tblName] \<Rightarrow> Some tblName | a # rest \<Rightarrow> Some a)"

text \<open>The result of a function: \<open>None\<close>, or the message of an error.\<close>

type_synonym fn_result = "(message option \<times> conn) option"

definition crsqlMakeCrrFunc :: "string option list \<Rightarrow> conn \<Rightarrow> fn_result" where
  "crsqlMakeCrrFunc args c =
     (case table_arg args of
        None \<Rightarrow> Some (Some (OwnText (''Wrong number of args provided to crsql_as_crr. Provide the schema '' @
          ''name and table name or just the table name.'')), c)
      | Some tblName \<Rightarrow>
          let (rc, c) = run_exec (sql_savepoint ''as_crr'') c in
          if rc \<noteq> SQLITE_OK then Some (Some (SqliteText rc), c)
          else do {
            (rc, errmsg, c) \<leftarrow> createCrr tblName c;
            if rc \<noteq> SQLITE_OK then Some (Some errmsg, rollback_all c)
            else let (ignored_rc, c) = run_exec (sql_release ''as_crr'') c in Some (None, c)
          })"

section \<open>Altering a replicated table\<close>

definition crsqlBeginAlterFunc :: "string option list \<Rightarrow> conn \<Rightarrow> message option \<times> conn" where
  "crsqlBeginAlterFunc args c =
     (case table_arg args of
        None \<Rightarrow> (Some (OwnText (''Wrong number of args provided to crsql_as_crr. Provide the schema '' @
          ''name and table name or just the table name.'')), c)
      | Some tblName \<Rightarrow>
          let (rc, c) = run_exec (sql_savepoint ''alter_crr'') c in
          if rc \<noteq> SQLITE_OK then (Some (SqliteText rc), c)
          else let (rc, c) = crsql_removeCrrTriggersIfExist (fmt_s tblName) c in
          if rc \<noteq> SQLITE_OK then (Some (SqliteText rc), rollback_all c)
          else (None, c))"

text \<open>The columns are asked for by the quoted name, the clock table is named by its text; they differ
  for NULL.\<close>

definition delete_unknown :: "string \<Rightarrow> string option \<Rightarrow> command" where
  "delete_unknown tbl arg c =
     (let cols = (case arg of None \<Rightarrow> [] | Some t \<Rightarrow> pragma_table_info (db c) t) in
      case db_clock (db c) (clock_name tbl) of
        None \<Rightarrow> (SQLITE_ERROR, c)
      | Some t \<Rightarrow> (SQLITE_OK, upd_db (upd_clock (clock_name tbl)
          (filter (\<lambda>k. ck_col k \<in> ci_name ` set cols))) c))"

definition crsql_compactPostAlter :: "string option \<Rightarrow> command" where
  "crsql_compactPostAlter tblName = exec_text
     (''DELETE FROM '' @ dq (sqlite_escape EscW tblName @ ''__crsql_clock'') @ '' WHERE '' @ dq ''__crsql_col_name'' @
      '' NOT IN '' @ ''(SELECT name FROM pragma_table_info('' @ sqlite_escape EscQ tblName @ ''))'')
     (delete_unknown (case tblName of None \<Rightarrow> ''(NULL)'' | Some t \<Rightarrow> t) tblName)"

definition crsqlCommitAlterFunc :: "string option list \<Rightarrow> conn \<Rightarrow> fn_result" where
  "crsqlCommitAlterFunc args c =
     (case table_arg args of
        None \<Rightarrow> Some (Some (OwnText (''Wrong number of args provided to crsql_commit_alter. Provide the '' @
          ''schema name and table name or just the table name.'')), c)
      | Some tblName \<Rightarrow> do {
          let (rc, c) = crsql_compactPostAlter tblName c;
          (rc, errmsg, c) \<leftarrow>
            if rc = SQLITE_OK then createCrr tblName c else Some (rc, SqliteText rc, c);
          let (rc, errmsg, c) =
            (if rc = SQLITE_OK
             then let (rc, c) = run_exec (sql_release ''alter_crr'') c in
               (rc, if rc = SQLITE_OK then NoText else SqliteText rc, c)
             else (rc, errmsg, c));
          Some (if rc \<noteq> SQLITE_OK then (Some errmsg, rollback_all c) else (None, c))
        })"

section \<open>Loading the extension\<close>

text \<open>What is registered on the connection; \<open>rg_ext\<close> is the pointer its functions share.\<close>

record registry =
  rg_functions :: "string list"
  rg_modules :: "string list"
  rg_hooks :: bool
  rg_ext :: "unit ptr"

definition add_function :: "string \<Rightarrow> int \<times> registry \<times> conn \<Rightarrow> int \<times> registry \<times> conn" where
  "add_function name = (\<lambda>(rc, rg, c).
     if rc \<noteq> SQLITE_OK then (rc, rg, c)
     else let (rc, c) = sql_call c in
       (rc, if rc = SQLITE_OK then rg\<lparr>rg_functions := name # rg_functions rg\<rparr> else rg, c))"

text \<open>\<^verbatim>\<open>sqlite3_create_function_v2\<close> with the destructor \<^verbatim>\<open>freeConnectionExtData\<close>, which SQLite also calls
  when it cannot register the function.\<close>

definition freeConnectionExtData :: "registry \<Rightarrow> registry" where
  "freeConnectionExtData rg = rg\<lparr>rg_ext := Freed\<rparr>"

definition add_owner :: "string \<Rightarrow> int \<times> registry \<times> conn \<Rightarrow> int \<times> registry \<times> conn" where
  "add_owner name = (\<lambda>(rc, rg, c).
     if rc \<noteq> SQLITE_OK then (rc, rg, c)
     else let (rc, c) = sql_call c in
       (rc, if rc = SQLITE_OK then rg\<lparr>rg_functions := name # rg_functions rg\<rparr>
            else freeConnectionExtData rg, c))"

definition add_module :: "string \<Rightarrow> int \<times> registry \<times> conn \<Rightarrow> int \<times> registry \<times> conn" where
  "add_module name = (\<lambda>(rc, rg, c).
     if rc \<noteq> SQLITE_OK then (rc, rg, c)
     else let (rc, c) = sql_call c in
       (rc, if rc = SQLITE_OK then rg\<lparr>rg_modules := name # rg_modules rg\<rparr> else rg, c))"

text \<open>Parameters: the random bytes, the contents of the allocated memory and the entry point of the
  bundled Rust extensions.\<close>

definition sqlite3_crsqlite_init ::
  "sql_env \<Rightarrow> blob \<Rightarrow> blob \<Rightarrow> command \<Rightarrow> registry \<Rightarrow> conn \<Rightarrow> (int \<times> registry \<times> conn) option" where
  "sqlite3_crsqlite_init E rnd mem_site rust_init rg c =
     (let (rc, c) = initPeerTrackingTable c in
      if rc \<noteq> SQLITE_OK then Some (rc, rg, c)
      else let (live, c) = crsql_newExtData mem_site c in
      if \<not> live then Some (SQLITE_ERROR, rg, c)
      else do {
        (rc1, c) \<leftarrow> initSiteId E rnd c;
        let (rc2, c) = createSchemaTableIfNotExists c;
        let (rc, rg, c) =
          add_function ''crsql_finalize''
          (add_function ''crsql_commit_alter''
          (add_function ''crsql_begin_alter''
          (add_function ''crsql_as_crr''
          (add_function ''crsql_nextdbversion''
          (add_owner ''crsql_dbversion''
          (add_function ''crsql_siteid'' (rc1 + rc2, rg\<lparr>rg_ext := Live ()\<rparr>, c)))))));
        let c = (if rc = SQLITE_OK then c\<lparr>syncBit := 0\<rparr> else c);
        let (rc, rg, c) =
          add_module ''crsql_changes'' (add_function ''crsql_internal_sync_bit'' (rc, rg, c));
        if rc = SQLITE_OK then
          let (rc, c) = rust_init c in Some (rc, rg\<lparr>rg_hooks := True\<rparr>, c)
        else Some (rc, rg, c)
      })"

text \<open>Functions called through the registry: using released data is undefined.\<close>

definition siteIdFunc :: "conn \<Rightarrow> sqlval" where
  "siteIdFunc c = VBlob (take SITE_ID_LEN (siteId (ext c)))"

definition call_siteid :: "registry \<Rightarrow> conn \<Rightarrow> sqlval option" where
  "call_siteid rg c =
     (if ''crsql_siteid'' \<in> set (rg_functions rg) \<and> rg_ext rg = Live () then Some (siteIdFunc c) else None)"

definition crsqlFinalize :: "conn \<Rightarrow> conn" where
  "crsqlFinalize c = crsql_finalize c"

text \<open>\<^verbatim>\<open>core_init\<close>: every connection opened later loads the extension.\<close>

definition core_init :: "int \<Rightarrow> string list \<Rightarrow> int \<times> string list" where
  "core_init rc autos =
     (rc, if rc = SQLITE_OK then List.insert ''sqlite3_crsqlite_init'' autos else autos)"

section \<open>Triggers and clock tables of a table\<close>

definition crr_triggers :: "string \<Rightarrow> string list" where
  "crr_triggers tbl = [itrig tbl, utrig tbl, dtrig tbl]"

lemma crr_triggers_distinct: "itrig t \<noteq> utrig t" "itrig t \<noteq> dtrig t" "utrig t \<noteq> dtrig t"
  by (simp_all add: itrig_def utrig_def dtrig_def)

definition retrigger :: "(string \<times> trig_stmt list) list \<Rightarrow> int \<Rightarrow> conn \<Rightarrow> conn" where
  "retrigger ts n = upd_db (\<lambda>d. d\<lparr>db_trigs := ts, db_schema_version := n\<rparr>)"

lemma retrigger_simps [simp]:
  "faults (retrigger ts n c) = faults c" "same_tx c (retrigger ts n c)" "ext (retrigger ts n c) = ext c"
  "db (retrigger ts n c) = (db c)\<lparr>db_trigs := ts, db_schema_version := n\<rparr>"
  "retrigger ts n (retrigger us m c) = retrigger ts n c" "syncBit (retrigger ts n c) = syncBit c"
  by (simp_all add: retrigger_def upd_db_def)

lemma retrigger_same: "retrigger (db_trigs (db c)) (db_schema_version (db c)) c = c"
  by (simp add: retrigger_def upd_db_def)

lemma drop_trigger_eq:
  "\<exists>n. drop_trigger name c = (SQLITE_OK, retrigger (filter (\<lambda>t. fst t \<noteq> name) (db_trigs (db c))) n c)"
proof (cases "name \<in> fst ` set (db_trigs (db c))")
  case True
  then show ?thesis
    by (intro exI [of _ "db_schema_version (db c) + 1"]) (simp add: drop_trigger_def bump_schema_def retrigger_def upd_db_def)
next
  case False
  then have "filter (\<lambda>t. fst t \<noteq> name) (db_trigs (db c)) = db_trigs (db c)" by (auto simp: filter_id_conv)
  then show ?thesis using False retrigger_same [of c] by (auto simp: drop_trigger_def intro!: exI [of _ "db_schema_version (db c)"])
qed

lemma remove_triggers:
  assumes "faults c = []"
  shows "\<exists>n. crsql_removeCrrTriggersIfExist tbl c =
    (SQLITE_OK, retrigger (filter (\<lambda>t. fst t \<notin> set (crr_triggers tbl)) (db_trigs (db c))) n c)"
proof -
  obtain n1 where 1: "drop_trigger (itrig tbl) c =
    (SQLITE_OK, retrigger (filter (\<lambda>t. fst t \<noteq> itrig tbl) (db_trigs (db c))) n1 c)" using drop_trigger_eq by blast
  let ?c1 = "retrigger (filter (\<lambda>t. fst t \<noteq> itrig tbl) (db_trigs (db c))) n1 c"
  obtain n2 where 2: "drop_trigger (utrig tbl) ?c1 =
    (SQLITE_OK, retrigger (filter (\<lambda>t. fst t \<noteq> utrig tbl) (db_trigs (db ?c1))) n2 ?c1)" using drop_trigger_eq by blast
  let ?c2 = "retrigger (filter (\<lambda>t. fst t \<noteq> utrig tbl) (db_trigs (db ?c1))) n2 ?c1"
  obtain n3 where 3: "drop_trigger (dtrig tbl) ?c2 =
    (SQLITE_OK, retrigger (filter (\<lambda>t. fst t \<noteq> dtrig tbl) (db_trigs (db ?c2))) n3 ?c2)" using drop_trigger_eq by blast
  have "filter (\<lambda>t. fst t \<noteq> dtrig tbl) (filter (\<lambda>t. fst t \<noteq> utrig tbl) (filter (\<lambda>t. fst t \<noteq> itrig tbl) xs)) =
      filter (\<lambda>t. fst t \<notin> set (crr_triggers tbl)) xs" for xs :: "(string \<times> trig_stmt list) list"
    by (auto simp: crr_triggers_def intro: filter_cong)
  then show ?thesis using 1 2 3 assms by (intro exI [of _ n3]) (simp add: crsql_removeCrrTriggersIfExist_def)
qed

text \<open>The triggers of a table with their bodies.\<close>

definition crr_bodies :: "table_info \<Rightarrow> (string \<times> trig_stmt list) list" where
  "crr_bodies info = (if ti_nonPks info = [] then []
     else [(utrig (ti_tblName info), update_stmts info), (itrig (ti_tblName info), insert_stmts info)])"

definition all_bodies :: "table_info \<Rightarrow> (string \<times> trig_stmt list) list" where
  "all_bodies info = (dtrig (ti_tblName info), delete_stmts info) # crr_bodies info"

lemma create_trigger_eq:
  assumes "tbl \<in> set (db_master (db c))" and "name \<notin> fst ` set (db_trigs (db c))"
  shows "\<exists>n. create_trigger name tbl body c = (SQLITE_OK, retrigger ((name, body) # db_trigs (db c)) n c)"
  using assms
  by (intro exI [of _ "db_schema_version (db c) + 1"]) (simp add: create_trigger_def bump_schema_def retrigger_def upd_db_def)

lemma create_triggers:
  assumes "faults c = []" and "ti_tblName info \<in> set (db_master (db c))"
    and "fst ` set (db_trigs (db c)) \<inter> set (crr_triggers (ti_tblName info)) = {}" and "ti_pks info \<noteq> []"
  shows "\<exists>n. crsql_createCrrTriggers info c = (SQLITE_OK, retrigger (all_bodies info @ db_trigs (db c)) n c)"
proof -
  let ?t = "ti_tblName info"
  have fresh: "itrig ?t \<notin> fst ` set (db_trigs (db c))" "utrig ?t \<notin> fst ` set (db_trigs (db c))"
    "dtrig ?t \<notin> fst ` set (db_trigs (db c))"
    using assms(3) by (auto simp: crr_triggers_def)
  have step: "\<exists>n. create_trigger name ?t body (retrigger ts m c) = (SQLITE_OK, retrigger ((name, body) # ts) n c)"
    if "name \<notin> fst ` set ts" for name body ts m
    using create_trigger_eq [of ?t "retrigger ts m c" name body] that assms(2) by auto
  show ?thesis
  proof (cases "ti_nonPks info = []")
    case True
    then show ?thesis
      using create_trigger_eq [OF assms(2) fresh(3)] assms(1)
      by (simp add: crsql_createCrrTriggers_def create_trigger_runs assms(4) all_bodies_def crr_bodies_def)
  next
    case False
    obtain n1 where 1: "create_trigger (itrig ?t) ?t (insert_stmts info) c =
        (SQLITE_OK, retrigger ((itrig ?t, insert_stmts info) # db_trigs (db c)) n1 c)"
      using create_trigger_eq [OF assms(2) fresh(1)] by blast
    obtain n2 where 2: "create_trigger (utrig ?t) ?t (update_stmts info)
        (retrigger ((itrig ?t, insert_stmts info) # db_trigs (db c)) n1 c) =
        (SQLITE_OK, retrigger ((utrig ?t, update_stmts info) # (itrig ?t, insert_stmts info) # db_trigs (db c)) n2 c)"
      using step [of "utrig ?t"] fresh(2) crr_triggers_distinct [of ?t] by fastforce
    obtain n3 where 3: "create_trigger (dtrig ?t) ?t (delete_stmts info)
        (retrigger ((utrig ?t, update_stmts info) # (itrig ?t, insert_stmts info) # db_trigs (db c)) n2 c) =
        (SQLITE_OK, retrigger (all_bodies info @ db_trigs (db c)) n3 c)"
      using step [of "dtrig ?t"] fresh(3) crr_triggers_distinct [of ?t] False
      by (fastforce simp: all_bodies_def crr_bodies_def)
    show ?thesis
      using False 1 2 3 assms(1)
      by (auto simp: crsql_createCrrTriggers_def create_trigger_runs assms(4) Let_def)
  qed
qed

lemma map_of_bodies:
  "map_of (all_bodies info @ ts) name =
     (if name = dtrig (ti_tblName info) then Some (delete_stmts info)
      else if ti_nonPks info \<noteq> [] \<and> name = itrig (ti_tblName info) then Some (insert_stmts info)
      else if ti_nonPks info \<noteq> [] \<and> name = utrig (ti_tblName info) then Some (update_stmts info)
      else map_of ts name)"
  using crr_triggers_distinct [of "ti_tblName info"] by (auto simp: all_bodies_def crr_bodies_def)

text \<open>Making the clock table of a table that has none.\<close>

definition clock_free :: "table_info \<Rightarrow> database \<Rightarrow> bool" where
  "clock_free info d \<longleftrightarrow>
     (let name = clock_name (ti_tblName info); idx = ti_tblName info @ ''__crsql_clock_dbv_idx'' in
      name \<notin> set (db_master d) \<and> name \<notin> set (db_indexes d) \<and> idx \<notin> set (db_master d)) \<and>
     ti_pks info \<noteq> [] \<and> distinct (map (map fold_case) (clock_columns info))"

definition with_clock :: "table_info \<Rightarrow> string list \<Rightarrow> (string \<times> trig_stmt list) list \<Rightarrow> int \<Rightarrow> conn \<Rightarrow> conn" where
  "with_clock info idx trigs n = upd_db (\<lambda>d. d\<lparr>db_master := db_master d @ [clock_name (ti_tblName info)],
     db_indexes := idx, db_clock := (db_clock d)(clock_name (ti_tblName info) \<mapsto>
       \<lparr>ct_pks = map ci_name (ti_pks info), ct_rows = []\<rparr>), db_trigs := trigs, db_schema_version := n\<rparr>)"

lemma idx_not_clock: "tbl @ ''__crsql_clock_dbv_idx'' \<noteq> clock_name tbl"
  by (simp add: clock_name_def)

lemma createClockTable_fresh:
  assumes "faults c = []" and "clock_free info (db c)"
  shows "\<exists>idx n. crsql_createClockTable info c = (SQLITE_OK, with_clock info idx (db_trigs (db c)) n c)"
proof -
  let ?name = "clock_name (ti_tblName info)" and ?idx = "ti_tblName info @ ''__crsql_clock_dbv_idx''"
  let ?d = "db c"
  define c1 where "c1 = with_clock info (db_indexes ?d) (db_trigs ?d) (db_schema_version ?d + 1) c"
  have c1: "create_clock info c = (SQLITE_OK, c1)"
    using assms(2) by (simp add: create_clock_def clock_free_def Let_def create_table_def c1_def with_clock_def
        bump_schema_def upd_db_def)
  have f: "faults c1 = []" "?idx \<notin> set (db_master (db c1))" "?name \<in> set (db_master (db c1))"
    using assms by (simp_all add: c1_def with_clock_def clock_free_def idx_not_clock Let_def)
  show ?thesis
  proof (cases "?idx \<in> set (db_indexes ?d)")
    case True
    then have "create_index_if ?idx ?name c1 = (SQLITE_OK, c1)"
      using f by (simp add: create_index_if_def) (simp add: c1_def with_clock_def)
    with c1 f assms(1) show ?thesis
      by (auto simp: crsql_createClockTable_def Let_def c1_def [symmetric] intro: c1_def)
  next
    case False
    then have "create_index_if ?idx ?name c1 =
        (SQLITE_OK, with_clock info (db_indexes ?d @ [?idx]) (db_trigs ?d) (db_schema_version ?d + 2) c)"
      using f by (simp add: create_index_if_def) (simp add: c1_def with_clock_def bump_schema_def upd_db_def)
    with c1 f assms(1) show ?thesis by (auto simp: crsql_createClockTable_def Let_def)
  qed
qed

text \<open>What makes a table of the user ready to be replicated.\<close>

definition crr_candidate :: "string \<Rightarrow> user_table \<Rightarrow> table_info \<Rightarrow> database \<Rightarrow> bool" where
  "crr_candidate tbl t info d \<longleftrightarrow> db_user d tbl = Some t \<and> table_allowed t \<and> tbl \<in> set (db_master d) \<and>
     crsql_tableInfo tbl (ut_cols t) = Some info \<and> list_all (\<lambda>k. ci_pk k \<ge> 0) (ut_cols t) \<and>
     distinct (map ci_name (ut_cols t)) \<and> clock_free info d"

lemma tableInfo_name: "crsql_tableInfo tbl cols = Some info \<Longrightarrow> ti_tblName info = tbl"
  by (auto simp: crsql_tableInfo_def split: option.splits bind_splits)

lemma map_of_filter_notin:
  "map_of (filter (\<lambda>t. fst t \<notin> S) xs) name = (if name \<in> S then None else map_of xs name)"
  by (induction xs) auto

lemma createCrr_ok:
  assumes "faults c = []" and "crr_candidate tbl t info (db c)"
  shows "\<exists>idx n. createCrr (Some tbl) c = Some (SQLITE_OK, NoText, with_clock info idx
    (all_bodies info @ filter (\<lambda>t. fst t \<notin> set (crr_triggers tbl)) (db_trigs (db c))) n c)"
proof -
  note cand = assms(2) [unfolded crr_candidate_def]
  have name: "ti_tblName info = tbl" using cand tableInfo_name by blast
  have compat: "crsql_isTableCompatible tbl c = (Inr (), c)"
    using isTableCompatible_aux [OF assms(1), of tbl] cand by auto
  have cols: "pragma_table_info (db c) tbl = ut_cols t" using cand by (simp add: pragma_table_info_def)
  have "ut_cols t \<noteq> []" using cand tableInfo_parts(1) [of tbl "ut_cols t" info] by (auto simp: clock_free_def)
  then have info: "crsql_getTableInfo tbl c = Some (SQLITE_OK, Some info, None, c)"
    using getTableInfo_ok [OF assms(1), of tbl] cand cols by simp
  obtain idx n where 1: "crsql_createClockTable info c = (SQLITE_OK, with_clock info idx (db_trigs (db c)) n c)"
    using createClockTable_fresh [OF assms(1)] cand by blast
  let ?c1 = "with_clock info idx (db_trigs (db c)) n c"
  let ?rest = "filter (\<lambda>t. fst t \<notin> set (crr_triggers tbl)) (db_trigs (db c))"
  have f1: "faults ?c1 = []" "db_trigs (db ?c1) = db_trigs (db c)" "tbl \<in> set (db_master (db ?c1))"
    using assms(1) cand by (simp_all add: with_clock_def)
  obtain m where 2: "crsql_removeCrrTriggersIfExist tbl ?c1 = (SQLITE_OK, retrigger ?rest m ?c1)"
    using remove_triggers [OF f1(1), of tbl] f1(2) by auto
  let ?c2 = "retrigger ?rest m ?c1"
  have "fst ` set (db_trigs (db ?c2)) \<inter> set (crr_triggers (ti_tblName info)) = {}" using name by auto
  then obtain k where 3: "crsql_createCrrTriggers info ?c2 = (SQLITE_OK, retrigger (all_bodies info @ ?rest) k ?c2)"
    using create_triggers [of ?c2 info] f1 name cand by (auto simp: clock_free_def)
  have "retrigger ts k ?c2 = with_clock info idx ts k c" for ts by (simp add: with_clock_def retrigger_def upd_db_def)
  then have "createCrr (Some tbl) c = Some (SQLITE_OK, NoText, with_clock info idx (all_bodies info @ ?rest) k c)"
    using compat info 1 2 3 name by (simp add: createCrr_def fmt_s_def)
  then show ?thesis by blast
qed

section \<open>Making a table replicated\<close>

text \<open>Transactions begun by a savepoint have one; outside a transaction there are none.\<close>

definition tx_wf :: "conn \<Rightarrow> bool" where
  "tx_wf c \<longleftrightarrow> (implicit_tx c \<longrightarrow> saves c \<noteq> []) \<and> (tx c = None \<longrightarrow> saves c = [] \<and> \<not> implicit_tx c)"

text \<open>A savepoint around work that leaves the transaction alone.\<close>

lemma savepoint_release:
  assumes "faults c = []" and "tx_wf c" and "same_tx (snd (sql_savepoint n c)) c1" and "faults c1 = []"
  shows "\<exists>c'. run_exec (sql_release n) c1 = (SQLITE_OK, c') \<and> db c' = db c1 \<and> same_tx c c' \<and>
    syncBit c' = syncBit c1 \<and> faults c' = [] \<and>
    ext c' = (if tx c = None then (ext c1)\<lparr>dbVersion := -1\<rparr> else ext c1)"
proof (cases "tx c")
  case None
  then show ?thesis
    using assms by (auto simp: sql_savepoint_def sql_release_def tx_wf_def commit_tx_def commitHook_def)
next
  case (Some base)
  then have s: "tx c1 = Some base" "saves c1 = (n, db c) # saves c" "implicit_tx c1 = implicit_tx c"
    using assms(3) by (simp_all add: sql_savepoint_def)
  have "\<not> (saves c = [] \<and> implicit_tx c1)" using s(3) assms(2) by (auto simp: tx_wf_def)
  then have "sql_release n c1 = (SQLITE_OK, c1\<lparr>saves := saves c\<rparr>)" using s(2) by (auto simp: sql_release_def)
  with s Some assms(4) show ?thesis by simp
qed

lemma with_clock_simps [simp]:
  "faults (with_clock info idx ts n c) = faults c" "same_tx c (with_clock info idx ts n c)"
  "ext (with_clock info idx ts n c) = ext c" "syncBit (with_clock info idx ts n c) = syncBit c"
  "db_user (db (with_clock info idx ts n c)) = db_user (db c)"
  "db_master (db (with_clock info idx ts n c)) = db_master (db c) @ [clock_name (ti_tblName info)]"
  "db_clock (db (with_clock info idx ts n c)) = (db_clock (db c))(clock_name (ti_tblName info) \<mapsto>
     \<lparr>ct_pks = map ci_name (ti_pks info), ct_rows = []\<rparr>)"
  "db_trigs (db (with_clock info idx ts n c)) = ts"
  by (simp_all add: with_clock_def)

lemma savepoint_same: "db (snd (sql_savepoint n c)) = db c" "faults (snd (sql_savepoint n c)) = faults c"
  "ext (snd (sql_savepoint n c)) = ext c"
  by (simp_all add: sql_savepoint_def)

lemma savepoint_run: "faults c = [] \<Longrightarrow> run_exec (sql_savepoint n) c = (SQLITE_OK, snd (sql_savepoint n c))"
  by (simp add: sql_savepoint_def)

lemma as_crr_aux:
  assumes "faults c = []" and "tx_wf c" and "crr_candidate tbl t info (db c)"
  shows "\<exists>c'. crsqlMakeCrrFunc [Some tbl] c = Some (None, c') \<and> same_tx c c' \<and>
    db_user (db c') = db_user (db c) \<and> db_master (db c') = db_master (db c) @ [clock_name tbl] \<and>
    db_clock (db c') = (db_clock (db c))(clock_name tbl \<mapsto> \<lparr>ct_pks = map ci_name (ti_pks info), ct_rows = []\<rparr>) \<and>
    db_trigs (db c') = all_bodies info @ filter (\<lambda>t. fst t \<notin> set (crr_triggers tbl)) (db_trigs (db c)) \<and>
    faults c' = []"
proof -
  let ?c0 = "snd (sql_savepoint ''as_crr'' c)"
  let ?trigs = "all_bodies info @ filter (\<lambda>t. fst t \<notin> set (crr_triggers tbl)) (db_trigs (db c))"
  have name: "ti_tblName info = tbl" using assms(3) tableInfo_name by (auto simp: crr_candidate_def)
  have c0: "faults ?c0 = []" "crr_candidate tbl t info (db ?c0)" using assms by (simp_all add: savepoint_same)
  obtain idx n where 1: "createCrr (Some tbl) ?c0 = Some (SQLITE_OK, NoText, with_clock info idx ?trigs n ?c0)"
    using createCrr_ok [OF c0] by (auto simp: savepoint_same)
  obtain c' where 2: "run_exec (sql_release ''as_crr'') (with_clock info idx ?trigs n ?c0) = (SQLITE_OK, c')"
    "db c' = db (with_clock info idx ?trigs n ?c0)" "same_tx c c'" "faults c' = []"
    using savepoint_release [OF assms(1,2), where n = "''as_crr''" and ?c1.0 = "with_clock info idx ?trigs n ?c0"] c0(1) by auto
  have "crsqlMakeCrrFunc [Some tbl] c = Some (None, c')"
    using savepoint_run [OF assms(1), of "''as_crr''"] 1(1) 2(1) by (simp add: crsqlMakeCrrFunc_def table_arg_def)
  with 2(2-4) name show ?thesis by (simp add: savepoint_same)
qed

text \<open>C16. Making a suitable table replicated succeeds, adds an empty clock table for its key and the
  triggers made from its description, changes no row of any table of the user and leaves the
  surrounding transaction open (or commits its own). What merging and local writes rely on
  then holds for the table. Rows the table already has get no clock entry.\<close>

theorem as_crr_makes_replicated:
  assumes "faults c = []" and "tx_wf c" and "crr_candidate tbl t info (db c)"
    and "list_all (\<lambda>k. ci_notnull k = 0) (ti_nonPks info)" and "distinct_keys info (ut_rows t)"
    and "list_all (\<lambda>k. ci_name k \<notin> {DELETE_CID_SENTINEL, PKS_ONLY_CID_SENTINEL}) (ut_cols t)"
  shows "\<exists>c'. crsqlMakeCrrFunc [Some tbl] c = Some (None, c') \<and> same_tx c c' \<and>
    db_user (db c') = db_user (db c) \<and> clock_rows (db c') tbl = [] \<and>
    crr info (db c') \<and> schema_inv info (db c') \<and> data_inv info (db c')"
proof -
  obtain c' where c': "crsqlMakeCrrFunc [Some tbl] c = Some (None, c')" "same_tx c c'"
    "db_user (db c') = db_user (db c)"
    "db_clock (db c') = (db_clock (db c))(clock_name tbl \<mapsto> \<lparr>ct_pks = map ci_name (ti_pks info), ct_rows = []\<rparr>)"
    "db_trigs (db c') = all_bodies info @ filter (\<lambda>t. fst t \<notin> set (crr_triggers tbl)) (db_trigs (db c))"
    using as_crr_aux [OF assms(1-3)] by blast
  note cand = assms(3) [unfolded crr_candidate_def]
  have name: "ti_tblName info = tbl" using cand tableInfo_name by blast
  have own: "itrig tbl \<in> set (crr_triggers tbl)" "utrig tbl \<in> set (crr_triggers tbl)"
    by (simp_all add: crr_triggers_def)
  have trig: "map_of (db_trigs (db c')) (dtrig tbl) = Some (delete_stmts info)"
    "map_of (db_trigs (db c')) (itrig tbl) = (if ti_nonPks info = [] then None else Some (insert_stmts info))"
    "map_of (db_trigs (db c')) (utrig tbl) = (if ti_nonPks info = [] then None else Some (update_stmts info))"
    using c'(5) crr_triggers_distinct [of tbl] own
    by (simp_all add: map_of_bodies name map_of_filter_notin del: map_of_append)
  have rows: "clock_rows (db c') tbl = []" using c'(4) by (simp add: clock_rows_def)
  have sch: "schema_inv info (db c')"
    using cand c'(3,4) name trig assms(4,6)
    by (simp add: schema_inv_def trig_ok_def clock_free_def)
  have "distinct (map ci_name (ti_nonPks info))"
    using tableInfo_parts(2) [of tbl "ut_cols t" info] cand by (simp add: distinct_map_filter)
  then have "crr info (db c')" using c'(4) name trig by (simp add: crr_def)
  moreover have "data_inv info (db c')"
    using cand c'(3) name assms(5) rows
    by (simp add: data_inv_def data_parts_def user_rows_def clocks_distinct_def clocked_exists_def)
  ultimately show ?thesis using c' rows sch by blast
qed

text \<open>The table of the examples before it is replicated.\<close>

definition plain_conn :: conn where
  "plain_conn = test_conn\<lparr>db := test_db\<lparr>db_master := [''crsql_tracked_peers'', ''foo''], db_clock := (\<lambda>n. None)\<rparr>\<rparr>"

lemma plain_candidate: "crr_candidate ''foo'' test_user foo_info (db plain_conn)"
proof -
  have "clock_free foo_info (db plain_conn)" by code_simp
  moreover have "crsql_tableInfo ''foo'' (ut_cols test_user) = Some foo_info" by code_simp
  moreover have "table_allowed test_user" by code_simp
  ultimately show ?thesis
    by (simp add: crr_candidate_def plain_conn_def test_conn_def test_db_def) (code_simp)
qed

lemma plain_simps: "faults plain_conn = []" "tx plain_conn = None" "tx_wf plain_conn"
  by (simp_all add: plain_conn_def test_conn_def tx_wf_def)

theorem as_crr_makes_replicated_witness:
  "\<exists>c'. crsqlMakeCrrFunc [Some ''foo''] plain_conn = Some (None, c') \<and> tx c' = None \<and>
     crr foo_info (db c') \<and> schema_inv foo_info (db c') \<and> data_inv foo_info (db c')"
proof -
  have "list_all (\<lambda>k. ci_notnull k = 0) (ti_nonPks foo_info)" by code_simp
  moreover have "distinct_keys foo_info (ut_rows test_user)" by (simp add: distinct_keys_def test_user_def)
  moreover have "list_all (\<lambda>k. ci_name k \<notin> {DELETE_CID_SENTINEL, PKS_ONLY_CID_SENTINEL}) (ut_cols test_user)"
    by code_simp
  ultimately show ?thesis
    using as_crr_makes_replicated [OF plain_simps(1,3) plain_candidate] plain_simps(2) by auto
qed

text \<open>C32. When \<^verbatim>\<open>crsql_as_crr\<close> refuses a table inside a transaction of the user it rolls back the whole
  transaction, not only its own savepoint: everything the user had done is lost and the
  transaction is over.\<close>

theorem as_crr_failure_rolls_back:
  assumes "faults c = []" and "tx c = Some base"
    and "\<And>t. db_user (db c) tbl = Some t \<Longrightarrow> \<not> table_allowed t"
  shows "\<exists>msg c'. crsqlMakeCrrFunc [Some tbl] c = Some (Some msg, c') \<and> db c' = base \<and> tx c' = None"
proof -
  let ?c0 = "snd (sql_savepoint ''as_crr'' c)"
  have f: "faults ?c0 = []" "db ?c0 = db c" using assms(1) by (simp_all add: savepoint_same)
  obtain err where "crsql_isTableCompatible tbl ?c0 = (Inl err, ?c0)"
  proof -
    obtain res where r: "crsql_isTableCompatible tbl ?c0 = (res, ?c0)" "res \<noteq> Inr ()"
      using isTableCompatible_aux [OF f(1), of tbl] f(2) assms(3) by auto
    then show thesis using that by (cases res) auto
  qed
  then have "createCrr (Some tbl) ?c0 = Some (SQLITE_ERROR, own_text err, ?c0)"
    by (simp add: createCrr_def fmt_s_def)
  moreover have "tx ?c0 = Some base" using assms(2) by (simp add: sql_savepoint_def)
  ultimately show ?thesis
    using savepoint_run [OF assms(1), of "''as_crr''"] f(1)
    by (simp add: crsqlMakeCrrFunc_def table_arg_def rollback_all_def sql_rollback_def rollbackHook_def)
qed

theorem as_crr_failure_rolls_back_witness:
  "\<exists>msg c'. crsqlMakeCrrFunc [Some ''bar''] (plain_conn\<lparr>tx := Some test_db\<rparr>) = Some (Some msg, c') \<and>
     db c' = test_db \<and> tx c' = None"
  by (rule as_crr_failure_rolls_back) (simp_all add: plain_conn_def test_conn_def test_db_def)

section \<open>Altering a replicated table\<close>

text \<open>A table that already has its clock table.\<close>

definition crr_existing :: "string \<Rightarrow> user_table \<Rightarrow> table_info \<Rightarrow> database \<Rightarrow> bool" where
  "crr_existing tbl t info d \<longleftrightarrow> db_user d tbl = Some t \<and> table_allowed t \<and> tbl \<in> set (db_master d) \<and>
     crsql_tableInfo tbl (ut_cols t) = Some info \<and> list_all (\<lambda>k. ci_pk k \<ge> 0) (ut_cols t) \<and>
     ti_pks info \<noteq> [] \<and> clock_name tbl \<in> set (db_master d) \<and> db_clock d (clock_name tbl) \<noteq> None"

text \<open>Only the indices, the triggers and the schema version differ.\<close>

definition same_tables :: "database \<Rightarrow> database \<Rightarrow> bool" where
  "same_tables d d' \<longleftrightarrow> db_user d' = db_user d \<and> db_clock d' = db_clock d \<and> db_master d' = db_master d \<and>
     db_peers d' = db_peers d \<and> db_site_ids d' = db_site_ids d"

lemma createClockTable_existing:
  assumes "faults c = []" and "ti_pks info \<noteq> []" and "clock_name (ti_tblName info) \<in> set (db_master (db c))"
  shows "\<exists>c'. crsql_createClockTable info c = (SQLITE_OK, c') \<and> same_tables (db c) (db c') \<and>
    faults c' = [] \<and> same_tx c c' \<and> db_trigs (db c') = db_trigs (db c) \<and> ext c' = ext c"
proof -
  have "create_clock info c = (SQLITE_OK, c)" using assms by (simp add: create_clock_def)
  then show ?thesis
    using assms(1) by (auto simp: crsql_createClockTable_def Let_def create_index_if_def same_tables_def bump_schema_def)
qed

lemma createCrr_existing:
  assumes "faults c = []" and "crr_existing tbl t info (db c)"
  shows "\<exists>c'. createCrr (Some tbl) c = Some (SQLITE_OK, NoText, c') \<and> same_tables (db c) (db c') \<and>
    faults c' = [] \<and> same_tx c c' \<and> ext c' = ext c"
proof -
  note cand = assms(2) [unfolded crr_existing_def]
  have name: "ti_tblName info = tbl" using cand tableInfo_name by blast
  have compat: "crsql_isTableCompatible tbl c = (Inr (), c)"
    using isTableCompatible_aux [OF assms(1), of tbl] cand by auto
  have cols: "pragma_table_info (db c) tbl = ut_cols t" using cand by (simp add: pragma_table_info_def)
  have "ut_cols t \<noteq> []" using cand tableInfo_parts(1) [of tbl "ut_cols t" info] by auto
  then have info: "crsql_getTableInfo tbl c = Some (SQLITE_OK, Some info, None, c)"
    using getTableInfo_ok [OF assms(1), of tbl] cand cols by simp
  obtain c1 where 1: "crsql_createClockTable info c = (SQLITE_OK, c1)" "same_tables (db c) (db c1)"
    "faults c1 = []" "same_tx c c1" "ext c1 = ext c"
    using createClockTable_existing [OF assms(1), of info] cand name by auto
  let ?rest = "filter (\<lambda>t. fst t \<notin> set (crr_triggers tbl)) (db_trigs (db c1))"
  obtain m where 2: "crsql_removeCrrTriggersIfExist tbl c1 = (SQLITE_OK, retrigger ?rest m c1)"
    using remove_triggers [OF 1(3), of tbl] by auto
  let ?c2 = "retrigger ?rest m c1"
  have "fst ` set (db_trigs (db ?c2)) \<inter> set (crr_triggers (ti_tblName info)) = {}" using name by auto
  moreover have "ti_tblName info \<in> set (db_master (db ?c2))" using cand 1(2) name by (simp add: same_tables_def)
  ultimately obtain trigs k where 3: "crsql_createCrrTriggers info ?c2 = (SQLITE_OK, retrigger trigs k ?c2)"
    using create_triggers [of ?c2 info] 1(3) cand by auto
  then have "createCrr (Some tbl) c = Some (SQLITE_OK, NoText, retrigger trigs k ?c2)"
    using compat info 1(1) 2 name by (simp add: createCrr_def fmt_s_def)
  then show ?thesis using 1 by (auto simp: same_tables_def)
qed

text \<open>The clock table without the entries of names that are no columns.\<close>

definition compacted :: "string \<Rightarrow> user_table \<Rightarrow> database \<Rightarrow> database" where
  "compacted tbl t d = upd_clock (clock_name tbl) (filter (\<lambda>k. ck_col k \<in> ci_name ` set (ut_cols t))) d"

lemma compact_ok:
  assumes "faults c = []" and "crr_existing tbl t info (db c)"
  shows "crsql_compactPostAlter (Some tbl) c = (SQLITE_OK, upd_db (compacted tbl t) c)"
  using assms
  by (auto simp: crsql_compactPostAlter_def delete_unknown_def crr_existing_def compacted_def
      pragma_table_info_def split: option.split)

lemma crr_existing_compacted: "crr_existing tbl t info d \<Longrightarrow> crr_existing tbl t info (compacted tbl t d)"
  by (auto simp: crr_existing_def compacted_def)

text \<open>The work both orders of the alteration functions share.\<close>

lemma alter_work:
  assumes "faults c = []" and "crr_existing tbl t info (db c)"
  shows "\<exists>c1. crsql_compactPostAlter (Some tbl) c = (SQLITE_OK, upd_db (compacted tbl t) c) \<and>
    createCrr (Some tbl) (upd_db (compacted tbl t) c) = Some (SQLITE_OK, NoText, c1) \<and>
    same_tables (compacted tbl t (db c)) (db c1) \<and> faults c1 = [] \<and> same_tx c c1 \<and> ext c1 = ext c"
  using compact_ok [OF assms] createCrr_existing [of "upd_db (compacted tbl t) c" tbl t info]
    crr_existing_compacted [OF assms(2)] assms(1) by auto

lemma compacted_forgets:
  assumes "db_clock d (clock_name tbl) \<noteq> None" and "DELETE_CID_SENTINEL \<notin> ci_name ` set (ut_cols t)"
    and "same_tables (compacted tbl t d) d'"
  shows "clock_lookup (clock_rows d' tbl) pk DELETE_CID_SENTINEL = None"
proof -
  have "clock_rows d' tbl = filter (\<lambda>k. ck_col k \<in> ci_name ` set (ut_cols t)) (clock_rows d tbl)"
    using assms(1,3) by (auto simp: same_tables_def compacted_def clock_rows_def)
  then show ?thesis using assms(2) by (auto simp: clock_lookup_def find_None_iff same_clock_def)
qed

text \<open>C30. Altering a table, even without changing it, forgets its deletes: between \<^verbatim>\<open>crsql_begin_alter\<close> and
  \<^verbatim>\<open>crsql_commit_alter\<close> every clock entry that is not of a column is removed, and the delete
  sentinels are such entries. No row counts as deleted afterwards, so changes other
  replicas still hold bring deleted rows back.\<close>

theorem commit_alter_forgets_deletes:
  assumes "faults c = []" and "tx_wf c" and "crr_existing tbl t info (db c)"
    and "DELETE_CID_SENTINEL \<notin> ci_name ` set (ut_cols t)"
  shows "\<exists>c1 c2. crsqlBeginAlterFunc [Some tbl] c = (None, c1) \<and>
    crsqlCommitAlterFunc [Some tbl] c1 = Some (None, c2) \<and> same_tx c c2 \<and>
    db_user (db c2) = db_user (db c) \<and> (\<forall>pk. abs_row info (db c2) pk \<noteq> Dead)"
proof -
  let ?c0 = "snd (sql_savepoint ''alter_crr'' c)"
  obtain n where 1: "crsql_removeCrrTriggersIfExist tbl ?c0 = (SQLITE_OK,
      retrigger (filter (\<lambda>t. fst t \<notin> set (crr_triggers tbl)) (db_trigs (db c))) n ?c0)"
    using remove_triggers [of ?c0 tbl] assms(1) by (auto simp: savepoint_same)
  define c1 where "c1 = retrigger (filter (\<lambda>t. fst t \<notin> set (crr_triggers tbl)) (db_trigs (db c))) n ?c0"
  have c1: "faults c1 = []" "crr_existing tbl t info (db c1)" "same_tx ?c0 c1" "db_user (db c1) = db_user (db c)"
    using assms(1,3) by (simp_all add: c1_def savepoint_same crr_existing_def)
  have begun: "crsqlBeginAlterFunc [Some tbl] c = (None, c1)"
    using savepoint_run [OF assms(1), of "''alter_crr''"] 1
    by (simp add: crsqlBeginAlterFunc_def table_arg_def fmt_s_def c1_def)
  obtain c2 where 2: "crsql_compactPostAlter (Some tbl) c1 = (SQLITE_OK, upd_db (compacted tbl t) c1)"
    "createCrr (Some tbl) (upd_db (compacted tbl t) c1) = Some (SQLITE_OK, NoText, c2)"
    "same_tables (compacted tbl t (db c1)) (db c2)" "faults c2 = []" "same_tx c1 c2"
    using alter_work [OF c1(1,2)] by blast
  obtain c3 where 3: "run_exec (sql_release ''alter_crr'') c2 = (SQLITE_OK, c3)" "db c3 = db c2" "same_tx c c3"
    using savepoint_release [OF assms(1,2), where n = "''alter_crr''" and ?c1.0 = c2] 2(4,5) c1(3) by auto
  have commit: "crsqlCommitAlterFunc [Some tbl] c1 = Some (None, c3)"
    using 2(1,2) 3(1) by (simp add: crsqlCommitAlterFunc_def table_arg_def fmt_s_def)
  have "db_clock (db c1) (clock_name tbl) \<noteq> None" using c1(2) by (simp add: crr_existing_def)
  then have "clock_lookup (clock_rows (db c3) tbl) pk DELETE_CID_SENTINEL = None" for pk
    using compacted_forgets [OF _ assms(4) 2(3)] 3(2) by simp
  moreover have "ti_tblName info = tbl" using assms(3) tableInfo_name by (auto simp: crr_existing_def)
  ultimately have "abs_row info (db c3) pk \<noteq> Dead" for pk by (simp add: abs_row_def abs_parts_def)
  moreover have "db_user (db c3) = db_user (db c)"
    using 2(3) 3(2) c1(4) by (simp add: same_tables_def compacted_def)
  ultimately show ?thesis using begun commit 3(3) by blast
qed

text \<open>A replica where row 3 counts as deleted.\<close>

lemma deleted_existing:
  "\<exists>t. crr_existing ''foo'' t foo_info (db deleted_conn) \<and> DELETE_CID_SENTINEL \<notin> ci_name ` set (ut_cols t)"
proof -
  let ?t = "test_user\<lparr>ut_rows := [row_of (VInt 1) (VText ''x''), row_of (VInt 2) VNull]\<rparr>"
  have t: "db_user (db deleted_conn) ''foo'' = Some ?t" "''foo'' \<in> set (db_master (db deleted_conn))"
    "clock_name ''foo'' \<in> set (db_master (db deleted_conn))"
    "db_clock (db deleted_conn) (clock_name ''foo'') \<noteq> None"
    by (simp_all add: deleted_conn_def filled_conn_def crr_conn_def test_db_def test_conn_def clock_name_def)
  have "crsql_tableInfo ''foo'' (ut_cols ?t) = Some foo_info" "table_allowed ?t" "ti_pks foo_info \<noteq> []"
    "list_all (\<lambda>k. ci_pk k \<ge> 0) (ut_cols ?t)" "DELETE_CID_SENTINEL \<notin> ci_name ` set (ut_cols ?t)" by code_simp+
  with t show ?thesis by (intro exI [of _ ?t]) (simp add: crr_existing_def)
qed

lemma deleted_simps: "faults deleted_conn = []" "tx deleted_conn = None" "saves deleted_conn = []" "tx_wf deleted_conn"
  by (simp_all add: deleted_conn_def filled_conn_def crr_conn_def test_conn_def tx_wf_def)

lemma deleted_dead: "abs_row foo_info (db deleted_conn) [VInt 3] = Dead"
proof -
  have "clock_lookup (clock_rows (db deleted_conn) ''foo'') [VInt 3] DELETE_CID_SENTINEL \<noteq> None" by code_simp
  then show ?thesis by (simp add: abs_row_def abs_parts_def foo_info_def test_foo_def)
qed

theorem commit_alter_forgets_deletes_witness:
  "abs_row foo_info (db deleted_conn) [VInt 3] = Dead \<and>
   (\<exists>c1 c2. crsqlBeginAlterFunc [Some ''foo''] deleted_conn = (None, c1) \<and>
     crsqlCommitAlterFunc [Some ''foo''] c1 = Some (None, c2) \<and> abs_row foo_info (db c2) [VInt 3] \<noteq> Dead)"
  using commit_alter_forgets_deletes [OF deleted_simps(1,4)] deleted_existing deleted_dead by blast

text \<open>C31. \<^verbatim>\<open>crsql_commit_alter\<close> without \<^verbatim>\<open>crsql_begin_alter\<close> reports an error, but only after its work: outside a
  transaction nothing is undone, so the deletes of the table are forgotten all the same; inside a
  transaction of the user the whole transaction is rolled back.\<close>

theorem commit_alter_without_begin:
  assumes "faults c = []" and "crr_existing tbl t info (db c)" and "saves c = []"
    and "DELETE_CID_SENTINEL \<notin> ci_name ` set (ut_cols t)"
  shows "\<exists>c'. crsqlCommitAlterFunc [Some tbl] c = Some (Some (SqliteText SQLITE_ERROR), c') \<and>
    (case tx c of None \<Rightarrow> \<forall>pk. abs_row info (db c') pk \<noteq> Dead | Some base \<Rightarrow> db c' = base \<and> tx c' = None)"
proof -
  obtain c2 where 2: "crsql_compactPostAlter (Some tbl) c = (SQLITE_OK, upd_db (compacted tbl t) c)"
    "createCrr (Some tbl) (upd_db (compacted tbl t) c) = Some (SQLITE_OK, NoText, c2)"
    "same_tables (compacted tbl t (db c)) (db c2)" "faults c2 = []" "same_tx c c2"
    using alter_work [OF assms(1,2)] by blast
  have "run_exec (sql_release ''alter_crr'') c2 = (SQLITE_ERROR, c2)"
    using 2(4,5) assms(3) by (simp add: sql_release_def)
  then have r: "crsqlCommitAlterFunc [Some tbl] c = Some (Some (SqliteText SQLITE_ERROR), rollback_all c2)"
    using 2(1,2) by (simp add: crsqlCommitAlterFunc_def table_arg_def fmt_s_def)
  show ?thesis
  proof (cases "tx c")
    case None
    then have same: "rollback_all c2 = c2" using 2(4,5) by (simp add: rollback_all_def sql_rollback_def)
    have "db_clock (db c) (clock_name tbl) \<noteq> None" "ti_tblName info = tbl"
      using assms(2) tableInfo_name by (auto simp: crr_existing_def)
    then have "abs_row info (db c2) pk \<noteq> Dead" for pk
      using compacted_forgets [OF _ assms(4) 2(3)] by (simp add: abs_row_def abs_parts_def)
    with None r same show ?thesis by simp
  next
    case (Some base)
    then have "tx c2 = Some base" using 2(5) by simp
    with r Some 2(4) show ?thesis by (simp add: rollback_all_def sql_rollback_def rollbackHook_def)
  qed
qed

theorem commit_alter_without_begin_witness:
  "\<exists>c'. crsqlCommitAlterFunc [Some ''foo''] deleted_conn = Some (Some (SqliteText SQLITE_ERROR), c') \<and>
     abs_row foo_info (db c') [VInt 3] \<noteq> Dead"
  using commit_alter_without_begin [OF deleted_simps(1) _ deleted_simps(3)] deleted_existing deleted_simps(2)
  by fastforce

end
