(* ===== verification/Loading.thy ===== *)
theory Loading imports Crsqlite_Ext begin

text \<open>
  What loading the extension (\<^verbatim>\<open>core/src/crsqlite.c\<close>) does: the id of the site is made once and read
  ever after, a load that succeeds registers everything, and the two ways a failing load leaves
  something behind.
\<close>

section \<open>The bytes of a site id\<close>

lemma nibble_version: "and (and x 0x0f + 0x40) 0xf0 = (0x40 :: 8 word)" "and (and x 0x0f + 0x40) 0x0f = and x (0x0f :: 8 word)"
proof -
  have "and x 0x0f + 0x40 = or (and x 0x0f) (0x40 :: 8 word)"
    by (rule disjunctive_add_eq_or) (simp add: and.assoc)
  then show "and (and x 0x0f + 0x40) 0xf0 = (0x40 :: 8 word)" "and (and x 0x0f + 0x40) 0x0f = and x (0x0f :: 8 word)"
    by (simp_all add: bit.conj_disj_distrib2 and.assoc)
qed

lemma variant_bits: "and (and x 0x3f + 0x80) 0xc0 = (0x80 :: 8 word)" "and (and x 0x3f + 0x80) 0x3f = and x (0x3f :: 8 word)"
proof -
  have "and x 0x3f + 0x80 = or (and x 0x3f) (0x80 :: 8 word)"
    by (rule disjunctive_add_eq_or) (simp add: and.assoc)
  then show "and (and x 0x3f + 0x80) 0xc0 = (0x80 :: 8 word)" "and (and x 0x3f + 0x80) 0x3f = and x (0x3f :: 8 word)"
    by (simp_all add: bit.conj_disj_distrib2 and.assoc)
qed

text \<open>A new site id is a UUID of version 4: its version nibble is 4, its variant bits are 10, and
  all its other 122 bits are the random ones.\<close>

theorem uuid_is_version_4:
  assumes "length rnd = SITE_ID_LEN"
  shows "length (uuid rnd) = SITE_ID_LEN \<and>
    and (uuid rnd ! 6) 0xf0 = 0x40 \<and> and (uuid rnd ! 6) 0x0f = and (rnd ! 6) 0x0f \<and>
    and (uuid rnd ! 8) 0xc0 = 0x80 \<and> and (uuid rnd ! 8) 0x3f = and (rnd ! 8) 0x3f \<and>
    (\<forall>i. i \<notin> {6, 8} \<longrightarrow> uuid rnd ! i = rnd ! i)"
  using assms by (simp add: uuid_def Let_def nibble_version variant_bits)

theorem uuid_is_version_4_witness:
  "and (uuid (replicate 16 0xff) ! 6) 0xf0 = 0x40 \<and> uuid (replicate 16 0xff) ! 7 = 0xff"
  using uuid_is_version_4 [of "replicate 16 0xff"] by simp

section \<open>The id of the site\<close>

lemma tableExists_ok:
  "faults c = [] \<Longrightarrow> crsql_doesTableExist n c = (int (length (filter (\<lambda>m. m = n) (db_master (db c)))), c)"
  by (simp add: crsql_doesTableExist_def crsql_getCount_def count_query_def)

lemma set_siteId_simps [simp]:
  "db (set_siteId b c) = db c" "faults (set_siteId b c) = faults c" "syncBit (set_siteId b c) = syncBit c"
  "ext (set_siteId b c) = (ext c)\<lparr>siteId := b\<rparr>" "same_tx c (set_siteId b c)"
  by (simp_all add: set_siteId_def)

lemma uuid_length: "length (uuid rnd) = length rnd"
  by (simp add: uuid_def Let_def)

text \<open>The database after a site id has been made.\<close>

definition with_site_id :: "blob \<Rightarrow> database \<Rightarrow> database" where
  "with_site_id b d = (bump_schema (d\<lparr>db_master := db_master d @ [TBL_SITE_ID]\<rparr>))\<lparr>db_site_ids := [VBlob b]\<rparr>"

lemma initSiteId_first:
  assumes "faults c = []" and "TBL_SITE_ID \<notin> set (db_master (db c))" and "TBL_SITE_ID \<notin> set (db_indexes (db c))"
  shows "initSiteId E rnd c = Some (SQLITE_OK, set_siteId (uuid rnd) (upd_db (with_site_id (uuid rnd)) c))"
proof -
  have "filter (\<lambda>m. m = TBL_SITE_ID) (db_master (db c)) = []" using assms(2) by (auto simp: filter_empty_conv)
  then show ?thesis
    using assms by (simp add: initSiteId_def tableExists_ok createSiteIdAndSiteIdTable_def create_table_def)
      (simp add: upd_db_def set_siteId_def upd_ext_def with_site_id_def bump_schema_def)
qed

lemma initSiteId_again:
  assumes "faults c = []" and "TBL_SITE_ID \<in> set (db_master (db c))" and "db_site_ids (db c) = VBlob b # vs"
    and "length b = SITE_ID_LEN"
  shows "initSiteId E rnd c = Some (SQLITE_OK, set_siteId b c)"
proof -
  have "filter (\<lambda>m. m = TBL_SITE_ID) (db_master (db c)) \<noteq> []" using assms(2) by (auto simp: filter_empty_conv)
  then show ?thesis using assms by (simp add: initSiteId_def tableExists_ok value_blob_def)
qed

text \<open>C24. The first load of a database makes the id of the site and stores it; every later connection
  to the database, whatever random bytes it would draw, reads that id back, changes nothing in
  the database, and \<^verbatim>\<open>crsql_siteid()\<close> answers it.\<close>

theorem site_id_is_kept:
  assumes "faults c = []" and "TBL_SITE_ID \<notin> set (db_master (db c))" and "TBL_SITE_ID \<notin> set (db_indexes (db c))"
    and "length rnd = SITE_ID_LEN"
  shows "\<exists>c1. initSiteId E rnd c = Some (SQLITE_OK, c1) \<and> siteIdFunc c1 = VBlob (uuid rnd) \<and>
    TBL_SITE_ID \<in> set (db_master (db c1)) \<and>
    (\<forall>c2 rnd2. faults c2 = [] \<and> TBL_SITE_ID \<in> set (db_master (db c2)) \<and>
        db_site_ids (db c2) = db_site_ids (db c1) \<longrightarrow>
      (\<exists>c3. initSiteId E rnd2 c2 = Some (SQLITE_OK, c3) \<and> siteIdFunc c3 = VBlob (uuid rnd) \<and> db c3 = db c2))"
proof -
  have 1: "initSiteId E rnd c = Some (SQLITE_OK, set_siteId (uuid rnd) (upd_db (with_site_id (uuid rnd)) c))"
    using initSiteId_first [OF assms(1-3)] .
  have "initSiteId E rnd2 c2 = Some (SQLITE_OK, set_siteId (uuid rnd) c2)"
    if "faults c2 = []" "TBL_SITE_ID \<in> set (db_master (db c2))" "db_site_ids (db c2) = [VBlob (uuid rnd)]" for c2 rnd2
    using initSiteId_again [OF that] assms(4) by (simp add: uuid_length)
  with 1 show ?thesis
    using assms(4) by (simp add: siteIdFunc_def uuid_length with_site_id_def bump_schema_def)
qed

theorem site_id_is_kept_witness:
  "\<exists>c1. initSiteId no_env (replicate 16 7) plain_conn = Some (SQLITE_OK, c1) \<and>
     siteIdFunc c1 = VBlob [7, 7, 7, 7, 7, 7, 0x47, 7, 0x87, 7, 7, 7, 7, 7, 7, 7]"
proof -
  have "uuid (replicate 16 7) = [7, 7, 7, 7, 7, 7, 0x47, 7, 0x87, 7, 7, 7, 7, 7, 7, 7]" by code_simp
  then show ?thesis
    using site_id_is_kept [of plain_conn "replicate 16 7" no_env]
    by (auto simp: plain_conn_def test_conn_def test_db_def)
qed

section \<open>What a failing load leaves behind\<close>

definition empty_registry :: registry where
  "empty_registry = \<lparr>rg_functions = [], rg_modules = [], rg_hooks = False, rg_ext = Null\<rparr>"

text \<open>A database whose table of site ids is there but empty, and a connection to it on which any
  statement may fail.\<close>

definition id_missing :: "database \<Rightarrow> bool" where
  "id_missing d \<longleftrightarrow> TBL_SITE_ID \<in> set (db_master d) \<and> db_site_ids d = [] \<and>
     ''crsql_tracked_peers'' \<in> set (db_master d)"

definition stuck :: "conn \<Rightarrow> bool" where
  "stuck c \<longleftrightarrow> id_missing (db c) \<and> (case tx c of None \<Rightarrow> True | Some base \<Rightarrow> id_missing base) \<and>
     list_all (\<lambda>f. 0 \<le> f) (faults c)"

text \<open>Statements that leave it so.\<close>

definition keeps_stuck :: "command \<Rightarrow> bool" where
  "keeps_stuck f \<longleftrightarrow> (\<forall>c. stuck c \<longrightarrow> 0 \<le> fst (f c) \<and> stuck (snd (f c)))"

lemma keeps_stuckD: "keeps_stuck f \<Longrightarrow> stuck c \<Longrightarrow> f c = (rc, c') \<Longrightarrow> 0 \<le> rc \<and> stuck c'"
  by (metis keeps_stuck_def fst_conv snd_conv)

lemma keeps_seq:
  assumes "keeps_stuck f" and "\<And>rc. 0 \<le> rc \<Longrightarrow> keeps_stuck (g rc)"
  shows "keeps_stuck (\<lambda>c. case f c of (rc, c) \<Rightarrow> g rc c)"
  using assms by (auto simp: keeps_stuck_def split_def)

lemma keeps_if:
  "keeps_stuck f \<Longrightarrow> keeps_stuck g \<Longrightarrow> keeps_stuck (\<lambda>c. if b then f c else g c)"
  "0 \<le> rc \<Longrightarrow> keeps_stuck (\<lambda>c. (rc, c))"
  by (auto simp: keeps_stuck_def)

lemma keeps_call: "keeps_stuck sql_call"
  by (auto simp: keeps_stuck_def stuck_def sql_call_def split: list.splits)

lemma keeps_exec: "keeps_stuck f \<Longrightarrow> keeps_stuck (run_exec f)" "keeps_stuck f \<Longrightarrow> keeps_stuck (exec_text z f)"
  unfolding run_exec_def [abs_def] exec_text_def Let_def by (intro keeps_seq keeps_if keeps_call; assumption)+

lemma keeps_create:
  "keeps_stuck (create_table_if n id)" "keeps_stuck (create_index_if n t)"
  by (auto simp: keeps_stuck_def stuck_def id_missing_def create_table_if_def create_table_def create_index_if_def
      bump_schema_def split: if_splits)

lemma keeps_peers: "keeps_stuck (create_table_if ''crsql_tracked_peers'' f)"
  by (auto simp: keeps_stuck_def stuck_def id_missing_def create_table_if_def)

lemma keeps_tx: "keeps_stuck (sql_savepoint n)" "keeps_stuck (sql_release n)" "keeps_stuck sql_rollback"
  by (auto simp: keeps_stuck_def stuck_def sql_savepoint_def sql_release_def sql_rollback_def commit_tx_def
      commitHook_def rollbackHook_def split: if_splits list.splits option.splits)

lemma keeps_rollback_all: "0 \<le> rc \<Longrightarrow> keeps_stuck (\<lambda>c. (rc, rollback_all c))"
  using keeps_exec(1) [OF keeps_tx(3)] by (simp add: keeps_stuck_def rollback_all_def)

lemma keeps_schema: "keeps_stuck createSchemaTableIfNotExists"
  unfolding createSchemaTableIfNotExists_def [abs_def] Let_def
  by (intro keeps_seq keeps_if keeps_exec keeps_create keeps_tx keeps_rollback_all)

lemma stuck_ext: "stuck (c\<lparr>ext := x\<rparr>) = stuck c" "stuck (upd_ext f c) = stuck c"
  by (simp_all add: stuck_def)

lemma fetch_data_stuck: "stuck c \<Longrightarrow> stuck (snd (crsql_fetchPragmaDataVersion c))"
  using keeps_call
  by (auto simp: crsql_fetchPragmaDataVersion_def step_perma_def Let_def keeps_stuck_def stuck_ext split_def)

lemma newExtData_stuck:
  assumes "stuck c" and "crsql_newExtData mem_site c = (ok, c')"
  shows "stuck c'"
proof -
  obtain r1 c1 where 1: "sql_call c = (r1, c1)" by (cases "sql_call c")
  obtain r2 c2 where 2: "sql_call c1 = (r2, c2)" by (cases "sql_call c1")
  obtain r3 c3 where 3: "sql_call c2 = (r3, c3)" by (cases "sql_call c2")
  have s: "stuck c1" "stuck c2" "stuck c3"
    using keeps_stuckD [OF keeps_call] assms(1) 1 2 3 by blast+
  then show ?thesis
    using assms(2) 1 2 3 fetch_data_stuck [of "c3\<lparr>ext := fresh_ext mem_site\<rparr>"]
    by (auto simp: crsql_newExtData_def stuck_ext split_def Let_def split: if_splits)
qed

lemma initSiteId_stuck:
  assumes "stuck c"
  shows "\<exists>rc c'. initSiteId E rnd c = Some (rc, c') \<and> 0 < rc \<and> stuck c'"
proof -
  obtain n c1 where n: "crsql_doesTableExist TBL_SITE_ID c = (n, c1)" by (cases "crsql_doesTableExist TBL_SITE_ID c")
  have call: "0 \<le> rc \<and> stuck c'" if "stuck c" "sql_call c = (rc, c')" for c rc c'
    using keeps_stuckD [OF keeps_call that] .
  have "filter (\<lambda>m. m = TBL_SITE_ID) (db_master (db c)) \<noteq> []" if "stuck c" for c
    using that by (auto simp: filter_empty_conv stuck_def id_missing_def)
  note present = this
  obtain a ca where a: "sql_call c = (a, ca)" by (cases "sql_call c")
  obtain b cb where b: "sql_call ca = (b, cb)" by (cases "sql_call ca")
  have ab: "0 \<le> a" "stuck ca" "0 \<le> b" "stuck cb" using call [OF assms a] call [OF _ b] by auto
  then have 1: "n \<noteq> 0" "stuck c1"
    using n a b present [OF ab(4)]
    by (auto simp: crsql_doesTableExist_def crsql_getCount_def run_query_def count_query_def split: if_splits)
  obtain f2 c2 where 2: "sql_call c1 = (f2, c2)" by (cases "sql_call c1")
  obtain f3 c3 where 3: "sql_call c2 = (f3, c3)" by (cases "sql_call c2")
  have s: "0 \<le> f2" "stuck c2" "0 \<le> f3" "stuck c3" using call [OF 1(2) 2] call [OF _ 3] by auto
  then have "TBL_SITE_ID \<in> set (db_master (db c2))" "db_site_ids (db c3) = []" by (auto simp: stuck_def id_missing_def)
  then show ?thesis using n 1(1) 2 3 s by (auto simp: initSiteId_def)
qed

lemma add_function_failed: "rc \<noteq> SQLITE_OK \<Longrightarrow> add_function n (rc, rg, c) = (rc, rg, c)"
  "rc \<noteq> SQLITE_OK \<Longrightarrow> add_owner n (rc, rg, c) = (rc, rg, c)" "rc \<noteq> SQLITE_OK \<Longrightarrow> add_module n (rc, rg, c) = (rc, rg, c)"
  by (simp_all add: add_function_def add_owner_def add_module_def)

lemma newExtData_ok:
  assumes "faults c = []" and "''crsql_tracked_peers'' \<in> set (db_master (db c))"
  shows "crsql_newExtData mem_site c =
    (True, c\<lparr>ext := (fresh_ext mem_site)\<lparr>pragmaDataVersion := db_data_version (db c)\<rparr>\<rparr>)"
  using assms
  by (simp add: crsql_newExtData_def crsql_fetchPragmaDataVersion_def step_perma_def fresh_ext_def Let_def upd_ext_def)

text \<open>Loading the extension on such a database fails whatever happens, and leaves it such.\<close>

lemma load_without_id:
  assumes "stuck c"
  shows "\<exists>rc rg' c'. sqlite3_crsqlite_init E rnd mem_site rust rg c = Some (rc, rg', c') \<and> rc \<noteq> SQLITE_OK \<and>
    rg_functions rg' = rg_functions rg \<and> rg_modules rg' = rg_modules rg \<and> rg_hooks rg' = rg_hooks rg \<and> stuck c'"
proof -
  obtain r1 c1 where 1: "initPeerTrackingTable c = (r1, c1)" by (cases "initPeerTrackingTable c")
  have s1: "stuck c1" using keeps_stuckD [OF keeps_exec(2) [OF keeps_peers] assms] 1 by (auto simp: initPeerTrackingTable_def)
  obtain ok c2 where 2: "crsql_newExtData mem_site c1 = (ok, c2)" by (cases "crsql_newExtData mem_site c1")
  have s2: "stuck c2" using newExtData_stuck [OF s1 2] .
  obtain r3 c3 where 3: "initSiteId E rnd c2 = Some (r3, c3)" "0 < r3" "stuck c3" using initSiteId_stuck [OF s2] by blast
  obtain r4 c4 where 4: "createSchemaTableIfNotExists c3 = (r4, c4)" by (cases "createSchemaTableIfNotExists c3")
  have s4: "0 \<le> r4" "stuck c4" using keeps_stuckD [OF keeps_schema 3(3) 4] by auto
  have "r3 + r4 \<noteq> SQLITE_OK" using 3(2) s4(1) by simp
  then show ?thesis using 1 2 3 4 s1 s2 s4 by (simp add: sqlite3_crsqlite_init_def add_function_failed)
qed

text \<open>What a database becomes: by changes that leave the table of site ids alone and keep the table of
  peers, and by further loads, in which statements may fail again.\<close>

inductive later_db :: "sql_env \<Rightarrow> database \<Rightarrow> database \<Rightarrow> bool" for E d0 where
  start: "later_db E d0 d0"
| use: "later_db E d0 d \<Longrightarrow> db_site_ids d' = db_site_ids d \<Longrightarrow>
    set (db_master d) \<inter> {TBL_SITE_ID, ''crsql_tracked_peers''} \<subseteq> set (db_master d') \<Longrightarrow> later_db E d0 d'"
| load: "later_db E d0 (db c) \<Longrightarrow> tx c = None \<Longrightarrow> list_all (\<lambda>f. 0 \<le> f) (faults c) \<Longrightarrow>
    sqlite3_crsqlite_init E rnd mem_site rust rg c = Some (rc, rg', c') \<Longrightarrow> later_db E d0 (db c')"

lemma later_stuck: "later_db E d0 d \<Longrightarrow> id_missing d0 \<Longrightarrow> id_missing d"
proof (induction rule: later_db.induct)
  case (load c rnd mem_site rust rg rc rg' c')
  then have "stuck c" by (simp add: stuck_def)
  with load_without_id [OF this, of E rnd mem_site rust rg] load.hyps(4) show ?case by (auto simp: stuck_def)
qed (auto simp: id_missing_def)

text \<open>The first load: every call before the INSERT of the site id succeeds, and its \<open>prepare\<close>, \<open>bind\<close> or
  \<open>step\<close> fails.\<close>

lemma first_load:
  assumes "faults c = replicate n 0 @ [f]" and "n \<in> {8, 9, 10}" and "0 < f" and "f \<notin> {SQLITE_ROW, SQLITE_DONE}"
    and "tx c = None" and "TBL_SITE_ID \<notin> set (db_master (db c))" and "TBL_SITE_ID \<notin> set (db_indexes (db c))"
    and "''crsql_tracked_peers'' \<in> set (db_master (db c)) \<or> ''crsql_tracked_peers'' \<notin> set (db_indexes (db c))"
  shows "\<exists>c1 c2 c3. initPeerTrackingTable c = (SQLITE_OK, c1) \<and> crsql_newExtData mem_site c1 = (True, c2) \<and>
    initSiteId E rnd c2 = Some (f, c3) \<and> stuck c3"
proof -
  define c1 where "c1 = snd (initPeerTrackingTable c)"
  obtain m where n: "n = Suc (Suc (Suc (Suc (Suc m))))" "m \<in> {3, 4, 5}" using assms(2) by auto
  have 1: "initPeerTrackingTable c = (SQLITE_OK, c1)" "faults c1 = replicate 4 0 @ replicate m 0 @ [f]" "tx c1 = None"
    "''crsql_tracked_peers'' \<in> set (db_master (db c1))" "TBL_SITE_ID \<notin> set (db_master (db c1))"
    "TBL_SITE_ID \<notin> set (db_indexes (db c1))"
    using assms n(1)
    by (auto simp: c1_def initPeerTrackingTable_def exec_text_def run_exec_def sql_call_def create_table_if_def
        create_table_def bump_schema_def eval_nat_numeral)
  define c2 where "c2 = snd (crsql_newExtData mem_site c1)"
  have 2: "crsql_newExtData mem_site c1 = (True, c2)" "faults c2 = replicate m 0 @ [f]" "db c2 = db c1" "tx c2 = None"
    using 1
    by (auto simp: c2_def crsql_newExtData_def sql_call_def crsql_fetchPragmaDataVersion_def step_perma_def fresh_ext_def
        Let_def eval_nat_numeral)
  have e: "filter (\<lambda>m. m = TBL_SITE_ID) (db_master (db c2)) = []" using 1(5) 2(3) by (auto simp: filter_empty_conv)
  have "\<exists>c3. initSiteId E rnd c2 = Some (f, c3) \<and> db_site_ids (db c3) = [] \<and>
      db_master (db c3) = db_master (db c2) @ [TBL_SITE_ID] \<and> faults c3 = [] \<and> tx c3 = None"
    using n(2) 2 1(5,6) assms(3,4) e
    by (auto simp: initSiteId_def crsql_doesTableExist_def crsql_getCount_def count_query_def run_query_def
        sql_call_def createSiteIdAndSiteIdTable_def create_table_def exec_text_def run_exec_def set_siteId_def
        bump_schema_def eval_nat_numeral)
  then obtain c3 where 3: "initSiteId E rnd c2 = Some (f, c3)" "db_site_ids (db c3) = []"
    "db_master (db c3) = db_master (db c2) @ [TBL_SITE_ID]" "faults c3 = []" "tx c3 = None" by blast
  have "stuck c3" using 3 1(4) 2(3) by (simp add: stuck_def id_missing_def)
  with 1(1) 2(1) 3(1) show ?thesis by blast
qed

text \<open>C35. When the INSERT of the first site id fails, its table has been created all the same and stays
  empty. The load goes on, reports the failure, and the database is lost to the extension: whatever
  is done to it later short of writing or dropping the tables of the extension, including any number of further loads,
  every load on it, even without any failure, finds no id, gives up and registers nothing.\<close>

theorem failed_site_id_is_permanent:
  assumes "faults c = replicate n 0 @ [f]" and "n \<in> {8, 9, 10}" and "0 < f" and "f \<notin> {SQLITE_ROW, SQLITE_DONE}"
    and "tx c = None" and "TBL_SITE_ID \<notin> set (db_master (db c))" and "TBL_SITE_ID \<notin> set (db_indexes (db c))"
    and "''crsql_tracked_peers'' \<in> set (db_master (db c)) \<or> ''crsql_tracked_peers'' \<notin> set (db_indexes (db c))"
  shows "\<exists>rc1 rg1 c1. sqlite3_crsqlite_init E rnd1 mem1 rust1 rg c = Some (rc1, rg1, c1) \<and> rc1 \<noteq> SQLITE_OK \<and>
    (\<forall>c2 rnd2 mem2 rust2 rg2. later_db E (db c1) (db c2) \<longrightarrow> tx c2 = None \<longrightarrow> list_all (\<lambda>f. 0 \<le> f) (faults c2) \<longrightarrow>
      (\<exists>rc3 rg3 c3. sqlite3_crsqlite_init E rnd2 mem2 rust2 rg2 c2 = Some (rc3, rg3, c3) \<and> rc3 \<noteq> SQLITE_OK \<and>
        rg_functions rg3 = rg_functions rg2 \<and> rg_modules rg3 = rg_modules rg2 \<and> rg_hooks rg3 = rg_hooks rg2))"
proof -
  obtain ca cb cc where 1: "initPeerTrackingTable c = (SQLITE_OK, ca)" "crsql_newExtData mem1 ca = (True, cb)"
    "initSiteId E rnd1 cb = Some (f, cc)" "stuck cc"
    using first_load [OF assms] by blast
  obtain r4 cd where 4: "createSchemaTableIfNotExists cc = (r4, cd)" by (cases "createSchemaTableIfNotExists cc")
  have d: "0 \<le> r4" "stuck cd" using keeps_stuckD [OF keeps_schema 1(4) 4] by auto
  then have "f + r4 \<noteq> SQLITE_OK" using assms(3) by simp
  then have "sqlite3_crsqlite_init E rnd1 mem1 rust1 rg c = Some (f + r4, rg\<lparr>rg_ext := Live ()\<rparr>, cd)"
    using 1 4 by (simp add: sqlite3_crsqlite_init_def add_function_failed)
  moreover have "\<exists>rc3 rg3 c3. sqlite3_crsqlite_init E rnd2 mem2 rust2 rg2 c2 = Some (rc3, rg3, c3) \<and> rc3 \<noteq> SQLITE_OK \<and>
        rg_functions rg3 = rg_functions rg2 \<and> rg_modules rg3 = rg_modules rg2 \<and> rg_hooks rg3 = rg_hooks rg2"
    if "later_db E (db cd) (db c2)" "tx c2 = None" "list_all (\<lambda>f. 0 \<le> f) (faults c2)" for c2 rnd2 mem2 rust2 rg2
  proof -
    have "stuck c2" using later_stuck [OF that(1)] d(2) that(2,3) by (simp add: stuck_def)
    from load_without_id [OF this] show ?thesis by blast
  qed
  ultimately show ?thesis using \<open>f + r4 \<noteq> SQLITE_OK\<close> by blast
qed

text \<open>The step of the INSERT fails with \<open>SQLITE_FULL\<close>. The next load fails as well, and so does the one after it.\<close>

theorem failed_site_id_is_permanent_witness:
  "\<exists>rc1 rg1 c1 rc2 rg2 c2 rc3 rg3 c3.
     sqlite3_crsqlite_init no_env (replicate 16 7) [] (\<lambda>c. (SQLITE_OK, c)) empty_registry
       (plain_conn\<lparr>faults := replicate 10 0 @ [13]\<rparr>) = Some (rc1, rg1, c1) \<and> rc1 \<noteq> SQLITE_OK \<and>
     sqlite3_crsqlite_init no_env (replicate 16 8) [] (\<lambda>c. (SQLITE_OK, c)) empty_registry (plain_conn\<lparr>db := db c1\<rparr>) =
       Some (rc2, rg2, c2) \<and> rc2 \<noteq> SQLITE_OK \<and>
     sqlite3_crsqlite_init no_env (replicate 16 9) [] (\<lambda>c. (SQLITE_OK, c)) empty_registry (plain_conn\<lparr>db := db c2\<rparr>) =
       Some (rc3, rg3, c3) \<and> rc3 \<noteq> SQLITE_OK \<and> rg_functions rg3 = []"
proof -
  let ?c = "plain_conn\<lparr>faults := replicate 10 0 @ [13]\<rparr>" and ?rust = "\<lambda>c. (SQLITE_OK, c)"
  have c: "faults ?c = replicate 10 0 @ [13]" "tx ?c = None" "''crsql_tracked_peers'' \<in> set (db_master (db ?c))"
    "TBL_SITE_ID \<notin> set (db_master (db ?c))" "TBL_SITE_ID \<notin> set (db_indexes (db ?c))"
    by (simp_all add: plain_conn_def test_conn_def test_db_def)
  have f: "(10 :: nat) \<in> {8, 9, 10}" "0 < (13 :: int)" "(13 :: int) \<notin> {SQLITE_ROW, SQLITE_DONE}" by simp_all
  obtain rc1 rg1 c1 where 1: "sqlite3_crsqlite_init no_env (replicate 16 7) [] ?rust empty_registry ?c = Some (rc1, rg1, c1)"
    "rc1 \<noteq> SQLITE_OK"
    "\<forall>c2 rnd2 mem2 rust2 rg2. later_db no_env (db c1) (db c2) \<longrightarrow> tx c2 = None \<longrightarrow> list_all (\<lambda>f. 0 \<le> f) (faults c2) \<longrightarrow>
      (\<exists>rc3 rg3 c3. sqlite3_crsqlite_init no_env rnd2 mem2 rust2 rg2 c2 = Some (rc3, rg3, c3) \<and> rc3 \<noteq> SQLITE_OK \<and>
        rg_functions rg3 = rg_functions rg2 \<and> rg_modules rg3 = rg_modules rg2 \<and> rg_hooks rg3 = rg_hooks rg2)"
    using failed_site_id_is_permanent [OF c(1) f c(2,4,5) disjI1 [OF c(3)]] by blast
  have fails: "\<exists>rc3 rg3 c3. sqlite3_crsqlite_init no_env rnd2 [] ?rust empty_registry c2 = Some (rc3, rg3, c3) \<and> rc3 \<noteq> SQLITE_OK \<and>
        rg_functions rg3 = rg_functions empty_registry"
    if "later_db no_env (db c1) (db c2)" "tx c2 = None" "list_all (\<lambda>f. 0 \<le> f) (faults c2)" for c2 rnd2
    using 1(3) that by blast
  let ?c1 = "plain_conn\<lparr>db := db c1\<rparr>"
  have p: "tx (plain_conn\<lparr>db := d\<rparr>) = None" "faults (plain_conn\<lparr>db := d\<rparr>) = []" for d by (simp_all add: plain_simps)
  have l1: "later_db no_env (db c1) (db ?c1)" using later_db.start by simp
  then obtain rc2 rg2 c2 where 2: "sqlite3_crsqlite_init no_env (replicate 16 8) [] ?rust empty_registry ?c1 = Some (rc2, rg2, c2)"
    "rc2 \<noteq> SQLITE_OK" using fails [of ?c1 "replicate 16 8"] p by auto
  have "later_db no_env (db c1) (db (plain_conn\<lparr>db := db c2\<rparr>))" using later_db.load [OF l1 _ _ 2(1)] p by simp
  then obtain rc3 rg3 c3 where "sqlite3_crsqlite_init no_env (replicate 16 9) [] ?rust empty_registry (plain_conn\<lparr>db := db c2\<rparr>) =
      Some (rc3, rg3, c3)" "rc3 \<noteq> SQLITE_OK" "rg_functions rg3 = []"
    using fails [of "plain_conn\<lparr>db := db c2\<rparr>" "replicate 16 9"] p by (auto simp: empty_registry_def)
  with 1 2 show ?thesis by blast
qed

text \<open>When \<^verbatim>\<open>crsql_dbversion\<close> cannot be registered, SQLite releases the data of the extension, but
  \<^verbatim>\<open>crsql_siteid\<close> stays registered with it: the load fails, and calling \<^verbatim>\<open>crsql_siteid()\<close> on the
  connection reads released memory.\<close>

theorem failed_load_leaves_siteid:
  assumes "initPeerTrackingTable c = (SQLITE_OK, c1)" and "crsql_newExtData mem_site c1 = (True, c2)"
    and "initSiteId E rnd c2 = Some (SQLITE_OK, c3)" and "createSchemaTableIfNotExists c3 = (SQLITE_OK, c4)"
    and "faults c4 = 0 # f # fs" and "f \<notin> {SQLITE_OK, SQLITE_ROW, SQLITE_DONE}"
  shows "\<exists>rg' c'. sqlite3_crsqlite_init E rnd mem_site rust rg c = Some (f, rg', c') \<and>
    ''crsql_siteid'' \<in> set (rg_functions rg') \<and> call_siteid rg' c' = None"
  using assms
  by (simp add: sqlite3_crsqlite_init_def add_function_def add_owner_def add_module_def sql_call_def
      freeConnectionExtData_def call_siteid_def)

theorem failed_load_leaves_siteid_witness:
  "\<exists>rg' c'. sqlite3_crsqlite_init no_env (replicate 16 7) [] (\<lambda>c. (SQLITE_OK, c))
     \<lparr>rg_functions = [], rg_modules = [], rg_hooks = False, rg_ext = Null\<rparr>
     (plain_conn\<lparr>faults := replicate 18 0 @ [7]\<rparr>) = Some (7, rg', c') \<and> call_siteid rg' c' = None"
proof -
  let ?c = "plain_conn\<lparr>faults := replicate 18 0 @ [7]\<rparr>"
  define c1 where "c1 = snd (initPeerTrackingTable ?c)"
  define c2 where "c2 = snd (crsql_newExtData [] c1)"
  define c3 where "c3 = snd (the (initSiteId no_env (replicate 16 7) c2))"
  define c4 where "c4 = snd (createSchemaTableIfNotExists c3)"
  note cs = c4_def [unfolded c3_def c2_def c1_def] c3_def [unfolded c2_def c1_def] c2_def [unfolded c1_def] c1_def
  have "fst (initPeerTrackingTable ?c) = SQLITE_OK" "fst (crsql_newExtData [] c1)"
    "map_option fst (initSiteId no_env (replicate 16 7) c2) = Some SQLITE_OK"
    "fst (createSchemaTableIfNotExists c3) = SQLITE_OK" "faults c4 = [0, 7]"
    unfolding cs by code_simp+
  then have "initPeerTrackingTable ?c = (SQLITE_OK, c1)" "crsql_newExtData [] c1 = (True, c2)"
    "initSiteId no_env (replicate 16 7) c2 = Some (SQLITE_OK, c3)"
    "createSchemaTableIfNotExists c3 = (SQLITE_OK, c4)" "faults c4 = 0 # 7 # []"
    by (auto simp: c1_def c2_def c3_def c4_def prod_eq_iff)
  from failed_load_leaves_siteid [OF this, where rust = "\<lambda>c. (SQLITE_OK, c)"
      and rg = "\<lparr>rg_functions = [], rg_modules = [], rg_hooks = False, rg_ext = Null\<rparr>"]
  show ?thesis by auto
qed

section \<open>A load that succeeds\<close>

definition own_tables :: "string list" where
  "own_tables = [''crsql_tracked_peers'', TBL_SITE_ID, TBL_SCHEMA, TBL_SCHEMA_PROPS]"

definition own_indexes :: "string list" where
  "own_indexes = [''__crsql_master_index'', ''__crsql_master_prop_id_index'']"

text \<open>No table has the name of an index of the extension, and the other way round.\<close>

definition names_free :: "database \<Rightarrow> bool" where
  "names_free d \<longleftrightarrow> set own_tables \<inter> set (db_indexes d) = {} \<and> set own_indexes \<inter> set (db_master d) = {}"

text \<open>A database that grew by tables and indexes of the extension.\<close>

definition grown :: "database \<Rightarrow> database \<Rightarrow> bool" where
  "grown d d' \<longleftrightarrow> names_free d' \<and> set (db_master d) \<subseteq> set (db_master d') \<and> db_site_ids d' = db_site_ids d \<and>
     db_user d' = db_user d \<and> db_clock d' = db_clock d \<and>
     (TBL_SITE_ID \<in> set (db_master d') \<longleftrightarrow> TBL_SITE_ID \<in> set (db_master d))"

lemma grown_trans: "grown d1 d2 \<Longrightarrow> grown d2 d3 \<Longrightarrow> grown d1 d3"
  by (auto simp: grown_def)

lemma own_names: "n \<in> set own_tables \<Longrightarrow> n \<notin> set own_indexes"
  by (auto simp: own_tables_def own_indexes_def)

lemma grow_table:
  assumes "names_free (db c)" and "n \<in> set own_tables" and "n \<noteq> TBL_SITE_ID" and "f = (\<lambda>d. d\<lparr>db_peers := p d\<rparr>)"
  shows "\<exists>c'. create_table_if n f c = (SQLITE_OK, c') \<and> grown (db c) (db c') \<and> n \<in> set (db_master (db c')) \<and>
    faults c' = faults c \<and> ext c' = ext c \<and> same_tx c c' \<and> syncBit c' = syncBit c"
proof (cases "n \<in> set (db_master (db c))")
  case True
  with assms(1) show ?thesis by (simp add: create_table_if_def grown_def)
next
  case False
  moreover have "n \<notin> set (db_indexes (db c))" using assms(1,2) by (auto simp: names_free_def)
  ultimately show ?thesis
    using assms(1,3,4) own_names [OF assms(2)]
    by (simp add: create_table_if_def create_table_def grown_def names_free_def bump_schema_def subset_insertI)
qed

lemma grow_index:
  assumes "names_free (db c)" and "n \<in> set own_indexes" and "t \<in> set (db_master (db c))"
  shows "\<exists>c'. create_index_if n t c = (SQLITE_OK, c') \<and> grown (db c) (db c') \<and>
    faults c' = faults c \<and> ext c' = ext c \<and> same_tx c c' \<and> syncBit c' = syncBit c"
proof -
  have "n \<notin> set (db_master (db c))" "n \<notin> set own_tables" using assms(1,2) own_names by (auto simp: names_free_def)
  with assms(1,3) show ?thesis
    by (cases "n \<in> set (db_indexes (db c))")
       (simp_all add: create_index_if_def grown_def names_free_def bump_schema_def)
qed

lemma id_peers: "id = (\<lambda>d. d\<lparr>db_peers := db_peers d\<rparr>)"
  by (simp add: fun_eq_iff)

lemma createSchema_ok:
  assumes "faults c = []" and "tx_wf c" and "names_free (db c)"
  shows "\<exists>c'. createSchemaTableIfNotExists c = (SQLITE_OK, c') \<and> grown (db c) (db c') \<and> faults c' = [] \<and>
    same_tx c c' \<and> siteId (ext c') = siteId (ext c)"
proof -
  let ?c0 = "snd (sql_savepoint ''crsql_create_schema_table'' c)"
  have 0: "run_exec (sql_savepoint ''crsql_create_schema_table'') c = (SQLITE_OK, ?c0)" "faults ?c0 = []"
    "names_free (db ?c0)" "ext ?c0 = ext c" "db ?c0 = db c"
    using savepoint_run [OF assms(1)] assms by (auto simp: savepoint_same)
  obtain c1 where 1: "create_table_if TBL_SCHEMA id ?c0 = (SQLITE_OK, c1)" "grown (db ?c0) (db c1)"
    "TBL_SCHEMA \<in> set (db_master (db c1))" "faults c1 = []" "ext c1 = ext c" "same_tx ?c0 c1"
    using grow_table [of ?c0 TBL_SCHEMA, OF _ _ _ id_peers] 0 by (auto simp: own_tables_def)
  obtain c2 where 2: "create_index_if ''__crsql_master_index'' TBL_SCHEMA c1 = (SQLITE_OK, c2)"
    "grown (db c1) (db c2)" "faults c2 = []" "ext c2 = ext c" "same_tx ?c0 c2"
    using grow_index [of c1 "''__crsql_master_index''" TBL_SCHEMA] 1 by (auto simp: own_indexes_def grown_def)
  obtain c3 where 3: "create_table_if TBL_SCHEMA_PROPS id c2 = (SQLITE_OK, c3)" "grown (db c2) (db c3)"
    "TBL_SCHEMA_PROPS \<in> set (db_master (db c3))" "faults c3 = []" "ext c3 = ext c" "same_tx ?c0 c3"
    using grow_table [of c2 TBL_SCHEMA_PROPS, OF _ _ _ id_peers] 2 by (auto simp: own_tables_def grown_def)
  obtain c4 where 4: "create_index_if ''__crsql_master_prop_id_index'' TBL_SCHEMA_PROPS c3 = (SQLITE_OK, c4)"
    "grown (db c3) (db c4)" "faults c4 = []" "ext c4 = ext c" "same_tx ?c0 c4"
    using grow_index [of c3 "''__crsql_master_prop_id_index''" TBL_SCHEMA_PROPS] 3
    by (auto simp: own_indexes_def grown_def)
  obtain c5 where 5: "run_exec (sql_release ''crsql_create_schema_table'') c4 = (SQLITE_OK, c5)" "db c5 = db c4"
    "same_tx c c5" "faults c5 = []" "siteId (ext c5) = siteId (ext c)"
    using savepoint_release [OF assms(1,2) 4(5,3)] 4(4) by (auto split: if_splits)
  have "grown (db c) (db c5)" using 0(5) 1(2) 2(2) 3(2) 4(2) 5(2) grown_trans by metis
  then show ?thesis
    using 0 1(1,4) 2(1,3) 3(1,4) 4(1) 5 by (simp add: createSchemaTableIfNotExists_def)
qed

text \<open>The site id a database has, or the one made from the random bytes.\<close>

definition site_id_ready :: "database \<Rightarrow> blob \<Rightarrow> blob \<Rightarrow> bool" where
  "site_id_ready d rnd b \<longleftrightarrow> length b = SITE_ID_LEN \<and>
     (if TBL_SITE_ID \<in> set (db_master d) then \<exists>vs. db_site_ids d = VBlob b # vs
      else length rnd = SITE_ID_LEN \<and> b = uuid rnd)"

lemma initSiteId_ready:
  assumes "faults c = []" and "names_free (db c)" and "site_id_ready (db c) rnd b"
  shows "\<exists>c'. initSiteId E rnd c = Some (SQLITE_OK, c') \<and> names_free (db c') \<and> siteId (ext c') = b \<and>
    faults c' = [] \<and> same_tx c c' \<and> TBL_SITE_ID \<in> set (db_master (db c')) \<and> hd (db_site_ids (db c')) = VBlob b \<and>
    db_site_ids (db c') \<noteq> [] \<and> set (db_master (db c)) \<subseteq> set (db_master (db c')) \<and>
    db_user (db c') = db_user (db c) \<and> db_clock (db c') = db_clock (db c)"
proof (cases "TBL_SITE_ID \<in> set (db_master (db c))")
  case True
  then obtain vs where "db_site_ids (db c) = VBlob b # vs" "length b = SITE_ID_LEN"
    using assms(3) by (auto simp: site_id_ready_def)
  with initSiteId_again [OF assms(1) True] show ?thesis using assms True by simp
next
  case False
  have own: "TBL_SITE_ID \<in> set own_tables" by (simp add: own_tables_def)
  have "TBL_SITE_ID \<notin> set (db_indexes (db c))" using assms(2) own by (auto simp: names_free_def)
  moreover have "b = uuid rnd" using assms(3) False by (simp add: site_id_ready_def)
  ultimately show ?thesis
    using initSiteId_first [OF assms(1) False] assms(1,2) own_names [OF own]
    by (auto simp: with_site_id_def bump_schema_def names_free_def)
qed

lemma add_ok: "faults c = [] \<Longrightarrow> add_function n (SQLITE_OK, rg, c) =
    (SQLITE_OK, rg\<lparr>rg_functions := n # rg_functions rg\<rparr>, c)"
  "faults c = [] \<Longrightarrow> add_owner n (SQLITE_OK, rg, c) = (SQLITE_OK, rg\<lparr>rg_functions := n # rg_functions rg\<rparr>, c)"
  "faults c = [] \<Longrightarrow> add_module n (SQLITE_OK, rg, c) = (SQLITE_OK, rg\<lparr>rg_modules := n # rg_modules rg\<rparr>, c)"
  by (simp_all add: add_function_def add_owner_def add_module_def)

text \<open>C23. A load in which no call of SQLite fails, and the bundled extensions load, registers every
  function of the extension, the changes table and the hooks, clears the sync bit and has the
  id of the site: the stored one, or on the first load the one it made. It touches no table of
  the user, and it leaves the database such that the next load does the same and finds the
  same id.\<close>

theorem load_registers_everything:
  assumes "faults c = []" and "tx_wf c" and "names_free (db c)" and "site_id_ready (db c) rnd b"
    and "\<And>c. rust c = (SQLITE_OK, c)"
  shows "\<exists>rg' c'. sqlite3_crsqlite_init E rnd mem_site rust rg c = Some (SQLITE_OK, rg', c') \<and>
    rg_functions rg' = rev [''crsql_siteid'', ''crsql_dbversion'', ''crsql_nextdbversion'', ''crsql_as_crr'',
      ''crsql_begin_alter'', ''crsql_commit_alter'', ''crsql_finalize'', ''crsql_internal_sync_bit''] @
      rg_functions rg \<and>
    ''crsql_changes'' \<in> set (rg_modules rg') \<and> rg_hooks rg' \<and> syncBit c' = 0 \<and>
    call_siteid rg' c' = Some (VBlob b) \<and> db_user (db c') = db_user (db c) \<and> same_tx c c' \<and>
    names_free (db c') \<and> site_id_ready (db c') rnd2 b"
proof -
  have "\<exists>c1. create_table_if ''crsql_tracked_peers'' (\<lambda>d. d\<lparr>db_peers := []\<rparr>) c = (SQLITE_OK, c1) \<and>
      grown (db c) (db c1) \<and> ''crsql_tracked_peers'' \<in> set (db_master (db c1)) \<and>
      faults c1 = faults c \<and> ext c1 = ext c \<and> same_tx c c1 \<and> syncBit c1 = syncBit c"
    by (rule grow_table) (simp_all add: assms(3) own_tables_def)
  then obtain c1 where 1: "initPeerTrackingTable c = (SQLITE_OK, c1)" "grown (db c) (db c1)" "faults c1 = []" "same_tx c c1"
    "''crsql_tracked_peers'' \<in> set (db_master (db c1))"
    using assms(1) by (auto simp: initPeerTrackingTable_def)
  let ?c2 = "c1\<lparr>ext := (fresh_ext mem_site)\<lparr>pragmaDataVersion := db_data_version (db c1)\<rparr>\<rparr>"
  have 2: "crsql_newExtData mem_site c1 = (True, ?c2)" using newExtData_ok [OF 1(3,5)] .
  have "site_id_ready (db ?c2) rnd b" "names_free (db ?c2)"
    using assms(4) 1(2) by (simp_all add: site_id_ready_def grown_def)
  then obtain c3 where 3: "initSiteId E rnd ?c2 = Some (SQLITE_OK, c3)" "names_free (db c3)" "siteId (ext c3) = b"
    "faults c3 = []" "same_tx c c3" "TBL_SITE_ID \<in> set (db_master (db c3))" "hd (db_site_ids (db c3)) = VBlob b"
    "db_site_ids (db c3) \<noteq> []" "db_user (db c3) = db_user (db c)"
    using initSiteId_ready [of ?c2 rnd b E] 1(2-4) by (auto simp: grown_def)
  have "tx_wf c3" using assms(2) 3(5) by (simp add: tx_wf_def)
  then obtain c4 where 4: "createSchemaTableIfNotExists c3 = (SQLITE_OK, c4)" "grown (db c3) (db c4)" "faults c4 = []"
    "same_tx c3 c4" "siteId (ext c4) = b"
    using createSchema_ok [OF 3(4) _ 3(2)] 3(3) by auto
  have len: "length b = SITE_ID_LEN" using assms(4) by (simp add: site_id_ready_def)
  obtain vs where "db_site_ids (db c4) = VBlob b # vs" using 3(7,8) 4(2) by (cases "db_site_ids (db c3)") (auto simp: grown_def)
  moreover have "TBL_SITE_ID \<in> set (db_master (db c4))" using 3(6) 4(2) by (simp add: grown_def)
  ultimately have again: "site_id_ready (db c4) rnd2 b" using len by (simp add: site_id_ready_def)
  define fs where "fs = [''crsql_internal_sync_bit'', ''crsql_finalize'', ''crsql_commit_alter'', ''crsql_begin_alter'',
    ''crsql_as_crr'', ''crsql_nextdbversion'', ''crsql_dbversion'', ''crsql_siteid''] @ rg_functions rg"
  let ?c' = "c4\<lparr>syncBit := 0\<rparr>"
  let ?rg' = "rg\<lparr>rg_ext := Live (), rg_functions := fs, rg_modules := ''crsql_changes'' # rg_modules rg, rg_hooks := True\<rparr>"
  have "sqlite3_crsqlite_init E rnd mem_site rust rg c = Some (SQLITE_OK, ?rg', ?c')"
    using 1(1) 2 3(1) 4(1,3) assms(5) by (simp add: sqlite3_crsqlite_init_def add_ok, simp add: fs_def)
  moreover have "call_siteid ?rg' ?c' = Some (VBlob b)"
    using 4(5) len by (simp add: call_siteid_def siteIdFunc_def fs_def)
  moreover have "names_free (db c4)" "db_user (db c4) = db_user (db c)" using 3(9) 4(2) by (simp_all add: grown_def)
  moreover have "same_tx c ?c'" using 3(5) 4(4) by simp
  ultimately show ?thesis using again
    by (intro exI [of _ ?rg'] exI [of _ ?c']) (simp add: fs_def)
qed

theorem load_registers_everything_witness:
  "\<exists>rg' c'. sqlite3_crsqlite_init no_env (replicate 16 7) [] (\<lambda>c. (SQLITE_OK, c))
     \<lparr>rg_functions = [], rg_modules = [], rg_hooks = False, rg_ext = Null\<rparr> plain_conn = Some (SQLITE_OK, rg', c') \<and>
     rg_hooks rg' \<and> call_siteid rg' c' = Some (VBlob (uuid (replicate 16 7)))"
proof -
  have "names_free (db plain_conn)"
    by (simp add: names_free_def own_tables_def own_indexes_def plain_conn_def test_conn_def test_db_def)
  moreover have "site_id_ready (db plain_conn) (replicate 16 7) (uuid (replicate 16 7))"
    by (simp add: site_id_ready_def uuid_length plain_conn_def test_conn_def test_db_def)
  ultimately show ?thesis
    using load_registers_everything [OF plain_simps(1,3), where rust = "\<lambda>c. (SQLITE_OK, c)"] by fastforce
qed

end
