(* ===== verification/Local_Writes.thy ===== *)
theory Local_Writes imports Sync begin

text \<open>
  Local writes of a replicated table, as the triggers of \<^verbatim>\<open>core/src/triggers.c\<close> record them: they keep
  everything reading and merging rely on, and what they record is what other replicas need to
  follow them.
\<close>

section \<open>The tables of a source\<close>

lemma good_data: "good_table info rows clocks \<Longrightarrow> data_parts info rows clocks"
  by (auto simp: good_table_def data_parts_def good_clock_def clocked_exists_def key_ok_def list_all_iff)

section \<open>Recording a write\<close>

lemma bump_in:
  "k \<in> set (clock_bump pk col v clocks) \<Longrightarrow>
     k = \<lparr>ck_pk = pk, ck_col = col, ck_vrsn = 1, ck_dbv = v, ck_site = None\<rparr> \<or>
     (\<exists>k0 \<in> set clocks. k = k0 \<or> k = k0\<lparr>ck_vrsn := ck_vrsn k0 + 1, ck_dbv := v, ck_site := None\<rparr>)"
  by (auto simp: clock_bump_def split: if_splits)

lemma bump_keys:
  "map ck_pk (clock_bump pk col v clocks) =
     map ck_pk clocks @ (if list_ex (same_clock pk col) clocks then [] else [pk])"
  by (simp add: clock_bump_def)

lemma clocks_distinct_bump:
  assumes "clocks_distinct clocks"
  shows "clocks_distinct (clock_bump pk col v clocks)"
proof (cases "list_ex (same_clock pk col) clocks")
  case True
  define f where "f = (\<lambda>r. if same_clock pk col r
    then r\<lparr>ck_vrsn := ck_vrsn r + 1, ck_dbv := v, ck_site := None\<rparr> else r)"
  have "ck_col (f r) = ck_col r" "ck_pk (f r) = ck_pk r" for r by (simp_all add: f_def)
  moreover have "clock_bump pk col v clocks = map f clocks" using True by (simp add: clock_bump_def f_def)
  ultimately show ?thesis using assms by (simp add: clocks_distinct_def sorted_wrt_map)
next
  case False
  have "\<not> (ck_col k = col \<and> sql_eqs (ck_pk k) pk)" if "k \<in> set clocks" for k
    using False that sql_eqs_sym by (auto simp: list_ex_iff same_clock_def)
  then show ?thesis using False assms by (auto simp: clock_bump_def clocks_distinct_def sorted_wrt_append)
qed

text \<open>Whether a key has a clock.\<close>

definition has_clock :: "sqlval list \<Rightarrow> clock_row list \<Rightarrow> bool" where
  "has_clock p clocks \<longleftrightarrow> list_ex (\<lambda>k. sql_eqs p (ck_pk k)) clocks"

lemma has_clock_keys: "has_clock p clocks \<longleftrightarrow> list_ex (sql_eqs p) (map ck_pk clocks)"
  by (simp add: has_clock_def list_ex_iff)

lemma has_clock_bump: "has_clock p clocks \<Longrightarrow> has_clock p (clock_bump pk col v clocks)"
  unfolding has_clock_keys bump_keys by simp

lemma has_clock_new:
  assumes "not_null pk"
  shows "has_clock pk (clock_bump pk col v clocks)"
proof (cases "list_ex (same_clock pk col) clocks")
  case True
  then have "has_clock pk clocks" by (auto simp: has_clock_def list_ex_iff same_clock_def)
  then show ?thesis by (rule has_clock_bump)
qed (use sql_eqs_refl [OF assms] in \<open>simp add: has_clock_keys bump_keys\<close>)

lemma all_clocked_has: "all_clocked info rows clocks \<longleftrightarrow> list_all (\<lambda>r. has_clock (pk_vals info r) clocks) rows"
  by (simp add: all_clocked_def has_clock_def)

text \<open>The clock of a column of a row that exists, or the delete of any row.\<close>

lemma good_bump:
  assumes "good_table info rows clocks" and "key_ok info pk" and "v > MIN_POSSIBLE_DB_VERSION"
    and "col = DELETE_CID_SENTINEL \<or> col \<in> ci_name ` set (ti_nonPks info) \<and> find_row info rows pk \<noteq> None"
  shows "good_table info rows (clock_bump pk col v clocks)"
proof -
  let ?clocks = "clock_bump pk col v clocks"
  have nn: "not_null pk" using assms(2) by (simp add: key_ok_def)
  have more: "clock_lookup ?clocks p DELETE_CID_SENTINEL \<noteq> None"
    if "clock_lookup clocks p DELETE_CID_SENTINEL \<noteq> None" for p
    using that by (auto simp: lookup_bump [OF nn] split: option.split)
  have "good_clock info rows ?clocks k" if k: "k \<in> set ?clocks" for k
  proof -
    have before: "good_clock info rows clocks k0" if "k0 \<in> set clocks" for k0
      using assms(1) that by (auto simp: good_table_def list_all_iff)
    consider (new) "k = \<lparr>ck_pk = pk, ck_col = col, ck_vrsn = 1, ck_dbv = v, ck_site = None\<rparr>"
      | (old) k0 where "k0 \<in> set clocks" "k = k0 \<or> k = k0\<lparr>ck_vrsn := ck_vrsn k0 + 1, ck_dbv := v, ck_site := None\<rparr>"
      using bump_in [OF k] by metis
    then show ?thesis
    proof cases
      case new
      then show ?thesis
        using assms(2-4) sql_eqs_refl [OF nn] by (auto simp: good_clock_def lookup_bump [OF nn] split: option.split)
    next
      case old
      then show ?thesis using before [OF old(1)] more [of "ck_pk k0"] assms(3) by (auto simp: good_clock_def)
    qed
  qed
  then show ?thesis using assms(1) clocks_distinct_bump by (auto simp: good_table_def list_all_iff)
qed

lemma good_bump_all:
  assumes "good_table info rows clocks" and "key_ok info pk" and "v > MIN_POSSIBLE_DB_VERSION"
    and "fst ` set ss \<subseteq> ci_name ` set (ti_nonPks info)" and "find_row info rows pk \<noteq> None"
  shows "good_table info rows (bump_all pk v ss clocks)"
  using assms(1,4)
proof (induction ss arbitrary: clocks)
  case (Cons s ss)
  obtain col changed where s: "s = (col, changed)" by (cases s)
  have "good_table info rows (if changed then clock_bump pk col v clocks else clocks)"
    using good_bump [OF Cons.prems(1) assms(2,3)] Cons.prems s assms(5) by auto
  moreover have "bump_all pk v (s # ss) clocks = bump_all pk v ss (if changed then clock_bump pk col v clocks else clocks)"
    by (simp add: bump_all_def s)
  ultimately show ?case using Cons.IH Cons.prems(2) by simp
qed (simp add: bump_all_def)

lemma has_clock_bump_all: "has_clock p clocks \<Longrightarrow> has_clock p (bump_all pk v ss clocks)"
  by (induction ss arbitrary: clocks) (auto simp: bump_all_def has_clock_bump)

lemma has_clock_all_new:
  assumes "not_null pk"
  shows "(col, True) \<in> set ss \<Longrightarrow> has_clock pk (bump_all pk v ss clocks)"
proof (induction ss arbitrary: clocks)
  case (Cons s ss)
  then show ?case
    using has_clock_bump_all [OF has_clock_new [OF assms]] by (cases s) (auto simp: bump_all_def)
qed simp

section \<open>Writes make the state larger\<close>

text \<open>The new state is the join of both.\<close>

definition inflates :: "table_info \<Rightarrow> row list \<Rightarrow> clock_row list \<Rightarrow> row list \<Rightarrow> clock_row list \<Rightarrow> bool" where
  "inflates info rows clocks rows' clocks' \<longleftrightarrow>
     (\<forall>pk. join_row (abs_parts info rows' clocks' pk) (abs_parts info rows clocks pk) = abs_parts info rows' clocks' pk)"

lemma inflates_refl: "inflates info rows clocks rows clocks"
  by (simp add: inflates_def)

lemma inflates_trans:
  "inflates info r1 c1 r2 c2 \<Longrightarrow> inflates info r2 c2 r3 c3 \<Longrightarrow> inflates info r1 c1 r3 c3"
  unfolding inflates_def by (metis rowjoin.assoc)

text \<open>Clocks older than \<open>v\<close> were there before, with the same value of their column unless the row is dead.\<close>

definition kept :: "table_info \<Rightarrow> int \<Rightarrow> row list \<Rightarrow> clock_row list \<Rightarrow> row list \<Rightarrow> clock_row list \<Rightarrow> bool" where
  "kept info v rows clocks rows' clocks' \<longleftrightarrow>
     (\<forall>p. (clock_lookup clocks p DELETE_CID_SENTINEL \<noteq> None \<longrightarrow> clock_lookup clocks' p DELETE_CID_SENTINEL \<noteq> None) \<and>
       (\<forall>col k. clock_lookup clocks' p col = Some k \<longrightarrow> ck_dbv k < v \<longrightarrow> clock_lookup clocks p col = Some k \<and>
         (clock_lookup clocks' p DELETE_CID_SENTINEL = None \<longrightarrow> col \<in> ci_name ` set (ti_nonPks info) \<longrightarrow>
            map_option (\<lambda>r. r col) (find_row info rows' p) = map_option (\<lambda>r. r col) (find_row info rows p))))"

lemma kept_refl: "kept info v rows clocks rows clocks"
  by (simp add: kept_def)

lemma keptD:
  assumes "kept info v rows clocks rows' clocks'"
  shows "clock_lookup clocks p DELETE_CID_SENTINEL \<noteq> None \<Longrightarrow> clock_lookup clocks' p DELETE_CID_SENTINEL \<noteq> None"
    and "clock_lookup clocks' p col = Some k \<Longrightarrow> ck_dbv k < v \<Longrightarrow> clock_lookup clocks p col = Some k"
    and "clock_lookup clocks' p col = Some k \<Longrightarrow> ck_dbv k < v \<Longrightarrow> clock_lookup clocks' p DELETE_CID_SENTINEL = None \<Longrightarrow>
      col \<in> ci_name ` set (ti_nonPks info) \<Longrightarrow>
      map_option (\<lambda>r. r col) (find_row info rows' p) = map_option (\<lambda>r. r col) (find_row info rows p)"
  using assms unfolding kept_def by blast+

lemma kept_trans:
  assumes "kept info v r1 c1 r2 c2" and "kept info v r2 c2 r3 c3"
  shows "kept info v r1 c1 r3 c3"
  unfolding kept_def using keptD [OF assms(1)] keptD [OF assms(2)] by metis

definition records :: "table_info \<Rightarrow> int \<Rightarrow> row list \<Rightarrow> clock_row list \<Rightarrow> row list \<Rightarrow> clock_row list \<Rightarrow> bool" where
  "records info v rows clocks rows' clocks' \<longleftrightarrow> inflates info rows clocks rows' clocks' \<and> kept info v rows clocks rows' clocks'"

lemma records_refl: "records info v rows clocks rows clocks"
  by (simp add: records_def inflates_refl kept_refl)

lemma records_trans:
  "records info v r1 c1 r2 c2 \<Longrightarrow> records info v r2 c2 r3 c3 \<Longrightarrow> records info v r1 c1 r3 c3"
  unfolding records_def using inflates_trans kept_trans by blast

lemma lww_first [simp]: "lww None x = x"
  by (simp add: lww_def)

lemma lww_same [simp]: "lww (Some x) x = x"
  by (simp add: lww_def)

lemma lww_newer: "v > w \<Longrightarrow> lww (Some (w, y)) (v, x) = (v, x)"
  by (simp add: lww_def wins_def)

lemma lookup_key_in: "clock_lookup clocks pk col = Some k \<Longrightarrow> k \<in> set clocks \<and> ck_col k = col \<and> sql_eqs pk (ck_pk k)"
  by (auto simp: clock_lookup_def find_Some_iff same_clock_def)

text \<open>A row that does not exist has no clocks unless it was deleted.\<close>

lemma absent_no_clock:
  assumes "good_table info rows clocks" and "find_row info rows pk = None"
    and "clock_lookup clocks pk DELETE_CID_SENTINEL = None"
  shows "clock_lookup clocks pk col = None"
proof (rule ccontr)
  assume "clock_lookup clocks pk col \<noteq> None"
  then obtain k where k: "k \<in> set clocks" "sql_eqs pk (ck_pk k)" using lookup_key_in by blast
  then have "find_row info rows (ck_pk k) = None" using assms(2) find_row_cong [OF k(2)] by simp
  then have "clock_lookup clocks (ck_pk k) DELETE_CID_SENTINEL \<noteq> None"
    using assms(1) k(1) by (auto simp: good_table_def good_clock_def list_all_iff)
  then show False using assms(3) clock_lookup_cong [OF k(2)] by simp
qed

lemma find_row_unique:
  assumes "distinct_keys info rows" and "r \<in> set rows" and "sql_eqs pk (pk_vals info r)"
  shows "find_row info rows pk = Some r"
  using assms
proof (induction rows)
  case (Cons s rows)
  have "sql_eqs pk (pk_vals info s) \<Longrightarrow> s = r"
    using Cons.prems sql_eqs_trans [OF sql_eqs_sym, of pk "pk_vals info s" "pk_vals info r"]
    by (auto simp: distinct_keys_def)
  then show ?case using Cons by (auto simp: find_row_def distinct_keys_def)
qed simp

lemma find_row_in: "find_row info rows pk = Some r \<Longrightarrow> r \<in> set rows"
  by (auto simp: find_row_def find_Some_iff)

lemma good_clock_rows:
  assumes "good_clock info rows clocks k" and "find_row info rows' (ck_pk k) = None \<Longrightarrow> find_row info rows (ck_pk k) = None"
  shows "good_clock info rows' clocks k"
  using assms by (auto simp: good_clock_def)

lemma abs_parts_same:
  assumes "find_row info rows' pk = find_row info rows pk" and "clock_lookup clocks' pk = clock_lookup clocks pk"
  shows "abs_parts info rows' clocks' pk = abs_parts info rows clocks pk"
  unfolding abs_parts_def assms ..

lemma insert_good:
  assumes "good_table info rows clocks" and "names_ok info" and "distinct (map ci_name (ti_nonPks info))"
    and "key_ok info (pk_vals info r)" and "vals_ok info r" and "find_row info rows (pk_vals info r) = None"
    and "v > MIN_POSSIBLE_DB_VERSION"
  defines "ss \<equiv> map (\<lambda>k. (ci_name k, True)) (ti_nonPks info)"
  shows "good_table info (rows @ [r]) (bump_all (pk_vals info r) v ss clocks)"
    "records info v rows clocks (rows @ [r]) (bump_all (pk_vals info r) v ss clocks)"
proof -
  let ?pk = "pk_vals info r" and ?rows = "rows @ [r]" and ?clocks = "bump_all (pk_vals info r) v ss clocks"
  have nn: "not_null ?pk" using assms(4) by (simp add: key_ok_def)
  have find: "find_row info ?rows p = (case find_row info rows p of None \<Rightarrow> if sql_eqs p ?pk then Some r else None
      | Some s \<Rightarrow> Some s)" for p
    by (simp add: find_row_def find_append split: option.split)
  have "\<not> sql_eqs (pk_vals info s) ?pk" if "s \<in> set rows" for s
    using assms(6) that sql_eqs_sym [of "pk_vals info s" ?pk] by (auto simp: find_row_def find_None_iff)
  then have "distinct_keys info ?rows"
    using assms(1) nn by (simp add: good_table_def distinct_keys_def sorted_wrt_append)
  moreover have "good_clock info ?rows clocks k" if "k \<in> set clocks" for k
  proof (rule good_clock_rows)
    show "good_clock info rows clocks k" using assms(1) that by (simp add: good_table_def list_all_iff)
    show "find_row info ?rows (ck_pk k) = None \<Longrightarrow> find_row info rows (ck_pk k) = None"
      by (simp add: find split: option.splits)
  qed
  ultimately have "good_table info ?rows clocks"
    using assms(1,5) by (simp add: good_table_def list_all_iff)
  moreover have "find_row info ?rows ?pk \<noteq> None" using assms(6) sql_eqs_refl [OF nn] by (simp add: find)
  ultimately show "good_table info ?rows ?clocks"
    using good_bump_all [OF _ assms(4,7)] by (simp add: ss_def image_image)
  have dist: "distinct (map fst ss)" using assms(3) by (simp add: ss_def comp_def)
  have look: "clock_lookup ?clocks p DELETE_CID_SENTINEL = clock_lookup clocks p DELETE_CID_SENTINEL" for p
    using assms(2) unfolding lookup_bump_all [OF nn dist] by (auto simp: ss_def names_ok_def)
  have "join_row (abs_parts info ?rows ?clocks p) (abs_parts info rows clocks p) = abs_parts info ?rows ?clocks p" for p
  proof (cases "sql_eqs p ?pk")
    case False
    then have "abs_parts info ?rows ?clocks p = abs_parts info rows clocks p"
      by (intro abs_parts_same ext) (auto simp: find lookup_bump_all [OF nn dist] split: option.split)
    then show ?thesis by simp
  next
    case True
    then have none: "find_row info rows p = None" using assms(6) find_row_cong [OF True] by simp
    show ?thesis
    proof (cases "clock_lookup clocks p DELETE_CID_SENTINEL")
      case None
      with absent_no_clock [OF assms(1) none] show ?thesis
        by (auto simp: abs_parts_def look none find True fun_eq_iff split: option.split)
    qed (simp add: abs_parts_def look)
  qed
  then have "inflates info rows clocks ?rows ?clocks" by (simp add: inflates_def)
  moreover have "kept info v rows clocks ?rows ?clocks"
    unfolding kept_def look unfolding lookup_bump_all [OF nn dist] find
    by (auto simp: ss_def split: option.splits)
  ultimately show "records info v rows clocks ?rows ?clocks" by (simp add: records_def)
qed

text \<open>The columns an update changes without their trigger noticing; \<open>recorded\<close>: there are none.\<close>

definition recorded :: "table_info \<Rightarrow> row \<Rightarrow> row \<Rightarrow> bool" where
  "recorded info old new \<longleftrightarrow>
     list_all (\<lambda>k. new (ci_name k) = old (ci_name k) \<or> sql_neq (new (ci_name k)) (old (ci_name k))) (ti_nonPks info)"

lemma update_good:
  assumes "good_table info rows clocks" and "names_ok info" and "distinct (map ci_name (ti_nonPks info))"
    and "old \<in> set rows" and "key_ok info (pk_vals info old)" and "pk_vals info new = pk_vals info old"
    and "vals_ok info new" and "v > MIN_POSSIBLE_DB_VERSION"
  defines "ss \<equiv> map (\<lambda>k. (ci_name k, sql_neq (new (ci_name k)) (old (ci_name k)))) (ti_nonPks info)"
    and "rows' \<equiv> map (\<lambda>r. if sql_eqs (pk_vals info old) (pk_vals info r) then new else r) rows"
  shows "good_table info rows' (bump_all (pk_vals info old) v ss clocks)"
    "recorded info old new \<Longrightarrow> records info v rows clocks rows' (bump_all (pk_vals info old) v ss clocks)"
proof -
  let ?pk = "pk_vals info old" and ?clocks = "bump_all (pk_vals info old) v ss clocks"
  let ?g = "\<lambda>r. if sql_eqs ?pk (pk_vals info r) then new else r"
  have nn: "not_null ?pk" using assms(5) by (simp add: key_ok_def)
  have dk: "distinct_keys info rows" using assms(1) by (simp add: good_table_def)
  have key: "sql_eqs p (pk_vals info (?g r)) = sql_eqs p (pk_vals info r)" for p r
    using sql_eqs_cong [of ?pk "pk_vals info r" p] assms(6) by simp
  have find: "find_row info rows' p = map_option ?g (find_row info rows p)" for p
    unfolding find_row_def rows'_def by (rule find_map_key) (rule key)
  have uniq: "find_row info rows p = Some old" if "sql_eqs p ?pk" for p
    using find_row_unique [OF dk assms(4) that] .
  have same: "r = old" if "r \<in> set rows" "sql_eqs ?pk (pk_vals info r)" for r
    using find_row_unique [OF dk that] uniq [OF sql_eqs_refl [OF nn]] by simp
  have pks: "pk_vals info (?g r) = pk_vals info r" if "r \<in> set rows" for r
    using same [OF that] assms(6) by auto
  then have "map (pk_vals info) rows' = map (pk_vals info) rows" by (simp add: rows'_def)
  moreover have "distinct_keys info xs \<longleftrightarrow> list_all not_null (map (pk_vals info) xs) \<and>
      sorted_wrt (\<lambda>p q. \<not> sql_eqs p q) (map (pk_vals info) xs)" for xs
    by (simp add: distinct_keys_def list_all_iff sorted_wrt_map)
  ultimately have "distinct_keys info rows'" using dk by simp
  moreover have "good_clock info rows' clocks k" if "k \<in> set clocks" for k
  proof (rule good_clock_rows)
    show "good_clock info rows clocks k" using assms(1) that by (simp add: good_table_def list_all_iff)
    show "find_row info rows' (ck_pk k) = None \<Longrightarrow> find_row info rows (ck_pk k) = None" by (simp add: find)
  qed
  ultimately have "good_table info rows' clocks"
    using assms(1,7) by (auto simp: good_table_def list_all_iff rows'_def)
  moreover have "find_row info rows' ?pk \<noteq> None" using uniq sql_eqs_refl [OF nn] by (simp add: find)
  ultimately show "good_table info rows' ?clocks"
    using good_bump_all [OF _ assms(5,8)] by (simp add: ss_def image_image)
  have dist: "distinct (map fst ss)" using assms(3) by (simp add: ss_def comp_def)
  have look: "clock_lookup ?clocks p DELETE_CID_SENTINEL = clock_lookup clocks p DELETE_CID_SENTINEL" for p
    using assms(2) unfolding lookup_bump_all [OF nn dist] by (auto simp: ss_def names_ok_def)
  assume rec: "recorded info old new"
  have "join_row (abs_parts info rows' ?clocks p) (abs_parts info rows clocks p) = abs_parts info rows' ?clocks p" for p
  proof (cases "sql_eqs p ?pk")
    case False
    have "?g r = r" if "find_row info rows p = Some r" for r
      using that False same [of r] by (auto simp: find_row_def find_Some_iff)
    then have "find_row info rows' p = find_row info rows p" unfolding find by (cases "find_row info rows p") auto
    then have "abs_parts info rows' ?clocks p = abs_parts info rows clocks p"
      using False by (intro abs_parts_same ext) (simp_all add: lookup_bump_all [OF nn dist])
    then show ?thesis by simp
  next
    case True
    have f1: "find_row info rows p = Some old" "find_row info rows' p = Some new"
      using uniq [OF True] sql_eqs_refl [OF nn] by (simp_all add: find)
    have cols: "(case clock_lookup ?clocks p col of None \<Rightarrow> clock_lookup clocks p col = None
      | Some k \<Rightarrow> (case clock_lookup clocks p col of None \<Rightarrow> True
          | Some k0 \<Rightarrow> ck_vrsn k > ck_vrsn k0 \<or> ck_vrsn k = ck_vrsn k0 \<and> new col = old col))"
      if "col \<in> ci_name ` set (ti_nonPks info)" for col
    proof -
      have "(col, True) \<in> set ss \<or> new col = old col"
        using that rec by (auto simp: ss_def recorded_def list_all_iff image_iff)
      with True clock_lookup_cong [OF True, of clocks col] show ?thesis
        unfolding lookup_bump_all [OF nn dist] by (auto split: option.split)
    qed
    show ?thesis
    proof (cases "clock_lookup clocks p DELETE_CID_SENTINEL")
      case None
      have col: "(case map_option (\<lambda>k. (ck_vrsn k, cell_text (find_row info rows' p) col)) (clock_lookup ?clocks p col) of
          None \<Rightarrow> map_option (\<lambda>k. (ck_vrsn k, cell_text (find_row info rows p) col)) (clock_lookup clocks p col)
        | Some x \<Rightarrow> Some (lww (map_option (\<lambda>k. (ck_vrsn k, cell_text (find_row info rows p) col))
            (clock_lookup clocks p col)) x)) =
        map_option (\<lambda>k. (ck_vrsn k, cell_text (find_row info rows' p) col)) (clock_lookup ?clocks p col)"
        if "col \<in> ci_name ` set (ti_nonPks info)" for col
        using cols [OF that] by (auto simp: f1 lww_newer cell_text_def split: option.splits)
      have "find_row info rows p \<noteq> None" "find_row info rows' p \<noteq> None" by (simp_all add: f1)
      then show ?thesis using None col by (simp add: abs_parts_def look fun_eq_iff)
    qed (simp add: abs_parts_def look)
  qed
  then have "inflates info rows clocks rows' ?clocks" by (simp add: inflates_def)
  moreover have "kept info v rows clocks rows' ?clocks"
    unfolding kept_def look
  proof (intro allI conjI impI)
    fix p col k
    assume k: "clock_lookup ?clocks p col = Some k" "ck_dbv k < v"
    then have old: "\<not> (sql_eqs p ?pk \<and> (col, True) \<in> set ss)"
      by (auto simp: lookup_bump_all [OF nn dist] split: option.splits)
    with k show "clock_lookup clocks p col = Some k" by (simp add: lookup_bump_all [OF nn dist])
    assume col: "col \<in> ci_name ` set (ti_nonPks info)"
    show "map_option (\<lambda>r. r col) (find_row info rows' p) = map_option (\<lambda>r. r col) (find_row info rows p)"
    proof (cases "sql_eqs p ?pk")
      case True
      with old have "(col, True) \<notin> set ss" by simp
      then have "new col = old col" using col rec by (auto simp: ss_def recorded_def list_all_iff image_iff)
      with uniq [OF True] show ?thesis by (simp add: find)
    next
      case False
      have "?g r = r" if "find_row info rows p = Some r" for r
        using that False same [of r] by (auto simp: find_row_def find_Some_iff)
      then show ?thesis unfolding find by (cases "find_row info rows p") auto
    qed
  qed
  ultimately show "records info v rows clocks rows' ?clocks" by (simp add: records_def)
qed

lemma delete_good:
  assumes "good_table info (keep @ r # rs) clocks" and "key_ok info (pk_vals info r)"
    and "v > MIN_POSSIBLE_DB_VERSION"
  defines "clocks' \<equiv> clock_bump (pk_vals info r) DELETE_CID_SENTINEL v clocks"
  shows "good_table info (keep @ rs) clocks'" "records info v (keep @ r # rs) clocks (keep @ rs) clocks'"
proof -
  let ?pk = "pk_vals info r" and ?rows = "keep @ r # rs"
  have nn: "not_null ?pk" using assms(2) by (simp add: key_ok_def)
  have good: "good_table info ?rows clocks'" using good_bump [OF assms(1-3)] by (simp add: clocks'_def)
  have dead: "clock_lookup clocks' p DELETE_CID_SENTINEL \<noteq> None" if "sql_eqs p ?pk" for p
    using that by (auto simp: clocks'_def lookup_bump [OF nn] split: option.split)
  have find: "find_row info ?rows p = find_row info (keep @ rs) p" if "\<not> sql_eqs p ?pk" for p
    using that by (simp add: find_row_def find_append split: option.split)
  have "good_clock info (keep @ rs) clocks' k" if "k \<in> set clocks'" for k
  proof -
    have g: "good_clock info ?rows clocks' k" using good that by (simp add: good_table_def list_all_iff)
    show ?thesis
    proof (cases "sql_eqs (ck_pk k) ?pk")
      case True
      with g dead [OF True] show ?thesis unfolding good_clock_def by blast
    next
      case False
      with g find [OF False] show ?thesis by (simp add: good_clock_def)
    qed
  qed
  moreover have "distinct_keys info (keep @ rs)"
    using assms(1) by (simp add: good_table_def distinct_keys_def sorted_wrt_append)
  ultimately show "good_table info (keep @ rs) clocks'"
    using good by (simp add: good_table_def list_all_iff)
  have "join_row (abs_parts info (keep @ rs) clocks' p) (abs_parts info ?rows clocks p) =
      abs_parts info (keep @ rs) clocks' p" for p
  proof (cases "sql_eqs p ?pk")
    case True
    then have "abs_parts info (keep @ rs) clocks' p = Dead" using dead by (simp add: abs_parts_def)
    then show ?thesis by simp
  next
    case False
    have "clock_lookup clocks' p = clock_lookup clocks p"
      using False by (intro ext) (simp add: clocks'_def lookup_bump [OF nn])
    then have "abs_parts info (keep @ rs) clocks' p = abs_parts info ?rows clocks p"
      using find [OF False] by (intro abs_parts_same) simp_all
    then show ?thesis by simp
  qed
  then have "inflates info ?rows clocks (keep @ rs) clocks'" by (simp add: inflates_def)
  moreover have "kept info v ?rows clocks (keep @ rs) clocks'"
    unfolding kept_def
  proof (intro allI conjI impI)
    fix p col k
    show "clock_lookup clocks p DELETE_CID_SENTINEL \<noteq> None \<Longrightarrow> clock_lookup clocks' p DELETE_CID_SENTINEL \<noteq> None"
      by (auto simp: clocks'_def lookup_bump [OF nn] split: option.split)
    assume k: "clock_lookup clocks' p col = Some k" "ck_dbv k < v"
    then show "clock_lookup clocks p col = Some k"
      by (auto simp: clocks'_def lookup_bump [OF nn] split: if_splits option.splits)
    assume "clock_lookup clocks' p DELETE_CID_SENTINEL = None"
    then have "\<not> sql_eqs p ?pk" using dead by blast
    then show "map_option (\<lambda>r. r col) (find_row info (keep @ rs) p) = map_option (\<lambda>r. r col) (find_row info ?rows p)"
      using find by simp
  qed
  ultimately show "records info v ?rows clocks (keep @ rs) clocks'" by (simp add: records_def)
qed

section \<open>Statements of the user\<close>

datatype local_op = Insert_row row | Update_key "sqlval list" "row \<Rightarrow> row" | Delete_where "row \<Rightarrow> bool"

text \<open>\<^verbatim>\<open>INSERT\<close>, \<^verbatim>\<open>UPDATE ... WHERE\<close> the key has a value, \<^verbatim>\<open>DELETE ... WHERE\<close>.\<close>

fun local_write :: "table_info \<Rightarrow> local_op \<Rightarrow> conn \<Rightarrow> (int \<times> conn) option" where
  "local_write info (Insert_row r) c = local_insert (ti_tblName info) r c"
| "local_write info (Update_key pk f) c =
     (case find_row info (user_rows (db c) (ti_tblName info)) pk of
        None \<Rightarrow> Some (SQLITE_OK, c)
      | Some old \<Rightarrow> local_update (ti_tblName info) old f c)"
| "local_write info (Delete_where P) c = local_delete (ti_tblName info) P c"

text \<open>The values are finite, keys are not NULL, and an update leaves the key alone.\<close>

fun op_fits :: "table_info \<Rightarrow> database \<Rightarrow> local_op \<Rightarrow> bool" where
  "op_fits info d (Insert_row r) \<longleftrightarrow> key_ok info (pk_vals info r) \<and> vals_ok info r"
| "op_fits info d (Update_key pk f) \<longleftrightarrow>
     (case find_row info (user_rows d (ti_tblName info)) pk of
        None \<Rightarrow> True
      | Some old \<Rightarrow> key_ok info (pk_vals info old) \<and> pk_vals info (f old) = pk_vals info old \<and> vals_ok info (f old))"
| "op_fits info d (Delete_where P) \<longleftrightarrow> list_all (\<lambda>r. key_ok info (pk_vals info r)) (user_rows d (ti_tblName info))"

text \<open>No column changes to or from NULL, or to an equal value of another form.\<close>

fun op_recorded :: "table_info \<Rightarrow> database \<Rightarrow> local_op \<Rightarrow> bool" where
  "op_recorded info d (Update_key pk f) \<longleftrightarrow>
     (case find_row info (user_rows d (ti_tblName info)) pk of
        None \<Rightarrow> True
      | Some old \<Rightarrow> recorded info old (f old))"
| "op_recorded info d _ \<longleftrightarrow> True"

text \<open>What a statement does to a table; \<open>b\<close>: the change is recorded.\<close>

definition table_step :: "bool \<Rightarrow> table_info \<Rightarrow> conn \<Rightarrow> conn \<Rightarrow> bool" where
  "table_step b info c c' \<longleftrightarrow> writable info c' \<and> quiet c c' \<and> current_version c' = current_version c \<and>
     (let n = ti_tblName info; rows = user_rows (db c) n; clocks = clock_rows (db c) n in
      \<exists>f g. db c' = upd_clock (clock_name n) g (upd_rows n f (db c)) \<and> good_table info (f rows) (g clocks) \<and>
        all_clocked info (f rows) (g clocks) \<and> (b \<longrightarrow> records info (current_version c + 1) rows clocks (f rows) (g clocks)))"

lemma table_stepI:
  assumes "writable info c'" and "quiet c c'" and "current_version c' = current_version c"
    and "db c' = upd_clock (clock_name (ti_tblName info)) g (upd_rows (ti_tblName info) f (db c))"
    and "good_table info (f (user_rows (db c) (ti_tblName info))) (g (clock_rows (db c) (ti_tblName info)))"
    and "all_clocked info (f (user_rows (db c) (ti_tblName info))) (g (clock_rows (db c) (ti_tblName info)))"
    and "b \<Longrightarrow> records info (current_version c + 1) (user_rows (db c) (ti_tblName info)) (clock_rows (db c) (ti_tblName info))
      (f (user_rows (db c) (ti_tblName info))) (g (clock_rows (db c) (ti_tblName info)))"
  shows "table_step b info c c'"
  using assms unfolding table_step_def Let_def by (intro conjI exI [of _ f] exI [of _ g]) simp_all

definition good_conn :: "table_info \<Rightarrow> conn \<Rightarrow> bool" where
  "good_conn info c \<longleftrightarrow> writable info c \<and> schema_inv info (db c) \<and>
     good_table info (user_rows (db c) (ti_tblName info)) (clock_rows (db c) (ti_tblName info)) \<and>
     all_clocked info (user_rows (db c) (ti_tblName info)) (clock_rows (db c) (ti_tblName info))"

lemma upd_rows_twice: "upd_rows n f (upd_rows n g d) = upd_rows n (f \<circ> g) d"
  by (simp add: upd_rows_def option.map_comp comp_def)

lemma upd_rows_clock: "upd_rows n f (upd_clock m g d) = upd_clock m g (upd_rows n f d)"
  by (simp add: upd_rows_def upd_clock_def)

lemma table_step_refl: "good_conn info c \<Longrightarrow> table_step b info c c"
proof -
  assume g: "good_conn info c"
  have "db c = upd_clock (clock_name (ti_tblName info)) (\<lambda>x. x) (upd_rows (ti_tblName info) (\<lambda>x. x) (db c))"
    by (simp add: upd_clock_id upd_rows_id')
  then show ?thesis
    using g records_refl unfolding table_step_def good_conn_def Let_def by (simp, intro exI [of _ "\<lambda>x. x"]) auto
qed

lemma table_step_rows:
  assumes "good_conn info c" and "table_step b info c c'"
  obtains f g where "db c' = upd_clock (clock_name (ti_tblName info)) g (upd_rows (ti_tblName info) f (db c))"
    "user_rows (db c') (ti_tblName info) = f (user_rows (db c) (ti_tblName info))"
    "clock_rows (db c') (ti_tblName info) = g (clock_rows (db c) (ti_tblName info))"
    "good_table info (f (user_rows (db c) (ti_tblName info))) (g (clock_rows (db c) (ti_tblName info)))"
    "all_clocked info (f (user_rows (db c) (ti_tblName info))) (g (clock_rows (db c) (ti_tblName info)))"
    "b \<Longrightarrow> records info (current_version c + 1) (user_rows (db c) (ti_tblName info)) (clock_rows (db c) (ti_tblName info))
      (f (user_rows (db c) (ti_tblName info))) (g (clock_rows (db c) (ti_tblName info)))"
proof -
  have "db_user (db c) (ti_tblName info) \<noteq> None" "db_clock (db c) (clock_name (ti_tblName info)) \<noteq> None"
    using assms(1) by (auto simp: good_conn_def elim: schema_invE)
  then have "user_rows (upd_clock m g (upd_rows (ti_tblName info) f (db c))) (ti_tblName info) =
      f (user_rows (db c) (ti_tblName info))"
    "clock_rows (upd_clock (clock_name (ti_tblName info)) g (upd_rows m' f (db c))) (ti_tblName info) =
      g (clock_rows (db c) (ti_tblName info))" for f g m m'
    by (auto simp: user_rows_def clock_rows_def)
  with assms(2) that show thesis unfolding table_step_def Let_def by metis
qed

lemma table_step_good: "good_conn info c \<Longrightarrow> table_step b info c c' \<Longrightarrow> good_conn info c'"
proof -
  assume a: "good_conn info c" "table_step b info c c'"
  from table_step_rows [OF a] obtain f g where
    fg: "db c' = upd_clock (clock_name (ti_tblName info)) g (upd_rows (ti_tblName info) f (db c))"
    "user_rows (db c') (ti_tblName info) = f (user_rows (db c) (ti_tblName info))"
    "clock_rows (db c') (ti_tblName info) = g (clock_rows (db c) (ti_tblName info))"
    "good_table info (f (user_rows (db c) (ti_tblName info))) (g (clock_rows (db c) (ti_tblName info)))"
    "all_clocked info (f (user_rows (db c) (ti_tblName info))) (g (clock_rows (db c) (ti_tblName info)))" by metis
  have "schema_inv info (db c')" using a(1) by (simp add: good_conn_def fg(1))
  moreover have "writable info c'" using a(2) by (simp add: table_step_def)
  ultimately show ?thesis using fg(2-5) by (simp add: good_conn_def)
qed

lemma table_step_trans:
  assumes "good_conn info c1" and "table_step b info c1 c2" and "table_step b info c2 c3"
  shows "table_step b info c1 c3"
proof -
  let ?n = "ti_tblName info"
  from table_step_rows [OF assms(1,2)] obtain f g where
    1: "db c2 = upd_clock (clock_name ?n) g (upd_rows ?n f (db c1))"
    "user_rows (db c2) ?n = f (user_rows (db c1) ?n)" "clock_rows (db c2) ?n = g (clock_rows (db c1) ?n)"
    "b \<Longrightarrow> records info (current_version c1 + 1) (user_rows (db c1) ?n) (clock_rows (db c1) ?n) (user_rows (db c2) ?n) (clock_rows (db c2) ?n)"
    by metis
  from table_step_rows [OF table_step_good [OF assms(1,2)] assms(3)] obtain f' g' where
    2: "db c3 = upd_clock (clock_name ?n) g' (upd_rows ?n f' (db c2))"
    "good_table info (f' (user_rows (db c2) ?n)) (g' (clock_rows (db c2) ?n))"
    "all_clocked info (f' (user_rows (db c2) ?n)) (g' (clock_rows (db c2) ?n))"
    "b \<Longrightarrow> records info (current_version c2 + 1) (user_rows (db c2) ?n) (clock_rows (db c2) ?n)
      (f' (user_rows (db c2) ?n)) (g' (clock_rows (db c2) ?n))"
    by metis
  have "db c3 = upd_clock (clock_name ?n) (g' \<circ> g) (upd_rows ?n (f' \<circ> f) (db c1))"
    by (simp add: 1(1) 2(1) upd_rows_clock upd_rows_twice upd_clock_comp)
  moreover have "current_version c2 = current_version c1" using assms(2) by (simp add: table_step_def)
  then have "b \<Longrightarrow> records info (current_version c1 + 1) (user_rows (db c1) ?n) (clock_rows (db c1) ?n)
      (f' (user_rows (db c2) ?n)) (g' (clock_rows (db c2) ?n))"
    using 1(4) 2(4) records_trans by auto
  moreover have "writable info c3" "quiet c1 c3" "current_version c3 = current_version c1"
    using assms(2,3) quiet_trans by (auto simp: table_step_def)
  ultimately show ?thesis
    using 1(2,3) 2(2,3) unfolding table_step_def Let_def
    by (intro conjI exI [of _ "f' \<circ> f"] exI [of _ "g' \<circ> g"]) simp_all
qed

lemma good_version: "writable info c \<Longrightarrow> current_version c + 1 > MIN_POSSIBLE_DB_VERSION"
  by (simp add: writable_def)

lemma good_names:
  assumes "good_conn info c"
  obtains t where "db_user (db c) (ti_tblName info) = Some t" "names_ok info"
    "distinct (map ci_name (ti_nonPks info))" "\<And>r s. same_row t r s \<longleftrightarrow> sql_eqs (pk_vals info r) (pk_vals info s)"
    "user_rows (db c) (ti_tblName info) = ut_rows t"
    "\<And>r. not_null (pk_vals info r) \<Longrightarrow> nulls_ok t r"
proof -
  from assms obtain t where t: "db_user (db c) (ti_tblName info) = Some t"
    "crsql_tableInfo (ti_tblName info) (ut_cols t) = Some info" "list_all (\<lambda>k. ci_pk k \<ge> 0) (ut_cols t)"
    "list_all (\<lambda>k. ci_notnull k = 0) (ti_nonPks info)"
    by (auto simp: good_conn_def elim: schema_invE)
  have "names_ok info" using assms schema_names_ok by (auto simp: good_conn_def)
  moreover have "distinct (map ci_name (ti_nonPks info))" using assms by (simp add: good_conn_def writable_def crr_def)
  moreover have "same_row t r s \<longleftrightarrow> sql_eqs (pk_vals info r) (pk_vals info s)" for r s
    by (simp add: same_row_def table_pks_info [OF t(2,3)] pk_vals_def)
  moreover have "nulls_ok t r" if "not_null (pk_vals info r)" for r
    using that t(3,4) unfolding nulls_ok_def list_all_iff
    by (auto simp: tableInfo_parts [OF t(2,3)] pk_vals_def not_null_def image_iff) (metis not_less order_le_less)
  ultimately show thesis using t(1) that by (simp add: user_rows_def)
qed

lemma insert_step:
  assumes "good_conn info c" and "ti_nonPks info \<noteq> []" and "op_fits info (db c) (Insert_row r)"
  shows "\<exists>rc c'. local_insert (ti_tblName info) r c = Some (rc, c') \<and> table_step True info c c'"
proof -
  let ?n = "ti_tblName info"
  from good_names [OF assms(1)] obtain t where t: "db_user (db c) ?n = Some t" "names_ok info"
    "distinct (map ci_name (ti_nonPks info))" "\<And>r s. same_row t r s \<longleftrightarrow> sql_eqs (pk_vals info r) (pk_vals info s)"
    "user_rows (db c) ?n = ut_rows t" "\<And>r. not_null (pk_vals info r) \<Longrightarrow> nulls_ok t r" by metis
  have w: "writable info c" "faults c = []" using assms(1) by (simp_all add: good_conn_def writable_def ready_faults)
  have key: "key_ok info (pk_vals info r)" "vals_ok info r" "not_null (pk_vals info r)"
    using assms(3) by (simp_all add: key_ok_def)
  have good: "good_table info (user_rows (db c) ?n) (clock_rows (db c) ?n)"
    "all_clocked info (user_rows (db c) ?n) (clock_rows (db c) ?n)" using assms(1) by (simp_all add: good_conn_def)
  show ?thesis
  proof (cases "list_ex (same_row t r) (ut_rows t)")
    case True
    then have "local_insert ?n r c = Some (SQLITE_CONSTRAINT, c)"
      using t(1) w(2) by (simp add: local_insert_def run_stmt_def atomic_def)
    then show ?thesis using table_step_refl [OF assms(1)] by blast
  next
    case False
    let ?ss = "map (\<lambda>k. (ci_name k, True)) (ti_nonPks info)"
    let ?g = "bump_all (pk_vals info r) (current_version c + 1) ?ss"
    obtain c' where c': "local_insert ?n r c = Some (SQLITE_OK, c')"
      "db c' = upd_clock (clock_name ?n) ?g (upd_rows ?n (\<lambda>rs. rs @ [r]) (db c))"
      "writable info c'" "current_version c' = current_version c" "quiet c c'"
      using insert_effect [OF w(1) assms(2) t(1) t(6) [OF key(3)] False] by blast
    have "find_row info (user_rows (db c) ?n) (pk_vals info r) = None"
      using False t(4,5) by (auto simp: find_row_def find_None_iff list_ex_iff)
    note ins = insert_good [OF good(1) t(2,3) key(1,2) this good_version [OF w(1)]]
    obtain k where "k \<in> set (ti_nonPks info)" using assms(2) by (cases "ti_nonPks info") auto
    then have "has_clock (pk_vals info r) (?g (clock_rows (db c) ?n))"
      by (intro has_clock_all_new [OF key(3), of "ci_name k"]) auto
    then have "all_clocked info (user_rows (db c) ?n @ [r]) (?g (clock_rows (db c) ?n))"
      using good(2) has_clock_bump_all by (auto simp: all_clocked_has list_all_iff)
    with ins have "table_step True info c c'" using table_stepI [OF c'(3,5,4,2)] by simp
    with c'(1) show ?thesis by blast
  qed
qed

lemma update_step:
  assumes "good_conn info c" and "ti_nonPks info \<noteq> []"
    and "find_row info (user_rows (db c) (ti_tblName info)) pk = Some old" and "op_fits info (db c) (Update_key pk f)"
  shows "\<exists>rc c'. local_update (ti_tblName info) old f c = Some (rc, c') \<and>
    table_step (recorded info old (f old)) info c c'"
proof -
  let ?n = "ti_tblName info" and ?new = "f old"
  from good_names [OF assms(1)] obtain t where t: "db_user (db c) ?n = Some t" "names_ok info"
    "distinct (map ci_name (ti_nonPks info))" "\<And>r s. same_row t r s \<longleftrightarrow> sql_eqs (pk_vals info r) (pk_vals info s)"
    "user_rows (db c) ?n = ut_rows t" "\<And>r. not_null (pk_vals info r) \<Longrightarrow> nulls_ok t r" by metis
  have w: "writable info c" using assms(1) by (simp add: good_conn_def)
  have op: "old \<in> set (user_rows (db c) ?n)" "key_ok info (pk_vals info old)"
    "pk_vals info ?new = pk_vals info old" "vals_ok info ?new" "not_null (pk_vals info ?new)"
    using assms(4) find_row_in [OF assms(3)] by (simp_all add: assms(3) key_ok_def)
  have good: "good_table info (user_rows (db c) ?n) (clock_rows (db c) ?n)"
    "all_clocked info (user_rows (db c) ?n) (clock_rows (db c) ?n)" using assms(1) by (simp_all add: good_conn_def)
  let ?ss = "map (\<lambda>k. (ci_name k, sql_neq (?new (ci_name k)) (old (ci_name k)))) (ti_nonPks info)"
  let ?g = "bump_all (pk_vals info old) (current_version c + 1) ?ss"
  let ?h = "\<lambda>r. if sql_eqs (pk_vals info old) (pk_vals info r) then ?new else r"
  have clash: "\<not> clash t old (f old)" using op(3) by (auto simp: clash_def t(4) list_ex_iff)
  have "find (same_row t old) (ut_rows t) = find_row info (ut_rows t) (pk_vals info old)"
    by (simp add: find_row_def t(4) cong: find_cong)
  also have "\<dots> = Some old"
    using find_row_unique [of info "ut_rows t" old "pk_vals info old"] good(1) op(1,3,5) sql_eqs_refl t(5)
    by (simp add: good_table_def)
  finally have found: "find (same_row t old) (ut_rows t) = Some old" .
  obtain c' where c': "local_update ?n old f c = Some (SQLITE_OK, c')"
    "db c' = upd_clock (clock_name ?n) ?g (upd_rows ?n (map (\<lambda>r. if same_row t old r then f r else r)) (db c))"
    "writable info c'" "current_version c' = current_version c" "quiet c c'"
    using update_effect [where f = f, OF w assms(2) t(1) found t(6) [OF op(5)] clash] op(3) by auto
  have same: "r = old" if "r \<in> set (user_rows (db c) ?n)" "sql_eqs (pk_vals info old) (pk_vals info r)" for r
  proof -
    have dk: "distinct_keys info (user_rows (db c) ?n)" using good(1) by (simp add: good_table_def)
    have "sql_eqs (pk_vals info old) (pk_vals info old)" using op(3,5) sql_eqs_refl by simp
    then show ?thesis using find_row_unique [OF dk that] find_row_unique [OF dk op(1)] by simp
  qed
  have h: "map (\<lambda>r. if same_row t old r then f r else r) (user_rows (db c) ?n) = map ?h (user_rows (db c) ?n)"
    using same by (auto simp: t(4))
  note upd = update_good [OF good(1) t(2,3) op(1-4) good_version [OF w]]
  have "map (pk_vals info) (map ?h (user_rows (db c) ?n)) = map (pk_vals info) (user_rows (db c) ?n)"
    using same op(3) by auto
  moreover have "all_clocked info rows clocks \<longleftrightarrow> list_all (\<lambda>p. has_clock p clocks) (map (pk_vals info) rows)" for rows clocks
    by (simp add: all_clocked_has list_all_iff)
  ultimately have "all_clocked info (map ?h (user_rows (db c) ?n)) (?g (clock_rows (db c) ?n))"
    using good(2) has_clock_bump_all by (auto simp: list_all_iff)
  with upd have "table_step (recorded info old ?new) info c c'"
    using table_stepI [OF c'(3,5,4,2)] h by simp
  with c'(1) show ?thesis by blast
qed

lemma delete_steps:
  assumes "good_conn info c" and "user_rows (db c) (ti_tblName info) = keep @ rs"
    and "list_all (\<lambda>r. key_ok info (pk_vals info r)) rs"
  shows "\<exists>c'. delete_rows (ti_tblName info) P keep rs c = Some (SQLITE_OK, c') \<and> table_step True info c c'"
  using assms
proof (induction rs arbitrary: keep c)
  case Nil
  then show ?case using table_step_refl by simp
next
  case (Cons r rs)
  let ?n = "ti_tblName info"
  show ?case
  proof (cases "P r")
    case False
    with Cons.IH [of c "keep @ [r]"] Cons.prems show ?thesis by simp
  next
    case True
    define c1 where "c1 = upd_db (upd_rows ?n (\<lambda>_. keep @ rs)) c"
    have w: "writable info c" using Cons.prems(1) by (simp add: good_conn_def)
    let ?g = "clock_bump (pk_vals info r) DELETE_CID_SENTINEL (current_version c + 1)"
    have key: "key_ok info (pk_vals info r)" using Cons.prems(3) by simp
    obtain c2 where c2: "after_delete ?n r c1 = Some (SQLITE_OK, c2)"
      "db c2 = upd_clock (clock_name ?n) ?g (db c1)" "writable info c2" "current_version c2 = current_version c" "quiet c c2"
      using after_delete_effect [of info c1 r] w by (auto simp: c1_def)
    have good: "good_table info (keep @ r # rs) (clock_rows (db c) ?n)"
      "all_clocked info (keep @ r # rs) (clock_rows (db c) ?n)" using Cons.prems(1,2) by (simp_all add: good_conn_def)
    note del = delete_good [OF good(1) key good_version [OF w]]
    have "all_clocked info (keep @ rs) (?g (clock_rows (db c) ?n))"
      using good(2) has_clock_bump by (auto simp: all_clocked_has list_all_iff)
    moreover have "db c2 = upd_clock (clock_name ?n) ?g (upd_rows ?n (\<lambda>_. keep @ rs) (db c))"
      using c2(2) by (simp add: c1_def)
    ultimately have step: "table_step True info c c2"
      using del table_stepI [OF c2(3,5,4)] Cons.prems(2) by simp
    have "db_user (db c) ?n \<noteq> None" using Cons.prems(1) by (auto simp: good_conn_def elim: schema_invE)
    then have "user_rows (db c2) ?n = keep @ rs" using c2(2) by (auto simp: c1_def user_rows_def)
    then obtain c' where c': "delete_rows ?n P keep rs c2 = Some (SQLITE_OK, c')" "table_step True info c2 c'"
      using Cons.IH [OF table_step_good [OF Cons.prems(1) step]] Cons.prems(3) by auto
    have "delete_rows ?n P keep (r # rs) c = Some (SQLITE_OK, c')" using True c2(1) c'(1) by (simp add: c1_def)
    then show ?thesis using table_step_trans [OF Cons.prems(1) step c'(2)] by blast
  qed
qed

lemma local_write_step:
  assumes "good_conn info c" and "ti_nonPks info \<noteq> []" and "op_fits info (db c) op"
  shows "\<exists>rc c'. local_write info op c = Some (rc, c') \<and> table_step (op_recorded info (db c) op) info c c'"
proof (cases op)
  case (Insert_row r)
  with insert_step [OF assms(1,2)] assms(3) show ?thesis by auto
next
  case (Update_key pk f)
  show ?thesis
  proof (cases "find_row info (user_rows (db c) (ti_tblName info)) pk")
    case None
    with Update_key show ?thesis using table_step_refl [OF assms(1)] by simp
  next
    case (Some old)
    with update_step [OF assms(1,2) Some] assms(3) Update_key show ?thesis by auto
  qed
next
  case (Delete_where P)
  let ?n = "ti_tblName info"
  have f: "faults c = []" using assms(1) by (simp add: good_conn_def writable_def ready_faults)
  from good_names [OF assms(1)] obtain t where t: "db_user (db c) ?n = Some t" "user_rows (db c) ?n = ut_rows t" by metis
  obtain c' where c': "delete_rows ?n P [] (ut_rows t) c = Some (SQLITE_OK, c')" "table_step True info c c'"
    using delete_steps [OF assms(1), of "[]" "ut_rows t" P] assms(3) t(2) Delete_where by auto
  then have "local_delete ?n P c = Some (SQLITE_OK, c')"
    using t(1) unfolding local_delete_def by (intro run_stmt_ok [OF f]) simp
  with c'(2) Delete_where show ?thesis by auto
qed

end
