(* ===== verification/Local_Sync.thy ===== *)
theory Local_Sync imports Local_Writes begin

text \<open>
  Sessions of local writes: a replica that others can read stays one, and the changes after the version
  before the session are all another replica needs.
\<close>

section \<open>Sources stay sources\<close>

lemma source_good:
  assumes "source ts c" and "info \<in> set ts" and "crr info (db c)"
  shows "good_conn info c"
proof -
  have s: "replica ts c" "schema_inv info (db c)" "data_inv info (db c)" "readable info (db c)" "complete info (db c)"
    using assms(1,2) by (auto simp: source_def replica_def list_all_iff)
  have "writable info c" using s(1) assms(3) by (simp add: replica_def writable_def conn_ok_def)
  moreover have "good_clock info (user_rows (db c) (ti_tblName info)) (clock_rows (db c) (ti_tblName info)) k"
    if "k \<in> set (clock_rows (db c) (ti_tblName info))" for k
    using s(4,5) that by (auto simp: readable_def complete_def good_clock_def clock_ok_def list_all_iff)
  moreover have "list_all (vals_ok info) (user_rows (db c) (ti_tblName info))"
    using s(4) by (simp add: readable_def vals_ok_def [abs_def])
  ultimately show ?thesis
    using s(2,3,5) by (simp add: good_conn_def good_table_def all_clocked_def complete_def data_inv_def data_parts_def list_all_iff)
qed

lemma readable_other:
  assumes "db_user d' (ti_tblName j) = db_user d (ti_tblName j)"
    and "db_clock d' (clock_name (ti_tblName j)) = db_clock d (clock_name (ti_tblName j))"
  shows "readable j d' = readable j d" "complete j d' = complete j d"
  using assms by (simp_all add: readable_def complete_def clock_ok_def [abs_def] user_rows_def clock_rows_def)

lemma good_readable:
  assumes "readable info d" and "db_user d' (ti_tblName info) = map_option (\<lambda>t. t\<lparr>ut_rows := f (ut_rows t)\<rparr>) (db_user d (ti_tblName info))"
    and "db_clock d' (clock_name (ti_tblName info)) =
      map_option (\<lambda>t. t\<lparr>ct_rows := g (ct_rows t)\<rparr>) (db_clock d (clock_name (ti_tblName info)))"
    and "good_table info (user_rows d' (ti_tblName info)) (clock_rows d' (ti_tblName info))"
    and "all_clocked info (user_rows d' (ti_tblName info)) (clock_rows d' (ti_tblName info))"
  shows "readable info d'" "complete info d'"
proof -
  have g: "good_clock info (user_rows d' (ti_tblName info)) (clock_rows d' (ti_tblName info)) k"
    if "k \<in> set (clock_rows d' (ti_tblName info))" for k
    using assms(4) that by (simp add: good_table_def list_all_iff)
  have "list_all (clock_ok info d') (clock_rows d' (ti_tblName info))"
    using g by (auto simp: list_all_iff clock_ok_def good_clock_def)
  moreover obtain t ct where "db_user d (ti_tblName info) = Some t" "db_clock d (clock_name (ti_tblName info)) = Some ct"
    "find_col (ct_pks ct) ''site_id'' = None" "find_col (ct_pks ct) ''db_vrsn'' = None"
    "find_col (map ci_name (ut_cols t)) PKS_ONLY_CID_SENTINEL = None"
    using assms(1) by (auto simp: readable_def split: option.splits)
  moreover have "list_all (vals_ok info) (user_rows d' (ti_tblName info))" using assms(4) by (simp add: good_table_def)
  ultimately show "readable info d'"
    using assms(1-3) by (simp add: readable_def vals_ok_def [abs_def])
  show "complete info d'" using g assms(5) by (auto simp: complete_def all_clocked_def list_all_iff good_clock_def)
qed

text \<open>What a statement or a session does to the tables of a description.\<close>

definition db_records :: "table_info list \<Rightarrow> int \<Rightarrow> database \<Rightarrow> database \<Rightarrow> bool" where
  "db_records ts v d d' \<longleftrightarrow> (\<forall>j \<in> set ts. records j v (user_rows d (ti_tblName j)) (clock_rows d (ti_tblName j))
     (user_rows d' (ti_tblName j)) (clock_rows d' (ti_tblName j)))"

lemma db_records_refl: "db_records ts v d d"
  by (simp add: db_records_def records_refl)

lemma db_records_trans: "db_records ts v d1 d2 \<Longrightarrow> db_records ts v d2 d3 \<Longrightarrow> db_records ts v d1 d3"
  unfolding db_records_def using records_trans by blast

lemma db_records_join:
  assumes "db_records ts v d d'"
  shows "join_db (abs_of ts d') (abs_of ts d) = abs_of ts d'"
proof (intro ext)
  fix tbl pk
  show "join_db (abs_of ts d') (abs_of ts d) tbl pk = abs_of ts d' tbl pk"
  proof (cases "crsql_findTableInfo ts tbl")
    case (Some j)
    then have "j \<in> set ts" using findTableInfo_Some by blast
    with assms have "join_row (abs_row j d' pk) (abs_row j d pk) = abs_row j d' pk"
      by (simp add: db_records_def records_def inflates_def abs_row_def)
    with Some show ?thesis by (simp add: join_db_def abs_of_def)
  qed (simp add: join_db_def abs_of_def)
qed

lemma table_step_source:
  assumes "source ts c" and "info \<in> set ts" and "crr info (db c)" and "table_step b info c c'"
  shows "source ts c'" and "crr info (db c')"
    and "b \<Longrightarrow> db_records ts (current_version c + 1) (db c) (db c')"
proof -
  let ?n = "ti_tblName info"
  have good: "good_conn info c" using source_good [OF assms(1-3)] .
  have r: "replica ts c" and rd: "j \<in> set ts \<Longrightarrow> readable j (db c) \<and> complete j (db c)" for j
    using assms(1) by (simp_all add: source_def list_all_iff)
  obtain f g where fg: "db c' = upd_clock (clock_name ?n) g (upd_rows ?n f (db c))"
    "user_rows (db c') ?n = f (user_rows (db c) ?n)" "clock_rows (db c') ?n = g (clock_rows (db c) ?n)"
    "good_table info (f (user_rows (db c) ?n)) (g (clock_rows (db c) ?n))"
    "all_clocked info (f (user_rows (db c) ?n)) (g (clock_rows (db c) ?n))"
    "b \<Longrightarrow> records info (current_version c + 1) (user_rows (db c) ?n) (clock_rows (db c) ?n) (f (user_rows (db c) ?n)) (g (clock_rows (db c) ?n))"
    using table_step_rows [OF good assms(4)] by metis
  have q: "quiet c c'" "current_version c' = current_version c" "writable info c'"
    using assms(4) by (simp_all add: table_step_def)
  then have "frame c c'" using r by (simp add: frame_def quiet_def writable_def conn_ok_def replica_def)
  note w = table_write_replica [OF r assms(2) this fg(1) good_data [OF fg(4)]]
  show "crr info (db c')" using assms(3) by (simp add: fg(1))
  have tabs: "db_user (db c') ?n = map_option (\<lambda>t. t\<lparr>ut_rows := f (ut_rows t)\<rparr>) (db_user (db c) ?n)"
    "db_clock (db c') (clock_name ?n) = map_option (\<lambda>t. t\<lparr>ct_rows := g (ct_rows t)\<rparr>) (db_clock (db c) (clock_name ?n))"
    by (simp_all add: fg(1) upd_clock_def upd_rows_def)
  have "readable j (db c') \<and> complete j (db c')" if j: "j \<in> set ts" for j
  proof (cases "ti_tblName j = ?n")
    case True
    have "distinct (map ti_tblName ts)" using r by (simp add: replica_def)
    then have "j = info" using True assms(2) j by (auto simp: distinct_map dest: inj_onD)
    then show ?thesis using good_readable [OF _ tabs] rd [OF j] fg(2-5) by simp
  next
    case False
    then have "db_user (db c') (ti_tblName j) = db_user (db c) (ti_tblName j)"
      "db_clock (db c') (clock_name (ti_tblName j)) = db_clock (db c) (clock_name (ti_tblName j))"
      by (simp_all add: fg(1) upd_clock_def upd_rows_def clock_name_def)
    from readable_other [OF this] rd [OF j] show ?thesis by simp
  qed
  then show "source ts c'" using w(1) by (simp add: source_def list_all_iff)
  assume b: b
  show "db_records ts (current_version c + 1) (db c) (db c')"
    unfolding db_records_def
  proof
    fix j assume j: "j \<in> set ts"
    show "records j (current_version c + 1) (user_rows (db c) (ti_tblName j)) (clock_rows (db c) (ti_tblName j))
      (user_rows (db c') (ti_tblName j)) (clock_rows (db c') (ti_tblName j))"
    proof (cases "ti_tblName j = ?n")
      case True
      have "distinct (map ti_tblName ts)" using r by (simp add: replica_def)
      then have "j = info" using True assms(2) j by (auto simp: distinct_map dest: inj_onD)
      then show ?thesis using fg(2,3) fg(6) [OF b] by simp
    next
      case False
      then have "user_rows (db c') (ti_tblName j) = user_rows (db c) (ti_tblName j)"
        "clock_rows (db c') (ti_tblName j) = clock_rows (db c) (ti_tblName j)"
        using tables_upd_other [OF False] by (simp_all add: fg(1))
      then show ?thesis by (simp add: records_refl)
    qed
  qed
qed

section \<open>Sessions of local writes\<close>

fun write_ops :: "(table_info \<times> local_op) list \<Rightarrow> conn \<Rightarrow> conn option" where
  "write_ops [] c = Some c"
| "write_ops ((info, op) # ops) c = do {
     (rc, c) \<leftarrow> local_write info op c;
     write_ops ops c
   }"

text \<open>Every operation fits the state it meets, and is recorded there when \<open>b\<close> is set.\<close>

fun ops_fit :: "bool \<Rightarrow> table_info list \<Rightarrow> (table_info \<times> local_op) list \<Rightarrow> conn \<Rightarrow> bool" where
  "ops_fit b ts [] c \<longleftrightarrow> True"
| "ops_fit b ts ((info, op) # ops) c \<longleftrightarrow> info \<in> set ts \<and> crr info (db c) \<and> ti_nonPks info \<noteq> [] \<and>
     op_fits info (db c) op \<and> (b \<longrightarrow> op_recorded info (db c) op) \<and>
     (case local_write info op c of None \<Rightarrow> True | Some (rc, c') \<Rightarrow> ops_fit b ts ops c')"

lemma write_ops_source:
  assumes "source ts c" and "ops_fit b ts ops c"
  shows "\<exists>c'. write_ops ops c = Some c' \<and> source ts c' \<and> current_version c' = current_version c \<and>
    (b \<longrightarrow> db_records ts (current_version c + 1) (db c) (db c'))"
  using assms
proof (induction ops arbitrary: c)
  case Nil
  then show ?case by (simp add: db_records_refl)
next
  case (Cons p ops)
  obtain info op where p: "p = (info, op)" by (cases p)
  then have fit: "info \<in> set ts" "crr info (db c)" "ti_nonPks info \<noteq> []" "op_fits info (db c) op"
    "b \<Longrightarrow> op_recorded info (db c) op"
    using Cons.prems(2) by simp_all
  obtain rc c1 where c1: "local_write info op c = Some (rc, c1)"
    "table_step (op_recorded info (db c) op) info c c1"
    using local_write_step [OF source_good [OF Cons.prems(1) fit(1,2)] fit(3,4)] by blast
  note s = table_step_source [OF Cons.prems(1) fit(1,2) c1(2)]
  have v: "current_version c1 = current_version c" using c1(2) by (simp add: table_step_def)
  obtain c' where c': "write_ops ops c1 = Some c'" "source ts c'" "current_version c' = current_version c1"
    "b \<longrightarrow> db_records ts (current_version c1 + 1) (db c1) (db c')"
    using Cons.IH [OF s(1)] Cons.prems(2) c1(1) p by auto
  have "b \<longrightarrow> db_records ts (current_version c + 1) (db c) (db c')"
    using c'(4) s(3) fit(5) v db_records_trans by auto
  then show ?case using c' c1(1) p v by simp
qed

section \<open>Changes since a version\<close>

text \<open>A key that was deleted before stays dead, whatever arrives for it.\<close>

lemma dead_absorbs:
  assumes "distinct (map ti_tblName ts)" and "info \<in> set ts" and "ms_info m = info"
    and "clock_lookup (clock_rows d (ti_tblName info)) (ms_pk m) DELETE_CID_SENTINEL \<noteq> None"
  shows "apply_msg m (abs_of ts d) = abs_of ts d"
proof (intro ext)
  fix tbl pk
  show "apply_msg m (abs_of ts d) tbl pk = abs_of ts d tbl pk"
  proof (cases "tbl = ti_tblName info \<and> sql_eqs pk (ms_pk m)")
    case True
    then have "abs_of ts d tbl pk = Dead"
      using assms(4) findTableInfo_distinct [OF assms(1,2)] clock_lookup_cong [of pk "ms_pk m"]
      by (simp add: abs_of_def abs_row_def abs_parts_def)
    then show ?thesis by (auto simp: apply_msg_def)
  qed (use assms(3) in \<open>auto simp: apply_msg_def\<close>)
qed

lemma delete_covers:
  assumes "ms_info m' = ms_info m" and "sql_eqs (ms_pk m) (ms_pk m')" and "op_of m' = Delete_op"
  shows "apply_msg m (apply_msg m' X) = apply_msg m' X"
proof (intro ext)
  fix tbl pk
  have "apply_op Delete_op s = Dead" for s by (cases s) simp_all
  moreover have "sql_eqs pk (ms_pk m) \<Longrightarrow> sql_eqs pk (ms_pk m')" using assms(2) sql_eqs_trans by blast
  ultimately show "apply_msg m (apply_msg m' X) tbl pk = apply_msg m' X tbl pk"
    using assms(1,3) by (simp add: apply_msg_def)
qed

lemma old_changes_covered:
  assumes "source ts c" and "source ts c'" and "db_records ts (v + 1) (db c) (db c')"
    and "m \<in> msgs_for 0 (Some [97]) MIN_POSSIBLE_DB_VERSION ts own (db c')"
    and "m \<notin> msgs_for 2 (Some [97]) v ts own (db c')"
  shows "apply_msg m (abs_of ts (db c)) = abs_of ts (db c) \<or>
    (\<exists>m' \<in> msgs_for 2 (Some [97]) v ts own (db c'). \<forall>X. apply_msg m (apply_msg m' X) = apply_msg m' X)"
proof -
  obtain info k where k: "info \<in> set ts" "k \<in> set (clock_rows (db c') (ti_tblName info))" "m = msg_of info (db c') own k"
    using assms(4) unfolding msgs_for_def by blast
  let ?n = "ti_tblName info"
  let ?clocks = "clock_rows (db c) ?n" and ?clocks' = "clock_rows (db c') ?n" and ?p = "ck_pk k"
  have names: "distinct (map ti_tblName ts)" using assms(1) by (simp add: source_def replica_def)
  have src: "clocks_distinct (clock_rows (db x) ?n)" "\<And>j. j \<in> set (clock_rows (db x) ?n) \<Longrightarrow> clock_ok info (db x) j"
    "\<And>j. j \<in> set (clock_rows (db x) ?n) \<Longrightarrow> ck_dbv j > MIN_POSSIBLE_DB_VERSION \<and> ck_site j \<noteq> Some [97]"
    if "source ts x" for x
    using that k(1) by (auto simp: source_def replica_def data_inv_def data_parts_def readable_def complete_def list_all_iff)
  have sel: "msg_of info (db c') own j \<in> msgs_for 2 (Some [97]) v ts own (db c')" if "j \<in> set ?clocks'" "ck_dbv j > v" for j
    using that k(1) src(3) [OF assms(2)] unfolding msgs_for_def selected_def by auto
  have "\<not> ck_dbv k > v" using sel [OF k(2)] k(3) assms(5) by blast
  then have dbv: "ck_dbv k < v + 1" by simp
  have ok: "clock_ok info (db c') k" using src(2) [OF assms(2) k(2)] .
  then have "sql_eqs ?p ?p" using sql_eqs_refl by (simp add: clock_ok_def key_ok_def)
  then have lk: "clock_lookup ?clocks' ?p (ck_col k) = Some k"
    using lookup_Some_iff [OF src(1) [OF assms(2)]] k(2) by (simp add: same_clock_def)
  have "records info (v + 1) (user_rows (db c) ?n) ?clocks (user_rows (db c') ?n) ?clocks'"
    using assms(3) k(1) by (simp add: db_records_def)
  then have kept: "kept info (v + 1) (user_rows (db c) ?n) ?clocks (user_rows (db c') ?n) ?clocks'"
    by (simp add: records_def)
  show ?thesis
  proof (cases "clock_lookup ?clocks' ?p DELETE_CID_SENTINEL")
    case (Some k')
    then have k': "k' \<in> set ?clocks'" "sql_eqs ?p (ck_pk k')" "ck_col k' = DELETE_CID_SENTINEL"
      using lookup_in [OF Some] by (simp_all add: same_clock_def)
    show ?thesis
    proof (cases "ck_dbv k' > v")
      case True
      have "op_of (msg_of info (db c') own k') = Delete_op" using k'(3) by (simp add: op_of_def msg_of_def live_value_def)
      then have "\<forall>X. apply_msg m (apply_msg (msg_of info (db c') own k') X) = apply_msg (msg_of info (db c') own k') X"
        using delete_covers k(3) k'(2) by (simp add: msg_of_def)
      with sel [OF k'(1) True] show ?thesis by blast
    next
      case False
      then have "clock_lookup ?clocks ?p DELETE_CID_SENTINEL \<noteq> None" using keptD(2) [OF kept Some] by simp
      then show ?thesis using dead_absorbs [OF names k(1)] k(3) by (simp add: msg_of_def)
    qed
  next
    case None
    have old: "clock_lookup ?clocks ?p (ck_col k) = Some k" using keptD(2) [OF kept lk dbv] .
    have none: "clock_lookup ?clocks ?p DELETE_CID_SENTINEL = None" using keptD(1) [OF kept] None by blast
    have k0: "k \<in> set ?clocks" using lookup_in [OF old] by simp
    obtain r where r: "find_row info (user_rows (db c) ?n) ?p = Some r"
      using src(2) [OF assms(1) k0] none by (auto simp: clock_ok_def)
    obtain r' where r': "find_row info (user_rows (db c') ?n) ?p = Some r'"
      using ok None by (auto simp: clock_ok_def)
    have "ck_col k \<in> ci_name ` set (ti_nonPks info) \<Longrightarrow> r' (ck_col k) = r (ck_col k)"
      using keptD(3) [OF kept lk dbv None] r r' by simp
    then have "live_value info (db c') k = live_value info (db c) k" by (simp add: live_value_def r r')
    then have "m = msg_of info (db c) own k" by (simp add: k(3) msg_of_def)
    then have "m \<in> msgs_for 0 (Some [97]) MIN_POSSIBLE_DB_VERSION ts own (db c)"
      using k(1) k0 src(3) [OF assms(1) k0] unfolding msgs_for_def selected_def by auto
    then show ?thesis using own_change_absorbed [OF assms(1)] by blast
  qed
qed

lemma pull_of_writes_aux:
  assumes "source ts cA" and "ops_fit True ts ops cA" and "ts \<noteq> []" and "replica ts cB" and "peers_inv (pSeenPeers v)"
    and "join_db (abs_of ts (db cA)) (abs_of ts (db cB)) = abs_of ts (db cB)"
  shows "\<exists>cA' n rows cA'' v' cB'. write_ops ops cA = Some cA' \<and>
    (\<forall>m>n. \<exists>cur. read_changes EA m 2 [VInt (current_version cA)] cA' = Read SQLITE_OK rows cur cA'') \<and>
    apply_rows EB rows v cB = Some (v', cB') \<and> replica ts cB' \<and>
    abs_of ts (db cB') = join_db (abs_of ts (db cA')) (abs_of ts (db cB))"
proof -
  let ?v = "current_version cA"
  obtain cA' where A: "write_ops ops cA = Some cA'" "source ts cA'" "db_records ts (?v + 1) (db cA) (db cA')"
    using write_ops_source [OF assms(1,2)] by blast
  have f: "filter_args EA 2 [VInt ?v] = Some (Some [97], ?v)" by (simp add: filter_args_def column_int64_def)
  have "apply_msg m (abs_of ts (db cB)) = abs_of ts (db cB) \<or>
      (\<exists>m' \<in> msgs_for 2 (Some [97]) ?v ts (take SITE_ID_LEN (siteId (ext cA'))) (db cA').
         \<forall>X. apply_msg m (apply_msg m' X) = apply_msg m' X)"
    if "m \<in> msgs_for 0 (Some [97]) MIN_POSSIBLE_DB_VERSION ts (take SITE_ID_LEN (siteId (ext cA'))) (db cA')"
      "m \<notin> msgs_for 2 (Some [97]) ?v ts (take SITE_ID_LEN (siteId (ext cA'))) (db cA')" for m
    using old_changes_covered [OF assms(1) A(2,3) that] absorbed_msg_above [OF _ assms(6)] by blast
  from partial_pull_aux [OF A(2) assms(3-5) f this, of EB] A(1) show ?thesis by blast
qed

text \<open>C7. A connection that inserts rows, updates columns outside the key and deletes rows, in any order, in
  replicated tables that have such columns, always completes the statements, and its clock tables go on
  describing its tables: the replica stays sound, every row has a clock and every clock can be read, so that
  others can follow it. The rows have keys without NULL and finite values. Updates of the key are left
  out because they break this (\<open>key_update_loses_row\<close>), tables without such columns because they get no
  insert trigger.\<close>

theorem local_writes_keep_source:
  assumes "source ts c" and "ops_fit False ts ops c"
  shows "\<exists>c'. write_ops ops c = Some c' \<and> source ts c'"
  using write_ops_source [OF assms] by blast


section \<open>A session\<close>

lemma ops_fit_Cons:
  assumes "source ts c" and "info \<in> set ts" and "crr info (db c)" and "ti_nonPks info \<noteq> []"
    and "op_fits info (db c) op" and "b \<longrightarrow> op_recorded info (db c) op"
    and "\<And>rc c'. local_write info op c = Some (rc, c') \<Longrightarrow> source ts c' \<Longrightarrow> crr info (db c') \<Longrightarrow> ops_fit b ts ops c'"
  shows "ops_fit b ts ((info, op) # ops) c"
proof -
  obtain rc c' where c': "local_write info op c = Some (rc, c')" "table_step (op_recorded info (db c) op) info c c'"
    using local_write_step [OF source_good [OF assms(1-3)] assms(4,5)] by blast
  with assms(7) [OF c'(1) table_step_source(1,2) [OF assms(1-3) c'(2)]] assms(2-6) show ?thesis by simp
qed

lemma session_fits:
  assumes "op_fits foo_info (db filled_conn) op" and "b \<longrightarrow> op_recorded foo_info (db filled_conn) op"
    and "key_ok foo_info (pk_vals foo_info r)" and "vals_ok foo_info r"
  shows "ops_fit b [foo_info] [(foo_info, op), (foo_info, Insert_row r)] filled_conn"
proof -
  have n: "ti_nonPks foo_info \<noteq> []" by (simp add: foo_info_def test_foo_def)
  have "crr foo_info (db filled_conn)" by code_simp
  show ?thesis
  proof (rule ops_fit_Cons [OF source_filled _ \<open>crr foo_info (db filled_conn)\<close> n assms(1,2)])
    show "ops_fit b [foo_info] [(foo_info, Insert_row r)] c'" if "source [foo_info] c'" "crr foo_info (db c')" for c'
      by (rule ops_fit_Cons [OF that(1) _ that(2) n]) (use assms(3,4) in simp_all)
  qed simp
qed

text \<open>Row 1 gets another value or NULL and a row is inserted; the insert of a key that exists is refused.\<close>

definition session :: "(table_info \<times> local_op) list" where
  "session = [(foo_info, Update_key [VInt 1] (\<lambda>_. row_of (VInt 1) (VInt 5))), (foo_info, Insert_row (row_of (VInt 7) VNull))]"

definition null_session :: "(table_info \<times> local_op) list" where
  "null_session = [(foo_info, Update_key [VInt 1] (\<lambda>_. row_of (VInt 1) VNull)), (foo_info, Insert_row (row_of (VInt 2) VNull))]"

theorem local_writes_keep_source_witness:
  "\<exists>c'. write_ops null_session filled_conn = Some c' \<and> source [foo_info] c'"
proof -
  have "op_fits foo_info (db filled_conn) (Update_key [VInt 1] (\<lambda>_. row_of (VInt 1) VNull))"
    "key_ok foo_info (pk_vals foo_info (row_of (VInt 2) VNull))" "vals_ok foo_info (row_of (VInt 2) VNull)"
    by code_simp+
  then have "ops_fit False [foo_info] null_session filled_conn"
    unfolding null_session_def by (intro session_fits) simp_all
  from local_writes_keep_source [OF source_filled this] show ?thesis .
qed


section \<open>Updates of the key\<close>

lemma those_mem: "those (map f xs) = Some ys \<Longrightarrow> y \<in> set ys \<Longrightarrow> \<exists>x\<in>set xs. f x = Some y"
  by (induction xs arbitrary: ys) (auto split: option.splits)

lemma union_row_clock:
  assumes "union_rows i site v ts d = Some rows" and "r \<in> set rows"
  shows "\<exists>info ct k. info \<in> set ts \<and> db_clock d (clock_name (ti_tblName info)) = Some ct \<and>
    k \<in> set (clock_rows d (ti_tblName info)) \<and> r = change_of info ct k"
proof -
  obtain rss rs where "those (map (table_changes i site v d) ts) = Some rss" "rs \<in> set rss" "r \<in> set rs"
    using assms by (auto simp: union_rows_def)
  with those_mem [of "table_changes i site v d" ts rss rs] obtain info
    where "info \<in> set ts" "table_changes i site v d info = Some rs" by blast
  with \<open>r \<in> set rs\<close> show ?thesis by (fastforce simp: table_changes_def clock_rows_def)
qed

text \<open>C15. An UPDATE that gives a stored row a new key and no column of it another value is not recorded, and the
  replica is sound no more: the row is stored under its new key, but whatever changes are asked for, none of
  them names that key, so no other replica ever hears of the row; and every clock of the old key is read as
  a delete. This is why the sessions above keep the key of a row they update.\<close>

theorem key_update_loses_row:
  assumes "source ts c" and "info \<in> set ts" and "crr info (db c)" and "ti_nonPks info \<noteq> []"
    and "find_row info (user_rows (db c) (ti_tblName info)) pk = Some old"
    and "key_ok info (pk_vals info (f old))"
    and "find_row info (user_rows (db c) (ti_tblName info)) (pk_vals info (f old)) = None"
    and "\<not> has_clock (pk_vals info (f old)) (clock_rows (db c) (ti_tblName info))"
    and "\<And>j. j \<in> set (ti_nonPks info) \<Longrightarrow> f old (ci_name j) = old (ci_name j)"
  shows "\<exists>c'. local_write info (Update_key pk f) c = Some (SQLITE_OK, c') \<and>
    f old \<in> set (user_rows (db c') (ti_tblName info)) \<and> \<not> source ts c' \<and>
    (\<forall>i site v rows r. union_rows i site v ts (db c') = Some rows \<longrightarrow> r \<in> set rows \<longrightarrow>
       cr_tbl r = ti_tblName info \<longrightarrow> cr_pks r \<noteq> key_text (pk_vals info (f old))) \<and>
    (\<forall>k E cr cur. k \<in> set (clock_rows (db c') (ti_tblName info)) \<longrightarrow> sql_eqs (ck_pk k) (pk_vals info old) \<longrightarrow>
       db cr = db c' \<longrightarrow> faults cr = [] \<longrightarrow> find_cached_info cr (Some (ti_tblName info)) = Some (Some info) \<longrightarrow>
       pRowStmt cur = None \<longrightarrow>
       fetch_row E (Some (ti_tblName info)) (Some (key_text (ck_pk k))) (Some (ck_col k)) cur cr =
         Some (SQLITE_OK, None, cur, cr))"
proof -
  let ?n = "ti_tblName info" and ?new = "f old" and ?key = "pk_vals info (f old)"
  have good: "good_conn info c" using source_good [OF assms(1-3)] .
  from good_names [OF good] obtain t where t: "db_user (db c) ?n = Some t"
    "\<And>r s. same_row t r s \<longleftrightarrow> sql_eqs (pk_vals info r) (pk_vals info s)"
    "user_rows (db c) ?n = ut_rows t" "\<And>r. not_null (pk_vals info r) \<Longrightarrow> nulls_ok t r" by metis
  have w: "writable info c" "distinct_keys info (ut_rows t)" "schema_inv info (db c)"
    using good t(3) by (simp_all add: good_conn_def good_table_def)
  have read: "readable info (db c)" "distinct (map ti_tblName ts)" and inv: "\<And>j. j \<in> set ts \<Longrightarrow> schema_inv j (db c)"
    and keys: "\<And>j k. j \<in> set ts \<Longrightarrow> k \<in> set (clock_rows (db c) (ti_tblName j)) \<Longrightarrow> key_ok j (ck_pk k)"
    using assms(1,2) by (auto simp: source_def replica_def readable_def clock_ok_def list_all_iff)
  have old: "old \<in> set (ut_rows t)" "sql_eqs pk (pk_vals info old)"
    using assms(5) t(3) by (auto simp: find_row_def find_Some_iff)
  have free: "\<not> sql_eqs ?key (pk_vals info r)" if "r \<in> set (ut_rows t)" for r
    using assms(7) that t(3) by (auto simp: find_row_def find_None_iff)
  have null: "not_null (pk_vals info old)" using sql_eqs_not_null [OF sql_eqs_sym [OF old(2)]] .
  have found: "find (same_row t old) (ut_rows t) = Some old"
    using find_row_unique [OF w(2) old(1) sql_eqs_refl [OF null]] by (simp add: find_row_def t(2) cong: find_cong)
  have clash: "\<not> clash t old ?new" using free by (auto simp: clash_def t(2) list_ex_iff)
  let ?g = "bump_all ?key (current_version c + 1)
      (map (\<lambda>k. (ci_name k, sql_neq (?new (ci_name k)) (old (ci_name k)))) (ti_nonPks info))"
  have "?g = (\<lambda>rows. rows)" using assms(9) by (intro bump_all_none) (auto simp: list_all_iff sql_neq_def sql_eq_def)
  moreover have "nulls_ok t ?new" using assms(6) t(4) by (simp add: key_ok_def)
  ultimately obtain c' where c': "local_update ?n old f c = Some (SQLITE_OK, c')"
    "db c' = upd_rows ?n (map (\<lambda>r. if same_row t old r then f r else r)) (db c)"
    using update_effect [where f = f, OF w(1) assms(4) t(1) found _ clash] by (auto simp: upd_clock_id)
  have done_it: "local_write info (Update_key pk f) c = Some (SQLITE_OK, c')" using c'(1) assms(5) by simp
  have rows: "user_rows (db c') ?n = map (\<lambda>r. if same_row t old r then f r else r) (ut_rows t)"
    "clock_rows (db c') = clock_rows (db c)"
    using c'(2) t(1) by (simp_all add: upd_rows_def user_rows_def clock_rows_def fun_eq_iff)
  have "same_row t old old" using sql_eqs_refl [OF null] by (simp add: t(2))
  then have new: "?new \<in> set (user_rows (db c') ?n)" using old(1) by (force simp: rows)
  then have unsound: "\<not> source ts c'"
    using assms(2,8) by (auto simp: source_def complete_def list_all_iff rows(2) has_clock_def)
  have unseen: "cr_pks r \<noteq> key_text ?key"
    if "union_rows i site v ts (db c') = Some rows" "r \<in> set rows" "cr_tbl r = ?n" for i site v rows r
  proof
    assume pks: "cr_pks r = key_text ?key"
    from union_row_clock [OF that(1,2)] obtain j ct k where k: "j \<in> set ts" "db_clock (db c') (clock_name (ti_tblName j)) = Some ct"
      "k \<in> set (clock_rows (db c) (ti_tblName j))" "r = change_of j ct k" unfolding rows(2) by blast
    have "db_clock (db c) (clock_name (ti_tblName j)) = Some ct" using k(2) c'(2) by simp
    note r = change_of_eq [OF inv [OF k(1)] this keys [OF k(1,3)]]
    have "j = info" using that(3) k(4) r read(2) k(1) assms(2) by (auto simp: distinct_map dest: inj_onD)
    then have "ck_pk k = ?key"
      using pks k(4) r keys [OF k(1,3)] assms(6) by (intro key_text_inj) (auto simp: key_ok_def)
    then show False
      using assms(6,8) k(3) \<open>j = info\<close> sql_eqs_refl [of ?key] by (auto simp: has_clock_def list_ex_iff key_ok_def)
  qed
  have gone: "live_value info (db c') k = None"
    if "k \<in> set (clock_rows (db c) ?n)" "sql_eqs (ck_pk k) (pk_vals info old)" for k
  proof -
    have "\<not> sql_eqs (ck_pk k) (pk_vals info s)" if s: "s \<in> set (user_rows (db c') ?n)" for s
    proof
      assume eq: "sql_eqs (ck_pk k) (pk_vals info s)"
      from s obtain r where r: "r \<in> set (ut_rows t)" "s = (if same_row t old r then f r else r)" by (auto simp: rows(1))
      show False
      proof (cases "same_row t old r")
        case True
        then have "r = old"
          using find_row_unique [OF w(2) r(1)] find_row_unique [OF w(2) old(1)] sql_eqs_refl [OF null]
          by (metis t(2) option.inject)
        with eq r(2) True have "sql_eqs ?key (ck_pk k)" using sql_eqs_sym by simp
        with \<open>k \<in> set (clock_rows (db c) ?n)\<close> assms(8) show False by (auto simp: has_clock_def list_ex_iff)
      next
        case False
        then have "sql_eqs (ck_pk k) (pk_vals info r)" using eq r(2) by simp
        then show False
          using sql_eqs_trans [OF sql_eqs_sym [OF \<open>sql_eqs (ck_pk k) (pk_vals info old)\<close>]] False t(2) by blast
      qed
    qed
    then show ?thesis by (auto simp: live_value_def find_row_def find_None_iff)
  qed
  obtain t' where t': "db_user (db c') ?n = Some t'" "ut_cols t' = ut_cols t" using c'(2) t(1) by (simp add: upd_rows_def)
  have pko: "find_col (map ci_name (ut_cols t')) PKS_ONLY_CID_SENTINEL = None"
    using read(1) t(1) t'(2) by (auto elim: readableE)
  have sch: "schema_inv info (db c')" using w(3) c'(2) by simp
  have delete: "fetch_row E (Some ?n) (Some (key_text (ck_pk k))) (Some (ck_col k)) cur cr = Some (SQLITE_OK, None, cur, cr)"
    if k: "k \<in> set (clock_rows (db c') ?n)" "sql_eqs (ck_pk k) (pk_vals info old)" and cr: "db cr = db c'" "faults cr = []"
      "find_cached_info cr (Some ?n) = Some (Some info)" and cur: "pRowStmt cur = None" for k E cr cur
  proof -
    have kc: "k \<in> set (clock_rows (db c) ?n)" using k(1) rows(2) by simp
    have "ck_col k \<in> {DELETE_CID_SENTINEL, PKS_ONLY_CID_SENTINEL} \<union> ci_name ` set (ti_nonPks info)"
      using read(1) kc by (auto simp: readable_def clock_ok_def list_all_iff)
    from fetch_clock [of info cr t' k cur E, unfolded cr(1), OF sch t'(1) pko keys [OF assms(2) kc] this cr(2,3) cur]
    show ?thesis using gone [OF kc k(2)] cur by simp
  qed
  from done_it new unsound unseen delete show ?thesis by (intro exI [of _ c']) blast
qed

text \<open>The first row of the filled table gets the key 5.\<close>

theorem key_update_loses_row_witness:
  "\<exists>c'. local_write foo_info (Update_key [VInt 1] (\<lambda>r. r(''a'' := VInt 5))) filled_conn = Some (SQLITE_OK, c') \<and>
     \<not> source [foo_info] c' \<and>
     (\<forall>i site v rows r. union_rows i site v [foo_info] (db c') = Some rows \<longrightarrow> r \<in> set rows \<longrightarrow>
       cr_tbl r = ''foo'' \<longrightarrow> cr_pks r \<noteq> key_text [VInt 5])"
proof -
  let ?old = "row_of (VInt 1) (VText ''x'')" and ?f = "\<lambda>r :: row. r(''a'' := VInt 5)"
  have n: "ti_nonPks foo_info \<noteq> []" "ti_tblName foo_info = ''foo''" by (simp_all add: foo_info_def test_foo_def)
  have crr: "crr foo_info (db filled_conn)" by code_simp
  have rows: "user_rows (db filled_conn) ''foo'' = [?old, row_of (VInt 2) VNull]"
    using filled_first(2) by (simp add: user_rows_def n(2))
  have key: "pk_vals foo_info (?f ?old) = [VInt 5]" "pk_vals foo_info (row_of a b) = [a]" for a b
    by (simp_all add: pk_vals_def foo_info_def test_foo_def mk_col_def row_of_def)
  have eq: "sql_eqs [VInt 1] [VInt 1]" "\<not> sql_eqs [VInt 5] [VInt 1]" "\<not> sql_eqs [VInt 5] [VInt 2]" by code_simp+
  have old: "find_row foo_info (user_rows (db filled_conn) (ti_tblName foo_info)) [VInt 1] = Some ?old"
    "find_row foo_info (user_rows (db filled_conn) (ti_tblName foo_info)) (pk_vals foo_info (?f ?old)) = None"
    using eq by (simp_all add: n(2) rows find_row_def key)
  have ok: "key_ok foo_info [VInt 5]" "\<not> has_clock [VInt 5] (clock_rows (db filled_conn) ''foo'')" by code_simp+
  have same: "?f ?old (ci_name j) = ?old (ci_name j)" if "j \<in> set (ti_nonPks foo_info)" for j
    using that by (auto simp: foo_info_def test_foo_def mk_col_def)
  have in1: "foo_info \<in> set [foo_info]" by simp
  from key_update_loses_row [where f = ?f, OF source_filled in1 crr n(1) old(1) _ old(2) _ same] ok key(1) n(2)
  show ?thesis by auto
qed

end
