(* ===== verification/Gossip.thy ===== *)
theory Gossip imports Local_Sync begin

text \<open>
  Any number of replicas that pull from each other in any order: each ends with the join of the states
  it heard of, directly or through others. A replica that has merged changes can be read in turn.
\<close>

section \<open>Networks\<close>

text \<open>A node is a connection with its changes table; a pull reads one node and inserts into another.\<close>

type_synonym node = "changes_vtab \<times> conn"

definition pull :: "sql_env \<Rightarrow> nat \<Rightarrow> nat \<Rightarrow> nat \<Rightarrow> node list \<Rightarrow> node list option" where
  "pull E n i j N =
     (case read_changes E n 0 [] (snd (N ! i)) of
        Read rc rows cur cA \<Rightarrow>
          if rc \<noteq> SQLITE_OK then None
          else
            let N = N[i := (fst (N ! i), cA)] in do {
              (v, cB) \<leftarrow> apply_rows E rows (fst (N ! j)) (snd (N ! j));
              Some (N[j := (v, cB)])
            }
      | _ \<Rightarrow> None)"

fun gossip :: "sql_env \<Rightarrow> nat \<Rightarrow> (nat \<times> nat) list \<Rightarrow> node list \<Rightarrow> node list option" where
  "gossip E n [] N = Some N"
| "gossip E n ((i, j) # ps) N = do {
     N \<leftarrow> pull E n i j N;
     gossip E n ps N
   }"

text \<open>Whose states a node has heard of after a schedule of pulls, given whose each has at the start.\<close>

fun heard :: "(nat \<times> nat) list \<Rightarrow> (nat \<Rightarrow> nat set) \<Rightarrow> nat \<Rightarrow> nat set" where
  "heard [] H = H"
| "heard ((i, j) # ps) H = heard ps (H(j := H i \<union> H j))"

definition state_of :: "table_info list \<Rightarrow> node \<Rightarrow> abs_db" where
  "state_of ts nd = abs_of ts (db (snd nd))"

definition good_node :: "table_info list \<Rightarrow> node \<Rightarrow> bool" where
  "good_node ts nd \<longleftrightarrow> source ts (snd nd) \<and> dflts_all ts (db (snd nd)) \<and>
     site_ok (take SITE_ID_LEN (siteId (ext (snd nd)))) \<and> peers_inv (pSeenPeers (fst nd))"

lemma only_infos_node:
  "good_node ts (v, c) \<Longrightarrow> only_infos c c' \<Longrightarrow> replica ts c' \<Longrightarrow> good_node ts (v, c')"
  by (simp add: good_node_def source_open only_infos_def)

lemma pull_step:
  assumes "\<And>k. k < length N \<Longrightarrow> good_node ts (N ! k)" and "ts \<noteq> []" and "i < length N" and "j < length N"
  obtains n0 N' where "\<And>n. n > n0 \<Longrightarrow> pull E n i j N = Some N'" "length N' = length N"
    "\<And>k. k < length N \<Longrightarrow> good_node ts (N' ! k)"
    "\<And>k. k < length N \<Longrightarrow> state_of ts (N' ! k) =
      (if k = j then join_db (state_of ts (N ! i)) (state_of ts (N ! j)) else state_of ts (N ! k))"
proof -
  obtain vA cA where A: "N ! i = (vA, cA)" by (cases "N ! i")
  then have gA: "good_node ts (vA, cA)" using assms(1) [OF assms(3)] by simp
  then have src: "source ts cA" "site_ok (take SITE_ID_LEN (siteId (ext cA)))" by (simp_all add: good_node_def)
  obtain n0 ms cA' where ms: "\<And>m. m > n0 \<Longrightarrow> \<exists>cur. read_changes E m 0 [] cA = Read SQLITE_OK (map columns_of ms) cur cA'"
    "replica ts cA'" "only_infos cA cA'"
    "set ms = msgs_for 0 (Some [97]) MIN_POSSIBLE_DB_VERSION ts (take SITE_ID_LEN (siteId (ext cA))) (db cA)"
    using read_all_aux [OF src(1) assms(2), of E] by blast
  define N1 where "N1 = N[i := (vA, cA')]"
  have g1: "good_node ts (N1 ! k)" if "k < length N" for k
    using assms(1) [OF that] only_infos_node [OF gA ms(3,2)] that by (cases "k = i") (simp_all add: N1_def)
  have s1: "state_of ts (N1 ! k) = state_of ts (N ! k)" if "k < length N" for k
    using that A ms(3) by (cases "k = i") (simp_all add: N1_def state_of_def only_infos_def)
  obtain v cB where B: "N1 ! j = (v, cB)" by (cases "N1 ! j")
  then have gB: "good_node ts (v, cB)" using g1 [OF assms(4)] by simp
  then have B': "replica ts cB" "peers_inv (pSeenPeers v)" "dflts_all ts (db cB)" "open_tables ts (db cB)"
    by (simp_all add: good_node_def source_open)
  obtain v' cB' where app: "apply_rows E (map columns_of ms) v cB = Some (v', cB')" "replica ts cB'" "keeps cB cB'"
    "peers_inv (pSeenPeers v')" "abs_of ts (db cB') = join_db (abs_of ts (db cA)) (abs_of ts (db cB))"
    "dflts_all ts (db cB')" "open_tables ts (db cB')"
    using apply_all_aux [OF src(1) B'(1,2) ms(4), of E] src(2) B'(3,4) by metis
  have new: "good_node ts (v', cB')"
    using gB app(2-4,6,7) by (simp add: good_node_def source_open keeps_def)
  show thesis
  proof
    show "pull E n i j N = Some (N1[j := (v', cB')])" if "n > n0" for n
      using ms(1) [OF that] A B app(1) by (auto simp: pull_def N1_def Let_def)
    show "length (N1[j := (v', cB')]) = length N" by (simp add: N1_def)
    show "good_node ts (N1[j := (v', cB')] ! k)" if "k < length N" for k
      using g1 [OF that] new that by (cases "k = j") (simp_all add: N1_def)
    show "state_of ts (N1[j := (v', cB')] ! k) =
      (if k = j then join_db (state_of ts (N ! i)) (state_of ts (N ! j)) else state_of ts (N ! k))" if "k < length N" for k
      using s1 [OF that] s1 [OF assms(4)] app(5) A B that
      by (auto simp: nth_list_update state_of_def) (simp_all add: N1_def)
  qed
qed

lemma heard_finite: "(\<And>k. finite (H k) \<and> H k \<noteq> {}) \<Longrightarrow> finite (heard ps H k) \<and> heard ps H k \<noteq> {}"
  by (induction ps arbitrary: H) auto

lemma gossip_run:
  assumes "\<And>k. k < length N \<Longrightarrow> good_node ts (N ! k)" and "ts \<noteq> []"
    and "list_all (\<lambda>(i, j). i < length N \<and> j < length N) ps"
    and "\<And>k. finite (H k) \<and> H k \<noteq> {}" and "\<And>k. k < length N \<Longrightarrow> state_of ts (N ! k) = Sup_fin (S ` H k)"
  shows "\<exists>n0 N'. (\<forall>n>n0. gossip E n ps N = Some N') \<and> length N' = length N \<and>
    (\<forall>k<length N. good_node ts (N' ! k) \<and> state_of ts (N' ! k) = Sup_fin (S ` heard ps H k))"
  using assms(1,3-5)
proof (induction ps arbitrary: N H)
  case Nil
  then show ?case by (intro exI [of _ 0] exI [of _ N]) simp
next
  case (Cons p ps)
  obtain i j where p: "p = (i, j)" by (cases p)
  then have ij: "i < length N" "j < length N" using Cons.prems(2) by simp_all
  let ?H = "H(j := H i \<union> H j)"
  obtain n1 N1 where N1: "\<And>n. n > n1 \<Longrightarrow> pull E n i j N = Some N1" "length N1 = length N"
    "\<And>k. k < length N \<Longrightarrow> good_node ts (N1 ! k)"
    "\<And>k. k < length N \<Longrightarrow> state_of ts (N1 ! k) =
      (if k = j then join_db (state_of ts (N ! i)) (state_of ts (N ! j)) else state_of ts (N ! k))"
    using pull_step [OF Cons.prems(1) assms(2) ij, of E] by blast
  have fin: "finite (?H k) \<and> ?H k \<noteq> {}" for k using Cons.prems(3) by simp
  have "Sup_fin (S ` (H i \<union> H j)) = join_db (Sup_fin (S ` H i)) (Sup_fin (S ` H j))"
    unfolding image_Un join_db_sup using Cons.prems(3) by (intro Sup_fin.union) simp_all
  then have "state_of ts (N1 ! k) = Sup_fin (S ` ?H k)" if "k < length N1" for k
    using that N1(2,4) Cons.prems(4) ij by simp
  then obtain n2 N' where N': "\<forall>n>n2. gossip E n ps N1 = Some N'" "length N' = length N1"
    "\<forall>k<length N1. good_node ts (N' ! k) \<and> state_of ts (N' ! k) = Sup_fin (S ` heard ps ?H k)"
    using Cons.IH [of N1 ?H, OF _ _ fin] N1(2,3) Cons.prems(2) p by (auto simp del: fun_upd_apply)
  have "\<forall>n>max n1 n2. gossip E n (p # ps) N = Some N'" using N1(1) N'(1) by (simp add: p)
  then show ?case using N'(2,3) N1(2) p by (intro exI [of _ "max n1 n2"] exI [of _ N']) (simp del: gossip.simps fun_upd_apply)
qed

text \<open>C5. Let any number of replicas, in any sound states that others can read, pull all changes from each other along any schedule.
  Every pull succeeds, every replica stays one that others can read, and each ends in the join of
  the initial states it heard of, directly or through other replicas. So replicas that heard of
  the same ones are in the same state.\<close>

theorem gossip_joins:
  assumes "\<forall>nd \<in> set N. good_node ts nd" and "ts \<noteq> []"
    and "list_all (\<lambda>(i, j). i < length N \<and> j < length N) ps"
  shows "\<exists>n0 N'. (\<forall>n>n0. gossip E n ps N = Some N') \<and> length N' = length N \<and>
    (\<forall>k<length N. good_node ts (N' ! k) \<and>
      state_of ts (N' ! k) = Sup_fin ((\<lambda>i. state_of ts (N ! i)) ` heard ps (\<lambda>i. {i}) k))"
  using gossip_run [of N ts ps "\<lambda>i. {i}" "\<lambda>i. state_of ts (N ! i)" E] assms by simp

section \<open>Three replicas\<close>

text \<open>A change travels from the first to the third replica through the second, and all end equal.\<close>

definition ring :: "(nat \<times> nat) list" where
  "ring = [(0, 1), (1, 2), (2, 0), (0, 1)]"

theorem gossip_joins_witness:
  "\<exists>n0 N'. (\<forall>n>n0. gossip no_env n ring [(new_vtab, filled_conn), (new_vtab, other_conn), (new_vtab, filled_conn)] = Some N') \<and>
    state_of [foo_info] (N' ! 0) = state_of [foo_info] (N' ! 1) \<and> state_of [foo_info] (N' ! 1) = state_of [foo_info] (N' ! 2)"
proof -
  let ?N = "[(new_vtab, filled_conn), (new_vtab, other_conn), (new_vtab, filled_conn)]"
  have "dflts_all [foo_info] (db filled_conn)" "dflts_all [foo_info] (db other_conn)"
    "site_ok (take SITE_ID_LEN (siteId (ext filled_conn)))" "site_ok (take SITE_ID_LEN (siteId (ext other_conn)))"
    by code_simp+
  then have good: "\<forall>nd \<in> set ?N. good_node [foo_info] nd"
    using source_filled source_other peers_new_vtab by (simp add: good_node_def)
  have "list_all (\<lambda>(i, j). i < length ?N \<and> j < length ?N) ring" by (simp add: ring_def)
  from gossip_joins [OF good _ this, of no_env] obtain n0 N' where
    N': "\<forall>n>n0. gossip no_env n ring ?N = Some N'"
    "\<forall>k<length ?N. state_of [foo_info] (N' ! k) = Sup_fin ((\<lambda>i. state_of [foo_info] (?N ! i)) ` heard ring (\<lambda>i. {i}) k)"
    by auto
  have "heard ring (\<lambda>i. {i}) 0 = {0, 1, 2}" "heard ring (\<lambda>i. {i}) 1 = {0, 1, 2}" "heard ring (\<lambda>i. {i}) 2 = {0, 1, 2}"
    by (auto simp: ring_def)
  then show ?thesis using N' by (intro exI [of _ n0] exI [of _ N']) simp
qed

end
