(* ===== verification/Sessions.thy ===== *)
theory Sessions imports Transactions Gossip begin

text \<open>
  Everything a connection does between loading the extension and closing it: transactions, merges of
  the changes of others, and statements of the user, in any order. It stays a replica that others
  can read.
\<close>

section \<open>Operations\<close>

datatype full_op = Sess sess_op | Local table_info local_op

definition local_change :: "table_info \<Rightarrow> local_op \<Rightarrow> session \<Rightarrow> (int \<times> session) option" where
  "local_change info op s = do {
     (rc, c) \<leftarrow> local_write info op (ss_conn s);
     Some (rc, s\<lparr>ss_conn := c\<rparr>)
   }"

fun full_step :: "sql_env \<Rightarrow> full_op \<Rightarrow> session \<Rightarrow> (int \<times> session) option" where
  "full_step E (Sess op) s = sess_step E op s"
| "full_step E (Local info op) s = autocommit (local_change info op) s"

text \<open>Changes come from replicas with proper site ids; statements of the user write proper values into
  replicated tables and leave keys alone.\<close>

fun full_ok :: "table_info list \<Rightarrow> full_op \<Rightarrow> session \<Rightarrow> bool" where
  "full_ok ts (Sess op) s \<longleftrightarrow> op_ok ts op \<and> (case op of Insert_op m \<Rightarrow> site_ok (ms_site m) | _ \<Rightarrow> True)"
| "full_ok ts (Local info op) s \<longleftrightarrow> info \<in> set ts \<and> crr info (db (ss_conn s)) \<and> ti_nonPks info \<noteq> [] \<and>
     op_fits info (db (ss_conn s)) op"

inductive full_reach :: "sql_env \<Rightarrow> table_info list \<Rightarrow> session \<Rightarrow> session \<Rightarrow> bool" for E ts s0 where
  start: "full_reach E ts s0 s0"
| step: "full_reach E ts s0 s \<Longrightarrow> full_ok ts op s \<Longrightarrow> full_step E op s = Some (rc, s') \<Longrightarrow>
    below_limit (db (ss_conn s')) \<Longrightarrow> full_reach E ts s0 s'"

section \<open>The invariant\<close>

definition db_open :: "table_info list \<Rightarrow> database \<Rightarrow> bool" where
  "db_open ts d \<longleftrightarrow> open_tables ts d \<and> dflts_all ts d"

definition full_inv :: "table_info list \<Rightarrow> session \<Rightarrow> bool" where
  "full_inv ts s \<longleftrightarrow> sess_inv ts s \<and> db_open ts (db (ss_conn s)) \<and>
     (case tx (ss_conn s) of None \<Rightarrow> True | Some base \<Rightarrow> db_open ts base)"

text \<open>What a single statement inside a transaction may do.\<close>

definition moved :: "table_info list \<Rightarrow> session \<Rightarrow> session \<Rightarrow> bool" where
  "moved ts s s' \<longleftrightarrow> replica ts (ss_conn s') \<and> keeps (ss_conn s) (ss_conn s') \<and>
     peers_inv (pSeenPeers (ss_vtab s')) \<and> db_open ts (db (ss_conn s'))"

lemma moved_inv: "full_inv ts s \<Longrightarrow> moved ts s s' \<Longrightarrow> below_limit (db (ss_conn s')) \<Longrightarrow> full_inv ts s'"
proof -
  assume s: "full_inv ts s" "moved ts s s'" "below_limit (db (ss_conn s'))"
  then have k: "keeps (ss_conn s) (ss_conn s')" by (simp add: moved_def)
  then have "tx (ss_conn s') = tx (ss_conn s)" by (simp add: keeps_def)
  with s show ?thesis
    using keeps_base_ok [OF k] by (auto simp: full_inv_def sess_inv_def moved_def split: option.splits)
qed

lemma open_peers [simp]: "db_open ts (db_peers_update f d) = db_open ts d"
  by (simp add: db_open_def open_tables_def dflts_all_def names_free_def dflts_ok_def user_rows_def clock_rows_def
      cong: option.case_cong)

lemma begin_full: "full_inv ts s \<Longrightarrow> full_inv ts (s\<lparr>ss_conn := snd (sql_begin (ss_conn s))\<rparr>)"
  using begin_inv [of ts s] by (auto simp: full_inv_def sql_begin_def)

lemma commit_db:
  assumes "faults (ss_conn s) = []" and "sess_commit s = (rc, s')"
  obtains ps' where "db (ss_conn s') = db_peers_update (\<lambda>_. ps') (db (ss_conn s))" "tx (ss_conn s') = None"
proof (cases "tx (ss_conn s)")
  case None
  then have "s' = s" using assms(2) by (simp add: sess_commit_def sql_commit_def)
  with None that [of "db_peers (db (ss_conn s))"] show ?thesis by simp
next
  case (Some base)
  let ?s = "s\<lparr>ss_conn := snd (commit_tx (ss_conn s))\<rparr>"
  have s': "s' = vtab_commit ?s" using assms(2) Some by (simp add: sess_commit_def sql_commit_def commit_tx_def commitHook_def)
  have "faults (ss_conn ?s) = []" "db (ss_conn ?s) = db (ss_conn s)" "tx (ss_conn ?s) = None"
    using assms(1) by (simp_all add: commit_tx_def commitHook_def)
  with vtab_commit_conn [of ?s] s' that show ?thesis by auto
qed

lemma commit_full:
  assumes "full_inv ts s" and "sess_commit s = (rc, s')"
  shows "full_inv ts s'"
proof -
  have s: "sess_inv ts s" "db_open ts (db (ss_conn s))" using assms(1) by (simp_all add: full_inv_def)
  then have "replica ts (ss_conn s)" by (simp add: sess_inv_def)
  then have "faults (ss_conn s) = []" by (rule replica_faults)
  then obtain ps' where db: "db (ss_conn s') = db_peers_update (\<lambda>_. ps') (db (ss_conn s))" "tx (ss_conn s') = None"
    using commit_db [OF _ assms(2)] by blast
  then have "db_open ts (db (ss_conn s'))" using s(2) by simp
  then show ?thesis using commit_inv [OF s(1) assms(2)] db(2) by (simp add: full_inv_def)
qed

lemma rollback_full:
  assumes "replica ts (ss_conn s)" and "peers_inv (pSeenPeers (ss_vtab s))" and "tx (ss_conn s) = Some base"
    and "base_ok ts (ss_conn s) base" and "db_open ts base" and "sess_rollback s = (rc, s')"
  shows "full_inv ts s'"
proof -
  define c1 where "c1 = end_tx (rollbackHook ((ss_conn s)\<lparr>db := base\<rparr>))"
  have s': "s' = s\<lparr>ss_conn := c1, ss_joined := False\<rparr>"
    using assms(3,6) by (simp add: sess_rollback_def sql_rollback_def c1_def)
  have "replica ts c1" using rollback_replica [OF assms(1,4)] by (simp add: c1_def)
  moreover have "db c1 = base" "tx c1 = None" by (simp_all add: c1_def rollbackHook_def)
  moreover have "below_limit base" using assms(4) by (simp add: base_ok_def)
  ultimately show ?thesis using assms(2,5) by (simp add: full_inv_def sess_inv_def s')
qed

text \<open>A statement in or outside of a transaction.\<close>

lemma autocommit_full:
  assumes "full_inv ts s" and "\<And>s. full_inv ts s \<Longrightarrow> P s \<Longrightarrow> \<exists>rc s'. f s = Some (rc, s') \<and> moved ts s s'"
    and "P s" and "P (s\<lparr>ss_conn := snd (sql_begin (ss_conn s))\<rparr>)"
  shows "\<exists>rc s'. autocommit f s = Some (rc, s') \<and> (below_limit (db (ss_conn s')) \<longrightarrow> full_inv ts s')"
proof (cases "tx (ss_conn s)")
  case (Some base)
  obtain rc s' where "f s = Some (rc, s')" "moved ts s s'" using assms(2) [OF assms(1,3)] by blast
  then show ?thesis using moved_inv [OF assms(1)] Some by (simp add: autocommit_def)
next
  case None
  let ?s = "s\<lparr>ss_conn := snd (sql_begin (ss_conn s))\<rparr>"
  note b = begin_full [OF assms(1)]
  obtain rc s1 where s1: "f ?s = Some (rc, s1)" "moved ts ?s s1" using assms(2) [OF b assms(4)] by blast
  have r: "replica ts (ss_conn s1)" "peers_inv (pSeenPeers (ss_vtab s1))" "tx (ss_conn s1) = Some (db (ss_conn s))"
    using s1(2) None by (simp_all add: moved_def keeps_def sql_begin_def)
  show ?thesis
  proof (cases "rc = SQLITE_OK")
    case True
    obtain rc' s' where c: "sess_commit s1 = (rc', s')" by (cases "sess_commit s1")
    obtain ps' where "db (ss_conn s') = db_peers_update (\<lambda>_. ps') (db (ss_conn s1))"
      using commit_db [OF replica_faults [OF r(1)] c] .
    then have "full_inv ts s'" if "below_limit (db (ss_conn s'))"
      using commit_full [OF moved_inv [OF b s1(2)] c] that by (simp add: below_limit_def peers_only)
    with True s1(1) None c show ?thesis by (simp add: autocommit_def)
  next
    case False
    obtain rc' s' where c: "sess_rollback s1 = (rc', s')" by (cases "sess_rollback s1")
    have "base_ok ts (ss_conn ?s) (db (ss_conn s))" "db_open ts (db (ss_conn s))"
      using b None assms(1) by (simp_all add: full_inv_def sess_inv_def sql_begin_def)
    moreover have "base_ok ts (ss_conn s1) (db (ss_conn s))"
      using keeps_base_ok [OF _ calculation(1)] s1(2) by (simp add: moved_def)
    ultimately have "full_inv ts s'" using rollback_full [OF r] c by blast
    with False s1(1) None c show ?thesis by (simp add: autocommit_def)
  qed
qed

section \<open>Each operation\<close>

lemma insert_moved:
  assumes "full_inv ts s" and "msg_ok ts m" and "site_ok (ms_site m)"
  shows "\<exists>rc s'. insert_change E (columns_of m) s = Some (rc, s') \<and> moved ts s s'"
  using insert_change_ok [of ts s m E] assms by (auto simp: full_inv_def sess_inv_def moved_def db_open_def)

lemma local_moved:
  assumes "full_inv ts s" and "full_ok ts (Local info op) s"
  shows "\<exists>rc s'. local_change info op s = Some (rc, s') \<and> moved ts s s'"
proof -
  have s: "source ts (ss_conn s)" "dflts_all ts (db (ss_conn s))" "peers_inv (pSeenPeers (ss_vtab s))"
    using assms(1) by (simp_all add: full_inv_def sess_inv_def db_open_def source_open)
  have op: "info \<in> set ts" "crr info (db (ss_conn s))" "ti_nonPks info \<noteq> []" "op_fits info (db (ss_conn s)) op"
    using assms(2) by simp_all
  note good = source_good [OF s(1) op(1,2)]
  obtain rc c' where c': "local_write info op (ss_conn s) = Some (rc, c')"
    "table_step (op_recorded info (db (ss_conn s)) op) info (ss_conn s) c'"
    using local_write_step [OF good op(3,4)] by blast
  obtain f g where fg: "db c' = upd_clock (clock_name (ti_tblName info)) g (upd_rows (ti_tblName info) f (db (ss_conn s)))"
    using table_step_rows [OF good c'(2)] by metis
  have "source ts c'" using table_step_source [OF s(1) op(1,2) c'(2)] by blast
  moreover have "keeps (ss_conn s) c'"
    using c'(2) by (simp add: keeps_def fg table_step_def quiet_def upd_clock_def upd_rows_def)
  ultimately have "moved ts s (s\<lparr>ss_conn := c'\<rparr>)"
    using s(2,3) by (simp add: moved_def db_open_def source_open fg)
  with c'(1) show ?thesis by (simp add: local_change_def)
qed

lemma full_step_ok:
  assumes "full_inv ts s" and "full_ok ts op s"
  shows "\<exists>rc s'. full_step E op s = Some (rc, s') \<and> (below_limit (db (ss_conn s')) \<longrightarrow> full_inv ts s')"
proof (cases op)
  case (Local info lop)
  have begin_db: "db (snd (sql_begin c)) = db c" for c by (simp add: sql_begin_def)
  show ?thesis unfolding Local full_step.simps
    by (rule autocommit_full [OF assms(1), where P = "full_ok ts (Local info lop)"])
      (use local_moved assms(2) Local begin_db in simp_all)
next
  case (Sess sop)
  show ?thesis
  proof (cases sop)
    case Begin_op
    then show ?thesis using begin_full [OF assms(1)] Sess by (auto split: prod.split)
  next
    case Commit_op
    obtain rc s' where "sess_commit s = (rc, s')" by (cases "sess_commit s")
    with commit_full [OF assms(1) this] Commit_op Sess show ?thesis by simp
  next
    case Rollback_op
    obtain rc s' where c: "sess_rollback s = (rc, s')" by (cases "sess_rollback s")
    have "full_inv ts s'"
    proof (cases "tx (ss_conn s)")
      case None
      then show ?thesis using c assms(1) by (simp add: sess_rollback_def sql_rollback_def)
    next
      case (Some base)
      with assms(1) show ?thesis by (intro rollback_full [OF _ _ Some _ _ c]) (simp_all add: full_inv_def sess_inv_def)
    qed
    with c Rollback_op Sess show ?thesis by simp
  next
    case (Insert_op m)
    then have m: "msg_ok ts m" "site_ok (ms_site m)" using assms(2) Sess by (simp_all add: op_ok_def)
    show ?thesis unfolding Sess Insert_op full_step.simps sess_step.simps
      by (rule autocommit_full [OF assms(1), where P = "\<lambda>_. True"]) (use insert_moved m in simp_all)
  qed
qed

text \<open>C8. A connection begins, commits and rolls back transactions, inserts changes of other replicas, and inserts,
  updates and deletes rows of its tables, in or outside of transactions and in any order: as long as the
  side conditions hold no operation is undefined, and it stays a replica whose tables, clocks, caches and
  peers are sound and which others can read; so does what a rollback leads back to. The side conditions:
  changes are canonical (a key of the right length without NULL, finite values); rows written are of tables with columns outside the
  key, have keys without NULL and finite values, and an update keeps the key of its row; after each step a next version
  fits 64 bits. What is left out does break it: updates of the key (\<open>key_update_loses_row\<close>), a
  change with the largest version (\<open>version_exhausted\<close>) and one without a key (\<open>missing_key_undefined\<close>).\<close>

theorem connections_stay_sound:
  assumes "full_reach E ts s0 s" and "full_inv ts s0"
  shows "full_inv ts s \<and> source ts (ss_conn s) \<and> (\<forall>op. full_ok ts op s \<longrightarrow> full_step E op s \<noteq> None)"
proof -
  have "full_inv ts s" using assms
  proof (induction rule: full_reach.induct)
    case (step s op rc s')
    then have "full_inv ts s" by blast
    from full_step_ok [OF this step.hyps(2), of E] step.hyps(3,4) show ?case by auto
  qed
  then show ?thesis using full_step_ok [of ts s _ E]
    by (auto simp: full_inv_def sess_inv_def db_open_def source_open) blast
qed

text \<open>A row is inserted inside a transaction.\<close>

lemma new_session_full: "full_inv [foo_info] new_session"
proof -
  have "dflts_all [foo_info] (db filled_conn)" by code_simp
  moreover have "tx (ss_conn new_session) = None"
    by (simp add: new_session_def filled_conn_def crr_conn_def test_conn_def)
  ultimately show ?thesis
    using new_session_inv source_filled by (simp add: full_inv_def db_open_def source_open new_session_def)
qed

theorem connections_stay_sound_witness:
  "\<exists>s1 s2. full_step no_env (Sess Begin_op) new_session = Some (SQLITE_OK, s1) \<and>
    full_step no_env (Local foo_info (Insert_row (row_of (VInt 7) VNull))) s1 = Some (SQLITE_OK, s2) \<and>
    source [foo_info] (ss_conn s2)"
proof -
  let ?r = "row_of (VInt 7) VNull"
  define c1 where "c1 = snd (sql_begin filled_conn)"
  define s1 where "s1 = new_session\<lparr>ss_conn := c1\<rparr>"
  have tx: "tx filled_conn = None" by (simp add: filled_conn_def crr_conn_def test_conn_def)
  have c1: "db c1 = db filled_conn" "ext c1 = ext filled_conn" "tx c1 \<noteq> None"
    using tx by (simp_all add: c1_def sql_begin_def)
  have step1: "full_step no_env (Sess Begin_op) new_session = Some (SQLITE_OK, s1)"
    using tx by (simp add: sql_begin_def s1_def c1_def new_session_def)
  have inv1: "full_inv [foo_info] s1" using begin_full [OF new_session_full] by (simp add: s1_def c1_def new_session_def)
  have crr: "crr foo_info (db filled_conn)" by code_simp
  then have w: "writable foo_info c1"
    using source_good [of "[foo_info]" c1 foo_info] inv1 c1(1)
    by (simp add: full_inv_def sess_inv_def db_open_def source_open s1_def good_conn_def)
  have "current_version filled_conn = 7" using current_version_crr_conn by (simp add: filled_conn_def)
  then have v: "current_version c1 = 7" unfolding current_version_def version_cached_def c1 .
  obtain t where t: "db_user (db c1) (ti_tblName foo_info) = Some t" "nulls_ok t ?r" "\<not> list_ex (same_row t ?r) (ut_rows t)"
  proof
    let ?t = "test_user\<lparr>ut_rows := [row_of (VInt 1) (VText ''x''), row_of (VInt 2) VNull]\<rparr>"
    show "db_user (db c1) (ti_tblName foo_info) = Some ?t"
      by (simp add: c1 filled_conn_def crr_conn_def test_db_def foo_info_def test_foo_def)
    show "nulls_ok ?t ?r" "\<not> list_ex (same_row ?t ?r) (ut_rows ?t)" by code_simp+
  qed
  have foo: "ti_tblName foo_info = ''foo''" "ti_nonPks foo_info \<noteq> []" by (simp_all add: foo_info_def test_foo_def)
  obtain c' where c': "local_insert ''foo'' ?r c1 = Some (SQLITE_OK, c')"
    "db c' = upd_clock (clock_name ''foo'') (bump_all (pk_vals foo_info ?r) 8 (map (\<lambda>k. (ci_name k, True)) (ti_nonPks foo_info)))
      (upd_rows ''foo'' (\<lambda>rs. rs @ [?r]) (db filled_conn))"
    using insert_effect [OF w foo(2) t] by (auto simp: foo(1) v c1(1))
  have limit: "below_limit (db c')" unfolding c'(2) by code_simp
  have step2: "full_step no_env (Local foo_info (Insert_row ?r)) s1 = Some (SQLITE_OK, s1\<lparr>ss_conn := c'\<rparr>)"
    using c'(1) c1(3) by (simp add: autocommit_def local_change_def s1_def foo(1))
  have "full_ok [foo_info] (Local foo_info (Insert_row ?r)) new_session" by code_simp
  then have "full_ok [foo_info] (Local foo_info (Insert_row ?r)) s1" using c1(1) by (simp add: s1_def new_session_def)
  from full_reach.step [OF full_reach.start this step2] limit connections_stay_sound [OF _ inv1] step1 step2
  show ?thesis by fastforce
qed

end
