(* ===== verification/Growth.thy ===== *)
theory Growth imports Sessions begin

text \<open>
  What a replica knows only grows: merging a change, writing rows, and committing never lose anything,
  and a change that was merged once stays merged whatever happens afterwards. Only a rollback and
  the updates that the triggers do not record go back.
\<close>

section \<open>Single steps\<close>

lemma apply_op_above: "s \<le> apply_op p s"
  unfolding apply_op_join sup_row_state_def [symmetric] by simp

lemma apply_msg_above: "A \<le> apply_msg m A"
  by (simp add: le_fun_def apply_msg_def apply_op_above)

lemma records_above: "db_records ts v d d' \<Longrightarrow> abs_of ts d \<le> abs_of ts d'"
  using db_records_join by (metis join_db_sup sup_ge2)

lemma absorbed_later: "apply_msg m A = A \<Longrightarrow> A \<le> B \<Longrightarrow> apply_msg m B = B"
  by (erule absorbed_msg_above) (simp only: join_db_sup sup_absorb2)

text \<open>Operations that do not go back.\<close>

fun forward_ok :: "table_info list \<Rightarrow> full_op \<Rightarrow> session \<Rightarrow> bool" where
  "forward_ok ts (Sess op) s \<longleftrightarrow> full_ok ts (Sess op) s \<and> op \<noteq> Rollback_op"
| "forward_ok ts (Local info op) s \<longleftrightarrow> full_ok ts (Local info op) s \<and> op_recorded info (db (ss_conn s)) op"

inductive forward :: "sql_env \<Rightarrow> table_info list \<Rightarrow> session \<Rightarrow> session \<Rightarrow> bool" for E ts s0 where
  start: "forward E ts s0 s0"
| step: "forward E ts s0 s \<Longrightarrow> forward_ok ts op s \<Longrightarrow> full_step E op s = Some (rc, s') \<Longrightarrow>
    below_limit (db (ss_conn s')) \<Longrightarrow> forward E ts s0 s'"

definition know :: "table_info list \<Rightarrow> session \<Rightarrow> abs_db" where
  "know ts s = abs_of ts (db (ss_conn s))"

lemma forward_full: "forward_ok ts op s \<Longrightarrow> full_ok ts op s"
  by (cases op) simp_all

lemma commit_know:
  assumes "replica ts (ss_conn s)" and "sess_commit s = (rc, s')"
  shows "know ts s' = know ts s"
  using commit_db [OF replica_faults [OF assms(1)] assms(2)] by (metis know_def abs_of_peers)

lemma rollback_know:
  assumes "sess_rollback s = (rc, s')" and "tx (ss_conn s) = Some base"
  shows "know ts s' = abs_of ts base"
  using assms by (auto simp: know_def sess_rollback_def sql_rollback_def rollbackHook_def)

lemma autocommit_know:
  assumes "full_inv ts s" and "P s" and "P (s\<lparr>ss_conn := snd (sql_begin (ss_conn s))\<rparr>)"
    and "\<And>s rc s'. full_inv ts s \<Longrightarrow> P s \<Longrightarrow> f s = Some (rc, s') \<Longrightarrow> replica ts (ss_conn s') \<and> tx (ss_conn s') = tx (ss_conn s) \<and>
      know ts s \<le> know ts s'"
    and "autocommit f s = Some (rc, s')"
  shows "know ts s \<le> know ts s'"
proof (cases "tx (ss_conn s)")
  case (Some base)
  then show ?thesis using assms(4) [OF assms(1,2)] assms(5) by (simp add: autocommit_def)
next
  case None
  let ?s = "s\<lparr>ss_conn := snd (sql_begin (ss_conn s))\<rparr>"
  obtain rc1 s1 where s1: "f ?s = Some (rc1, s1)"
    "(if rc1 = SQLITE_OK then sess_commit s1 = (rc, s') else \<exists>r. sess_rollback s1 = (r, s') \<and> rc = rc1)"
    using assms(5) None by (cases "f ?s") (auto simp: autocommit_def split: prod.splits if_splits)
  have b: "know ts ?s = know ts s" "tx (ss_conn ?s) = Some (db (ss_conn s))" using None by (simp_all add: know_def sql_begin_def)
  have f: "replica ts (ss_conn s1)" "tx (ss_conn s1) = Some (db (ss_conn s))" "know ts s \<le> know ts s1"
    using assms(4) [OF begin_full [OF assms(1)] assms(3) s1(1)] b by simp_all
  show ?thesis
  proof (cases "rc1 = SQLITE_OK")
    case True
    then show ?thesis using s1(2) commit_know [OF f(1)] f(3) by auto
  next
    case False
    then show ?thesis using s1(2) rollback_know [OF _ f(2)] by (auto simp: know_def)
  qed
qed

lemma merge_know:
  assumes "full_inv ts s" and "msg_ok ts m" and "insert_change E (columns_of m) s = Some (rc, s')"
  shows "rc = SQLITE_OK \<and> replica ts (ss_conn s') \<and> tx (ss_conn s') = tx (ss_conn s) \<and> know ts s' = apply_msg m (know ts s)"
  using insert_change_ok [of ts s m E] assms by (auto simp: full_inv_def sess_inv_def know_def keeps_def)

lemma write_know:
  assumes "full_inv ts s" and "forward_ok ts (Local info op) s" and "local_change info op s = Some (rc, s')"
  shows "replica ts (ss_conn s') \<and> tx (ss_conn s') = tx (ss_conn s) \<and> know ts s \<le> know ts s'"
proof -
  have src: "source ts (ss_conn s)" using assms(1) by (simp add: full_inv_def sess_inv_def db_open_def source_open)
  have op: "info \<in> set ts" "crr info (db (ss_conn s))" "ti_nonPks info \<noteq> []" "op_fits info (db (ss_conn s)) op"
    "op_recorded info (db (ss_conn s)) op"
    using assms(2) by simp_all
  obtain rc' c' where c': "local_write info op (ss_conn s) = Some (rc', c')" "table_step True info (ss_conn s) c'"
    using local_write_step [OF source_good [OF src op(1,2)] op(3,4)] op(5) by auto
  have "source ts c'" "db_records ts (current_version (ss_conn s) + 1) (db (ss_conn s)) (db c')"
    using table_step_source(1,3) [OF src op(1,2) c'(2)] by simp_all
  moreover have "tx c' = tx (ss_conn s)" using c'(2) by (simp add: table_step_def quiet_def)
  ultimately show ?thesis
    using assms(3) c'(1) records_above by (auto simp: local_change_def know_def source_def)
qed

lemma step_know:
  assumes "full_inv ts s" and "forward_ok ts op s" and "full_step E op s = Some (rc, s')"
  shows "know ts s \<le> know ts s'"
proof (cases op)
  case (Local info lop)
  have begin_db: "db (snd (sql_begin c)) = db c" for c by (simp add: sql_begin_def)
  show ?thesis
    by (rule autocommit_know [OF assms(1), where P = "forward_ok ts (Local info lop)" and f = "local_change info lop"])
      (use write_know assms(2,3) Local begin_db in simp_all)
next
  case (Sess sop)
  have r: "replica ts (ss_conn s)" using assms(1) by (simp add: full_inv_def sess_inv_def)
  show ?thesis
  proof (cases sop)
    case Begin_op
    then show ?thesis using assms(3) Sess by (auto simp: know_def sql_begin_def split: if_splits)
  next
    case Commit_op
    then show ?thesis using assms(3) Sess commit_know [OF r] by simp
  next
    case Rollback_op
    then show ?thesis using assms(2) Sess by simp
  next
    case (Insert_op m)
    then have m: "msg_ok ts m" using assms(2) Sess by (simp add: op_ok_def)
    show ?thesis
      by (rule autocommit_know [OF assms(1), where P = "\<lambda>_. True" and f = "insert_change E (columns_of m)"])
        (use merge_know [OF _ m] apply_msg_above assms(3) Sess Insert_op in fastforce)+
  qed
qed

lemma forward_know:
  assumes "forward E ts s0 s" and "full_inv ts s0"
  shows "full_inv ts s \<and> know ts s0 \<le> know ts s"
  using assms
proof (induction rule: forward.induct)
  case (step s op rc s')
  then have s: "full_inv ts s" "know ts s0 \<le> know ts s" by simp_all
  have "full_inv ts s'"
    using full_step_ok [OF s(1) forward_full [OF step.hyps(2)], of E] step.hyps(3,4) by auto
  then show ?case using step_know [OF s(1) step.hyps(2,3)] s(2) by simp
qed simp

section \<open>Nothing is lost\<close>

lemma delivery_know:
  assumes "full_inv ts s" and "msg_ok ts m" and "full_step E (Sess (Insert_op m)) s = Some (rc, s')"
  shows "know ts s' = apply_msg m (know ts s)"
proof (cases "tx (ss_conn s)")
  case (Some base)
  then show ?thesis using assms(3) merge_know [OF assms(1,2)] by (simp add: autocommit_def)
next
  case None
  let ?s = "s\<lparr>ss_conn := snd (sql_begin (ss_conn s))\<rparr>"
  have b: "full_inv ts ?s" "know ts ?s = know ts s"
    using begin_full [OF assms(1)] by (simp_all add: know_def sql_begin_def)
  obtain s1 where s1: "insert_change E (columns_of m) ?s = Some (SQLITE_OK, s1)" "sess_commit s1 = (rc, s')"
    using assms(3) None merge_know [OF b(1) assms(2)]
    by (cases "insert_change E (columns_of m) ?s") (auto simp: autocommit_def split: prod.splits if_splits)
  from merge_know [OF b(1) assms(2) s1(1)] show ?thesis using commit_know [OF _ s1(2)] b(2) by simp
qed

text \<open>C4. Insert a change of another replica, in or outside of a transaction, and then do anything but roll back:
  merge further changes, write rows, begin and commit transactions. Everything known at any time stays known, in
  particular the change: inserting it again later changes nothing. Four side conditions bound what may be
  done: the changes that are merged are canonical; the rows that are written are of tables with columns
  outside the key, have keys without NULL and finite values; an update keeps the key of the row and is
  recorded by its trigger (no column goes from or to NULL); and after each step a next
  version fits 64 bits.\<close>

theorem delivered_changes_stay:
  assumes "full_inv ts s" and "forward_ok ts (Sess (Insert_op m)) s"
    and "full_step E (Sess (Insert_op m)) s = Some (rc, s1)" and "below_limit (db (ss_conn s1))"
    and "forward E ts s1 s2"
  shows "know ts s1 = apply_msg m (know ts s) \<and> know ts s \<le> know ts s1 \<and> know ts s1 \<le> know ts s2 \<and>
    apply_msg m (know ts s2) = know ts s2"
proof -
  have m: "msg_ok ts m" using assms(2) by (simp add: op_ok_def)
  note d = delivery_know [OF assms(1) m assms(3)]
  have "full_inv ts s1" using full_step_ok [OF assms(1) forward_full [OF assms(2)], of E] assms(3,4) by auto
  then have le: "know ts s1 \<le> know ts s2" using forward_know [OF assms(5)] by blast
  have "apply_msg m (know ts s1) = know ts s1" unfolding d by (rule msgs.idem)
  then show ?thesis using absorbed_later [OF _ le] le d apply_msg_above by simp
qed

text \<open>The deletion of the second row is delivered, and a transaction is begun.\<close>

lemma mergeDelete_db:
  assumes "mergeable info c" and "key_ok info pk"
  shows "\<exists>c'. crsql_mergeDelete E info (key_where info pk) (map quote_val pk) v dbv s c = Some (SQLITE_OK, c') \<and>
    db c' = upd_clock (clock_name (ti_tblName info)) (clock_replace \<lparr>ck_pk = pk, ck_col = DELETE_CID_SENTINEL,
      ck_vrsn = v, ck_dbv = max (current_version c + 1) dbv, ck_site = (if s = [] then None else Some s)\<rparr>)
      (upd_rows (ti_tblName info) (filter (\<lambda>r. \<not> sql_eqs pk (pk_vals info r))) (db c))"
proof -
  let ?f = "filter (\<lambda>r. \<not> sql_eqs pk (pk_vals info r))"
  let ?c = "upd_db (upd_rows (ti_tblName info) ?f) c"
  have c: "conn_ok c" "syncBit c = 0" "schema_inv info (db (c\<lparr>syncBit := 1\<rparr>))" "syncBit (c\<lparr>syncBit := 1\<rparr>) \<noteq> 0"
    using assms(1) by (simp_all add: mergeable_def)
  note w = with_sync_bit [where stmt = "delete_where E z (ti_tblName info) (key_where info pk)" for z,
      OF c(1,2) delete_where_key [OF c(3,4) assms(2)]]
  have "conn_ok ?c" "schema_inv info (db ?c)" using assms(1) by (simp_all add: mergeable_def)
  from setWinnerClock_key [OF this assms(2), of E DELETE_CID_SENTINEL v dbv s] w show ?thesis
    by (auto simp: crsql_mergeDelete_def Let_def)
qed

lemma insert_delete_db:
  assumes "replica ts (ss_conn s)" and "peers_inv (pSeenPeers (ss_vtab s))" and "msg_ok ts m"
    and "ms_cid m = DELETE_CID_SENTINEL"
    and "clock_lookup (clock_rows (db (ss_conn s)) (ti_tblName (ms_info m))) (ms_pk m) DELETE_CID_SENTINEL = None"
  shows "\<exists>s'. insert_change E (columns_of m) s = Some (SQLITE_OK, s') \<and>
    db (ss_conn s') = upd_clock (clock_name (ti_tblName (ms_info m))) (clock_replace \<lparr>ck_pk = ms_pk m,
      ck_col = DELETE_CID_SENTINEL, ck_vrsn = ms_vrsn m, ck_dbv = max (current_version (ss_conn s) + 1) (ms_dbv m),
      ck_site = (if ms_site m = [] then None else Some (ms_site m))\<rparr>)
      (upd_rows (ti_tblName (ms_info m)) (filter (\<lambda>r. \<not> sql_eqs (ms_pk m) (pk_vals (ms_info m) r))) (db (ss_conn s)))"
proof -
  let ?info = "ms_info m" and ?pk = "ms_pk m"
  obtain c1 sp' where m: "crsql_mergeInsert E True (encode m) (pSeenPeers (ss_vtab s)) (ss_conn s) =
      merge_row E ?info (encode m) sp' c1" "mergeable ?info c1" "db c1 = db (ss_conn s)"
    "current_version c1 = current_version (ss_conn s)"
    using mergeInsert_row [OF assms(1,3,2), of E] by blast
  have key: "key_ok ?info ?pk" using assms(3) by (simp add: msg_ok_def)
  have check: "crsql_checkForLocalDelete E (ti_tblName ?info) (key_where ?info ?pk) c1 = (SQLITE_OK, c1)"
    using local_delete_check [OF m(2) key, of E] assms(5) m(3) by simp
  from mergeDelete_db [OF m(2) key, of E "ms_vrsn m" "ms_dbv m" "ms_site m"] obtain c' where
    "crsql_mergeDelete E ?info (key_where ?info ?pk) (map quote_val ?pk) (ms_vrsn m) (ms_dbv m) (ms_site m) c1 =
      Some (SQLITE_OK, c')" and db: "db c' = upd_clock (clock_name (ti_tblName ?info)) (clock_replace \<lparr>ck_pk = ?pk,
      ck_col = DELETE_CID_SENTINEL, ck_vrsn = ms_vrsn m, ck_dbv = max (current_version (ss_conn s) + 1) (ms_dbv m),
      ck_site = (if ms_site m = [] then None else Some (ms_site m))\<rparr>)
      (upd_rows (ti_tblName ?info) (filter (\<lambda>r. \<not> sql_eqs ?pk (pk_vals ?info r))) (db (ss_conn s)))"
    unfolding m(3,4) by blast
  then have "merge_row E ?info (encode m) sp' c1 = merged SQLITE_OK None sp' c'"
    using assms(4) by (simp add: merge_row_def encode_def key_parts [OF key] check strcmp_0_iff)
  with m(1) db show ?thesis
    by (simp add: insert_change_def changesApply_def mergeInsert_received merged_def)
qed

theorem delivered_changes_stay_witness:
  "\<exists>s1 s2. full_step no_env (Sess (Insert_op msg_del)) (new_session\<lparr>ss_conn := snd (sql_begin filled_conn)\<rparr>) = Some (SQLITE_OK, s1) \<and>
    forward no_env [foo_info] s1 s2 \<and> apply_msg msg_del (know [foo_info] s2) = know [foo_info] s2"
proof -
  let ?s = "new_session\<lparr>ss_conn := snd (sql_begin filled_conn)\<rparr>"
  have inv: "full_inv [foo_info] ?s" using begin_full [OF new_session_full] by (simp add: new_session_def)
  have "tx filled_conn = None" by (simp add: filled_conn_def crr_conn_def test_conn_def)
  then have b: "db (ss_conn ?s) = db filled_conn" "tx (ss_conn ?s) \<noteq> None" "ext (ss_conn ?s) = ext filled_conn"
    by (simp_all add: sql_begin_def)
  have "current_version filled_conn = 7" using current_version_crr_conn by (simp add: filled_conn_def)
  then have v: "current_version (ss_conn ?s) = 7" unfolding current_version_def version_cached_def b .
  have r: "replica [foo_info] (ss_conn ?s)" "peers_inv (pSeenPeers (ss_vtab ?s))"
    using inv by (simp_all add: full_inv_def sess_inv_def)
  have "ms_cid msg_del = DELETE_CID_SENTINEL" by (simp add: msg_del_def)
  moreover have "clock_lookup (clock_rows (db (ss_conn ?s)) (ti_tblName (ms_info msg_del))) (ms_pk msg_del) DELETE_CID_SENTINEL = None"
    unfolding b by code_simp
  ultimately obtain s1 where s1: "insert_change no_env (columns_of msg_del) ?s = Some (SQLITE_OK, s1)"
    "db (ss_conn s1) = upd_clock (clock_name (ti_tblName (ms_info msg_del))) (clock_replace \<lparr>ck_pk = ms_pk msg_del,
      ck_col = DELETE_CID_SENTINEL, ck_vrsn = ms_vrsn msg_del, ck_dbv = max (7 + 1) (ms_dbv msg_del),
      ck_site = (if ms_site msg_del = [] then None else Some (ms_site msg_del))\<rparr>)
      (upd_rows (ti_tblName (ms_info msg_del)) (filter (\<lambda>r. \<not> sql_eqs (ms_pk msg_del) (pk_vals (ms_info msg_del) r))) (db filled_conn))"
    using insert_delete_db [OF r msgs_ok(3), of no_env] unfolding v b by blast
  have limit: "below_limit (db (ss_conn s1))" unfolding s1(2) by code_simp
  have step: "full_step no_env (Sess (Insert_op msg_del)) ?s = Some (SQLITE_OK, s1)"
    using s1(1) b(2) by (simp add: autocommit_def)
  have ok: "forward_ok [foo_info] (Sess (Insert_op msg_del)) ?s"
    using msgs_ok(3) by (simp add: op_ok_def msg_del_def site_ok_def)
  obtain rc s2 where s2: "sess_commit s1 = (rc, s2)" by (cases "sess_commit s1")
  have "replica [foo_info] (ss_conn s1)" using insert_change_ok [OF r msgs_ok(3), of no_env] s1(1) by auto
  from commit_db [OF replica_faults [OF this] s2] obtain ps
    where "db (ss_conn s2) = db_peers_update (\<lambda>_. ps) (db (ss_conn s1))" by blast
  then have "below_limit (db (ss_conn s2))" using limit unfolding below_limit_def by (simp only: peers_only)
  then have "forward no_env [foo_info] s1 s2"
    using forward.step [OF forward.start, of "[foo_info]" "Sess Commit_op" s1 no_env] s2 by (simp add: op_ok_def)
  then show ?thesis using delivered_changes_stay [OF inv ok step limit] step by blast
qed

end
