(* ===== verification/Memory.thy ===== *)
theory Memory imports Sqlite_Base begin

text \<open>
  Memory from \<^verbatim>\<open>sqlite3_malloc\<close>: blocks that are allocated, read, written and released. A block that was
  released is never handed out again, so that using a released block, releasing it twice and
  writing past its end are all undefined: \<open>None\<close>.

  The interface is the locale \<open>allocator\<close>; what a loop that releases pointers does is proved there once.
\<close>

section \<open>Pointers and loops\<close>

text \<open>\<open>None\<close> is NULL.\<close>

type_synonym ptr = "nat option"

definition owned :: "ptr list \<Rightarrow> nat list" where
  "owned ps = List.map_filter (\<lambda>p. p) ps"

lemma owned_simps [simp]:
  "owned [] = []" "owned (None # ps) = owned ps" "owned (Some a # ps) = a # owned ps"
  by (simp_all add: owned_def map_filter_simps)

lemma owned_append [simp]: "owned (ps @ qs) = owned ps @ owned qs"
  by (induction ps) (auto simp: owned_def map_filter_simps split: option.split)

lemma set_owned: "set (owned ps) = {a. Some a \<in> set ps}"
  by (induction ps) (auto simp: owned_def map_filter_simps split: option.split)

text \<open>A loop over indices or values that threads the memory.\<close>

fun each :: "('a \<Rightarrow> 'h \<Rightarrow> 'h option) \<Rightarrow> 'a list \<Rightarrow> 'h \<Rightarrow> 'h option" where
  "each f [] h = Some h"
| "each f (x # xs) h = do { h \<leftarrow> f x h; each f xs h }"

section \<open>The interface\<close>

locale allocator =
  fixes live :: "'h \<Rightarrow> nat \<Rightarrow> 'b option"
    and malloc :: "'b \<Rightarrow> 'h \<Rightarrow> nat \<times> 'h"
    and store :: "nat \<Rightarrow> 'b \<Rightarrow> 'h \<Rightarrow> 'h option"
    and release :: "ptr \<Rightarrow> 'h \<Rightarrow> 'h option"
  assumes malloc_fresh: "malloc b h = (a, h') \<Longrightarrow> live h a = None"
    and malloc_live: "malloc b h = (a, h') \<Longrightarrow> live h' = (live h)(a \<mapsto> b)"
    and store_live: "live h a \<noteq> None \<Longrightarrow> \<exists>h'. store a b h = Some h' \<and> live h' = (live h)(a \<mapsto> b)"
    and release_NULL: "release None h = Some h"
    and release_live: "live h a \<noteq> None \<Longrightarrow> \<exists>h'. release (Some a) h = Some h' \<and> live h' = (live h)(a := None)"
    and release_dead: "live h a = None \<Longrightarrow> release (Some a) h = None"
begin

text \<open>Releasing a list of pointers, NULL ones among them, is defined when and only when no block
  comes twice and all are allocated; then exactly they are gone.\<close>

lemma release_each:
  "distinct (owned ps) \<Longrightarrow> set (owned ps) \<subseteq> dom (live h) \<Longrightarrow>
     \<exists>h'. each release ps h = Some h' \<and> live h' = live h |` (- set (owned ps))"
proof (induction ps arbitrary: h)
  case (Cons p ps)
  show ?case
  proof (cases p)
    case None
    with Cons show ?thesis by (simp add: release_NULL)
  next
    case (Some a)
    then obtain h1 where h1: "release (Some a) h = Some h1" "live h1 = (live h)(a := None)"
      using Cons.prems release_live [of h a] by auto
    have "set (owned ps) \<subseteq> dom (live h1)" using Cons.prems Some h1(2) by auto
    then obtain h' where "each release ps h1 = Some h'" "live h' = live h1 |` (- set (owned ps))"
      using Cons.IH [of h1] Cons.prems(1) Some by fastforce
    then show ?thesis using h1 Some by (auto simp: restrict_map_def fun_eq_iff)
  qed
qed (simp add: restrict_map_def)

lemma release_other:
  assumes "release z h = Some h'" and "z \<noteq> Some p"
  shows "live h' p = live h p"
proof (cases z)
  case None
  then show ?thesis using assms(1) by (simp add: release_NULL)
next
  case (Some a)
  then have "live h a \<noteq> None" using assms(1) release_dead [of h a] by fastforce
  from release_live [OF this] show ?thesis using assms Some by auto
qed

text \<open>A loop that reads each pointer from a block before releasing it releases those pointers, if the
  block is not among them.\<close>

lemma release_loaded:
  assumes "\<And>i h'. i \<in> set is \<Longrightarrow> live h' p = b \<Longrightarrow> f i h' = release (z i) h'"
    and "live h p = b" and "p \<notin> set (owned (map z is))"
  shows "each f is h = each release (map z is) h"
  using assms
proof (induction "is" arbitrary: h)
  case (Cons i "is")
  then have i: "f i h = release (z i) h" "z i \<noteq> Some p" "p \<notin> set (owned (map z is))"
    by (auto simp: set_owned)
  show ?case
  proof (cases "release (z i) h")
    case (Some h1)
    then have "live h1 p = b" using release_other i(2) Cons.prems(2) by metis
    then have "each f is h1 = each release (map z is) h1" using Cons.IH Cons.prems(1) i(3) by simp
    then show ?thesis using Some i(1) by simp
  qed (use i(1) in simp)
qed simp

lemma release_each_defined:
  "each release ps h \<noteq> None \<Longrightarrow> distinct (owned ps) \<and> set (owned ps) \<subseteq> dom (live h)"
proof (induction ps arbitrary: h)
  case (Cons p ps)
  show ?case
  proof (cases p)
    case None
    with Cons show ?thesis by (simp add: release_NULL)
  next
    case (Some a)
    then have "live h a \<noteq> None" using Cons.prems release_dead [of h a] by fastforce
    with release_live obtain h1 where h1: "release (Some a) h = Some h1" "live h1 = (live h)(a := None)" by blast
    then have "each release ps h1 \<noteq> None" using Cons.prems Some by simp
    from Cons.IH [OF this] show ?thesis using h1(2) Some \<open>live h a \<noteq> None\<close> by (auto split: if_splits)
  qed
qed simp

end

section \<open>Blocks\<close>

text \<open>A memory is the list of all blocks ever allocated. The sizes of blocks are in elements.\<close>

type_synonym 'b memory = "'b option list"

definition live :: "'b memory \<Rightarrow> nat \<Rightarrow> 'b option" where
  "live h a = (if a < length h then h ! a else None)"

definition sqlite3_malloc :: "'b \<Rightarrow> 'b memory \<Rightarrow> nat \<times> 'b memory" where
  "sqlite3_malloc b h = (length h, h @ [Some b])"

definition store :: "nat \<Rightarrow> 'b \<Rightarrow> 'b memory \<Rightarrow> 'b memory option" where
  "store a b h = (if live h a = None then None else Some (h[a := Some b]))"

definition sqlite3_free :: "ptr \<Rightarrow> 'b memory \<Rightarrow> 'b memory option" where
  "sqlite3_free p h = (case p of None \<Rightarrow> Some h
     | Some a \<Rightarrow> if live h a = None then None else Some (h[a := None]))"

interpretation heap: allocator live sqlite3_malloc store sqlite3_free
  by unfold_locales
    (auto simp: live_def sqlite3_malloc_def store_def sqlite3_free_def fun_eq_iff nth_append nth_list_update
      split: if_splits)

end
