(* ===== verification/Peers_Heap.thy ===== *)
theory Peers_Heap imports Seen_Peers Memory begin

text \<open>
  \<^verbatim>\<open>core/src/seen-peers.c\<close> at the level of pointers: a header, an array of slots, and a copy of each site
  id in a block of its own. The lists of \<^verbatim>\<open>Seen_Peers\<close> are what this memory represents
  (\<open>peers_at\<close>); every operation on it does to the list what the operation there does, and releasing
  the structure gives back all of its memory, whatever was done before.

  \<^verbatim>\<open>sqlite3_malloc\<close> works, as its result is not checked; \<^verbatim>\<open>sqlite3_realloc\<close> may fail, and always
  moves. \<^verbatim>\<open>sqlite3_malloc(0)\<close> is NULL, and copying no bytes to NULL does nothing.
\<close>

section \<open>The structure\<close>

record slot =
  sl_siteId :: ptr
  sl_siteIdLen :: nat
  sl_clock :: int

text \<open>\<open>Raw\<close> is a structure not written yet, a slot of \<open>None\<close> one not written yet.\<close>

datatype peers_block =
    Raw
  | Header ptr nat nat
  | Slots "slot option list"
  | Site blob

type_synonym peers_memory = "peers_block memory"

definition load_header :: "peers_memory \<Rightarrow> ptr \<Rightarrow> (ptr \<times> nat \<times> nat) option" where
  "load_header h p = do {
     a \<leftarrow> p;
     b \<leftarrow> live h a;
     case b of Header ps len cap \<Rightarrow> Some (ps, len, cap) | _ \<Rightarrow> None
   }"

definition load_slots :: "peers_memory \<Rightarrow> ptr \<Rightarrow> slot option list option" where
  "load_slots h p = do {
     a \<leftarrow> p;
     b \<leftarrow> live h a;
     case b of Slots ss \<Rightarrow> Some ss | _ \<Rightarrow> None
   }"

definition load_slot :: "peers_memory \<Rightarrow> ptr \<Rightarrow> nat \<Rightarrow> slot option" where
  "load_slot h p i = do {
     ss \<leftarrow> load_slots h p;
     if i < length ss then ss ! i else None
   }"

definition load_bytes :: "peers_memory \<Rightarrow> ptr \<Rightarrow> nat \<Rightarrow> blob option" where
  "load_bytes h p n = (if n = 0 then Some [] else do {
     a \<leftarrow> p;
     b \<leftarrow> live h a;
     case b of Site s \<Rightarrow> if n \<le> length s then Some (take n s) else None | _ \<Rightarrow> None
   })"

definition store_at :: "ptr \<Rightarrow> peers_block \<Rightarrow> peers_memory \<Rightarrow> peers_memory option" where
  "store_at p b h = do { a \<leftarrow> p; store a b h }"

definition store_slot :: "ptr \<Rightarrow> nat \<Rightarrow> slot \<Rightarrow> peers_memory \<Rightarrow> peers_memory option" where
  "store_slot p i s h = do {
     ss \<leftarrow> load_slots h p;
     if i < length ss then store_at p (Slots (ss[i := Some s])) h else None
   }"

definition realloc_slots :: "ptr \<Rightarrow> nat \<Rightarrow> peers_memory \<Rightarrow> (ptr \<times> peers_memory) option" where
  "realloc_slots p n h = do {
     ss \<leftarrow> load_slots h p;
     let (q, h) = sqlite3_malloc (Slots (take n ss @ replicate (n - length ss) None)) h;
     h \<leftarrow> sqlite3_free p h;
     Some (Some q, h)
   }"

definition copy_site :: "blob \<Rightarrow> peers_memory \<Rightarrow> ptr \<times> peers_memory" where
  "copy_site sid h = (if sid = [] then (None, h)
     else let (a, h) = sqlite3_malloc (Site sid) h in (Some a, h))"

section \<open>The operations\<close>

definition new_peers_at :: "peers_memory \<Rightarrow> (ptr \<times> peers_memory) option" where
  "new_peers_at h =
     (let (ret, h) = sqlite3_malloc Raw h;
          (ps, h) = sqlite3_malloc (Slots (replicate CRSQL_SEEN_PEERS_INITIAL_SIZE None)) h;
          zero = \<lparr>sl_siteId = None, sl_siteIdLen = 0, sl_clock = 0\<rparr>
      in do {
        h \<leftarrow> store ps (Slots (replicate CRSQL_SEEN_PEERS_INITIAL_SIZE (Some zero))) h;
        h \<leftarrow> store ret (Header (Some ps) 0 CRSQL_SEEN_PEERS_INITIAL_SIZE) h;
        Some (Some ret, h)
      })"

definition free_site :: "ptr \<Rightarrow> nat \<Rightarrow> peers_memory \<Rightarrow> peers_memory option" where
  "free_site ps i h = do { s \<leftarrow> load_slot h ps i; sqlite3_free (sl_siteId s) h }"

definition crsql_freeSeenPeers :: "ptr \<Rightarrow> peers_memory \<Rightarrow> peers_memory option" where
  "crsql_freeSeenPeers a h = do {
     (ps, len, cap) \<leftarrow> load_header h a;
     h \<leftarrow> each (free_site ps) [0..<len] h;
     h \<leftarrow> sqlite3_free ps h;
     sqlite3_free a h
   }"

definition reset_peers_at :: "ptr \<Rightarrow> peers_memory \<Rightarrow> peers_memory option" where
  "reset_peers_at a h = do {
     (ps, len, cap) \<leftarrow> load_header h a;
     h \<leftarrow> each (free_site ps) [0..<len] h;
     store_at a (Header ps 0 cap) h
   }"

text \<open>The search: the index of the peer, if it is there.\<close>

fun find_slot :: "peers_memory \<Rightarrow> ptr \<Rightarrow> blob \<Rightarrow> nat list \<Rightarrow> nat option option" where
  "find_slot h ps sid [] = Some None"
| "find_slot h ps sid (i # is) = do {
     s \<leftarrow> load_slot h ps i;
     b \<leftarrow> load_bytes h (sl_siteId s) (sl_siteIdLen s);
     if crsql_siteIdCmp sid b = 0 then Some (Some i) else find_slot h ps sid is
   }"

definition append_slot :: "ptr \<Rightarrow> ptr \<Rightarrow> nat \<Rightarrow> nat \<Rightarrow> blob \<Rightarrow> int \<Rightarrow> peers_memory \<Rightarrow> (int \<times> peers_memory) option" where
  "append_slot a ps len cap sid clock h =
     (let (q, h) = copy_site sid h in do {
        h \<leftarrow> store_slot ps len \<lparr>sl_siteId = q, sl_siteIdLen = length sid, sl_clock = clock\<rparr> h;
        h \<leftarrow> store_at a (Header ps (len + 1) cap) h;
        Some (SQLITE_OK, h)
      })"

definition track_peer_at :: "bool \<Rightarrow> ptr \<Rightarrow> blob \<Rightarrow> int \<Rightarrow> peers_memory \<Rightarrow> (int \<times> peers_memory) option" where
  "track_peer_at realloc_ok a sid clock h = do {
     (ps, len, cap) \<leftarrow> load_header h a;
     found \<leftarrow> find_slot h ps sid [0..<len];
     case found of
       Some i \<Rightarrow> do {
         s \<leftarrow> load_slot h ps i;
         h \<leftarrow> (if sl_clock s < clock then store_slot ps i (s\<lparr>sl_clock := clock\<rparr>) h else Some h);
         Some (SQLITE_OK, h)
       }
     | None \<Rightarrow>
         if len = cap then do {
           h \<leftarrow> store_at a (Header ps len (cap * 2)) h;
           if \<not> realloc_ok then Some (SQLITE_ERROR, h)
           else do {
             (ps, h) \<leftarrow> realloc_slots ps (cap * 2) h;
             h \<leftarrow> store_at a (Header ps len (cap * 2)) h;
             append_slot a ps len (cap * 2) sid clock h
           }
         }
         else append_slot a ps len cap sid clock h
   }"

section \<open>What the memory represents\<close>

fun site_at :: "peers_memory \<Rightarrow> slot \<Rightarrow> seen_peer \<Rightarrow> bool" where
  "site_at h s v \<longleftrightarrow> sl_siteIdLen s = length (sp_siteId v) \<and> sl_clock s = sp_clock v \<and>
     (case sl_siteId s of None \<Rightarrow> sp_siteId v = [] | Some q \<Rightarrow> live h q = Some (Site (sp_siteId v)) \<and> sp_siteId v \<noteq> [])"

abbreviation sites :: "slot list \<Rightarrow> nat list" where
  "sites used \<equiv> owned (map sl_siteId used)"

text \<open>The structure at \<open>a\<close> represents \<open>v\<close>, with the array at \<open>p\<close> and the slots \<open>used\<close>; its blocks are
  \<open>a\<close>, \<open>p\<close> and those of the site ids, all different.\<close>

definition peers_at :: "peers_memory \<Rightarrow> nat \<Rightarrow> nat \<Rightarrow> slot list \<Rightarrow> seen_peers \<Rightarrow> bool" where
  "peers_at h a p used v \<longleftrightarrow>
     live h a = Some (Header (Some p) (length used) (capacity v)) \<and>
     (\<exists>rest. live h p = Some (Slots (map Some used @ rest)) \<and> length used + length rest = slots v) \<and>
     list_all2 (site_at h) used (peers v) \<and> distinct (a # p # sites used)"

definition others :: "peers_memory \<Rightarrow> nat \<Rightarrow> nat \<Rightarrow> slot list \<Rightarrow> nat \<Rightarrow> peers_block option" where
  "others h a p used = live h |` (- set (a # p # sites used))"

section \<open>Reading the structure\<close>

lemma site_at_frame:
  "list_all2 (site_at h) used vs \<Longrightarrow> (\<And>q. q \<in> set (sites used) \<Longrightarrow> live h' q = live h q) \<Longrightarrow>
     list_all2 (site_at h') used vs"
  by (erule list.rel_mono_strong) (force simp: set_owned split: option.splits)

lemma sites_live: "list_all2 (site_at h) used vs \<Longrightarrow> set (sites used) \<subseteq> dom (live h)"
  by (induction rule: list_all2_induct) (auto simp: owned_def map_filter_simps split: option.splits)

lemma peers_atE:
  assumes "peers_at h a p used v"
  obtains rest where "live h a = Some (Header (Some p) (length used) (capacity v))"
    "live h p = Some (Slots (map Some used @ rest))" "length used + length rest = slots v"
    "list_all2 (site_at h) used (peers v)" "length (peers v) = length used"
    "a \<noteq> p" "a \<notin> set (sites used)" "p \<notin> set (sites used)" "distinct (sites used)"
    "set (sites used) \<subseteq> dom (live h)"
  using assms sites_live unfolding peers_at_def by (fastforce dest: list_all2_lengthD)

lemma load_header_at [simp]: "live h a = Some (Header ps len cap) \<Longrightarrow> load_header h (Some a) = Some (ps, len, cap)"
  by (simp add: load_header_def)

lemma load_slots_at [simp]: "live h p = Some (Slots ss) \<Longrightarrow> load_slots h (Some p) = Some ss"
  by (simp add: load_slots_def)

lemma load_slot_used:
  "live h p = Some (Slots (map Some used @ rest)) \<Longrightarrow> i < length used \<Longrightarrow> load_slot h (Some p) i = Some (used ! i)"
  by (simp add: load_slot_def nth_append)

lemma load_bytes_site: "site_at h s v \<Longrightarrow> load_bytes h (sl_siteId s) (sl_siteIdLen s) = Some (sp_siteId v)"
  by (auto simp: load_bytes_def split: option.splits)

lemma store_ok:
  assumes "live h a \<noteq> None"
  obtains h' where "store a b h = Some h'" "live h' = (live h)(a \<mapsto> b)"
  using heap.store_live [OF assms] by blast

lemma free_ok:
  assumes "live h a \<noteq> None"
  obtains h' where "sqlite3_free (Some a) h = Some h'" "live h' = (live h)(a := None)"
  using heap.release_live [OF assms] by blast

section \<open>Releasing\<close>

lemma free_sites:
  assumes "peers_at h a p used v"
  obtains h' where "each (free_site (Some p)) [0..<length used] h = Some h'"
    "live h' = live h |` (- set (sites used))"
proof -
  obtain rest where f: "live h p = Some (Slots (map Some used @ rest))" "p \<notin> set (sites used)"
    "distinct (sites used)" "set (sites used) \<subseteq> dom (live h)"
    using assms by (rule peers_atE)
  have map: "map (\<lambda>i. sl_siteId (used ! i)) [0..<length used] = map sl_siteId used"
    by (rule nth_equalityI) simp_all
  have "each (free_site (Some p)) [0..<length used] h = each sqlite3_free (map (\<lambda>i. sl_siteId (used ! i)) [0..<length used]) h"
    by (rule heap.release_loaded [OF _ f(1)]) (use f(2) map in \<open>simp_all add: free_site_def load_slot_used\<close>)
  then have "each (free_site (Some p)) [0..<length used] h = each sqlite3_free (map sl_siteId used) h" unfolding map .
  with heap.release_each [OF f(3,4)] that show thesis by auto
qed

lemma free_peers_ok:
  assumes "peers_at h a p used v"
  shows "\<exists>h'. crsql_freeSeenPeers (Some a) h = Some h' \<and> live h' = others h a p used"
proof -
  obtain rest where f: "live h a = Some (Header (Some p) (length used) (capacity v))"
    "live h p = Some (Slots (map Some used @ rest))" "a \<noteq> p" "a \<notin> set (sites used)" "p \<notin> set (sites used)"
    using assms by (rule peers_atE)
  obtain h1 where h1: "each (free_site (Some p)) [0..<length used] h = Some h1"
    "live h1 = live h |` (- set (sites used))"
    using free_sites [OF assms] .
  then have "live h1 p \<noteq> None" using f by simp
  then obtain h2 where h2: "sqlite3_free (Some p) h1 = Some h2" "live h2 = (live h1)(p := None)" by (rule free_ok)
  then have "live h2 a \<noteq> None" using f h1 by simp
  then obtain h3 where h3: "sqlite3_free (Some a) h2 = Some h3" "live h3 = (live h2)(a := None)" by (rule free_ok)
  have "live h3 = others h a p used"
    unfolding h3(2) h2(2) h1(2) others_def by (auto simp: fun_eq_iff restrict_map_def)
  then show ?thesis using f(1) h1(1) h2(1) h3(1) by (simp add: crsql_freeSeenPeers_def)
qed

lemma reset_peers_ok:
  assumes "peers_at h a p used v"
  shows "\<exists>h'. reset_peers_at (Some a) h = Some h' \<and> peers_at h' a p [] (crsql_resetSeenPeers v) \<and>
    others h' a p [] = others h a p used"
proof -
  obtain rest where f: "live h a = Some (Header (Some p) (length used) (capacity v))"
    "live h p = Some (Slots (map Some used @ rest))" "length used + length rest = slots v"
    "a \<noteq> p" "a \<notin> set (sites used)" "p \<notin> set (sites used)"
    using assms by (rule peers_atE)
  obtain h1 where h1: "each (free_site (Some p)) [0..<length used] h = Some h1"
    "live h1 = live h |` (- set (sites used))"
    using free_sites [OF assms] .
  then have "live h1 a \<noteq> None" using f by simp
  then obtain h2 where h2: "store a (Header (Some p) 0 (capacity v)) h1 = Some h2"
    "live h2 = (live h1)(a \<mapsto> Header (Some p) 0 (capacity v))" by (rule store_ok)
  have "peers_at h2 a p [] (crsql_resetSeenPeers v)"
    using f h1(2) h2(2) by (auto simp: peers_at_def crsql_resetSeenPeers_def)
  moreover have "others h2 a p [] = others h a p used"
    unfolding others_def h2(2) h1(2) by (auto simp: fun_eq_iff restrict_map_def)
  ultimately show ?thesis using f(1) h1(1) h2(1) by (simp add: reset_peers_at_def store_at_def)
qed

section \<open>Searching\<close>

lemma find_slot_eq:
  "list_all (\<lambda>i. load_slot h ps i = Some (used ! i) \<and> site_at h (used ! i) (vs ! i)) is \<Longrightarrow>
     find_slot h ps sid is = Some (find (\<lambda>i. sid = sp_siteId (vs ! i)) is)"
proof (induction "is")
  case (Cons i "is")
  then have "load_bytes h (sl_siteId (used ! i)) (sl_siteIdLen (used ! i)) = Some (sp_siteId (vs ! i))"
    by (simp add: load_bytes_site del: site_at.simps)
  with Cons show ?case by simp
qed simp

lemma find_map_index: "find P (map f xs) = map_option f (find (\<lambda>x. P (f x)) xs)"
  by (induction xs) auto

lemma update_seen_index:
  "update_seen vs sid clock = map_option (\<lambda>i. vs[i := (if sp_clock (vs ! i) < clock
       then (vs ! i)\<lparr>sp_clock := clock\<rparr> else vs ! i)]) (find (\<lambda>i. sid = sp_siteId (vs ! i)) [0..<length vs])"
proof (induction vs)
  case (Cons v vs)
  have "[0..<length (v # vs)] = 0 # map Suc [0..<length vs]" by (simp add: upt_conv_Cons map_Suc_upt del: upt_Suc)
  then show ?case using Cons by (auto simp: find_map_index option.map_comp comp_def simp del: upt_Suc cong: if_cong)
qed simp

lemma find_peer:
  assumes "peers_at h a p used v"
  shows "find_slot h (Some p) sid [0..<length used] = Some (find (\<lambda>i. sid = sp_siteId (peers v ! i)) [0..<length used])"
proof (rule find_slot_eq)
  obtain rest where f: "live h p = Some (Slots (map Some used @ rest))" "list_all2 (site_at h) used (peers v)"
    using assms by (rule peers_atE)
  show "list_all (\<lambda>i. load_slot h (Some p) i = Some (used ! i) \<and> site_at h (used ! i) (peers v ! i)) [0..<length used]"
    using load_slot_used [OF f(1)] list_all2_nthD [OF f(2)] by (simp add: list_all_iff del: site_at.simps)
qed

section \<open>Recording a peer\<close>

lemma update_slot_ok:
  assumes "peers_at h a p used v" and "i < length used"
  shows "\<exists>h' used'. store_slot (Some p) i ((used ! i)\<lparr>sl_clock := clock\<rparr>) h = Some h' \<and>
    peers_at h' a p used' (v\<lparr>peers := (peers v)[i := (peers v ! i)\<lparr>sp_clock := clock\<rparr>]\<rparr>) \<and>
    others h' a p used' = others h a p used"
proof -
  obtain rest where f: "live h a = Some (Header (Some p) (length used) (capacity v))"
    "live h p = Some (Slots (map Some used @ rest))" "length used + length rest = slots v"
    "list_all2 (site_at h) used (peers v)" "length (peers v) = length used"
    "a \<noteq> p" "a \<notin> set (sites used)" "p \<notin> set (sites used)" "distinct (sites used)"
    using assms(1) by (rule peers_atE)
  let ?used = "used[i := (used ! i)\<lparr>sl_clock := clock\<rparr>]"
  have same: "map sl_siteId ?used = map sl_siteId used"
    using assms(2) by (simp add: map_update list_update_same_conv)
  obtain h' where h': "store p (Slots (map Some ?used @ rest)) h = Some h'"
    "live h' = (live h)(p \<mapsto> Slots (map Some ?used @ rest))"
    using store_ok f(2) by (metis option.distinct(1))
  have "list_all2 (site_at h') used (peers v)"
    by (rule site_at_frame [OF f(4)]) (use f(8) h'(2) in auto)
  then have "list_all2 (site_at h') ?used ((peers v)[i := (peers v ! i)\<lparr>sp_clock := clock\<rparr>])"
    using list_all2_nthD [of "site_at h'" used "peers v" i] assms(2) f(5)
    by (intro list_all2_update_cong) (auto split: option.splits)
  then have "peers_at h' a p ?used (v\<lparr>peers := (peers v)[i := (peers v ! i)\<lparr>sp_clock := clock\<rparr>]\<rparr>)"
    using f h'(2) unfolding peers_at_def same by simp
  moreover have "others h' a p ?used = others h a p used"
    unfolding others_def h'(2) same by (auto simp: fun_eq_iff restrict_map_def)
  moreover have "store_slot (Some p) i ((used ! i)\<lparr>sl_clock := clock\<rparr>) h = Some h'"
    using h'(1) f(2) assms(2) by (simp add: store_slot_def store_at_def list_update_append map_update)
  ultimately show ?thesis by blast
qed

lemma append_slot_ok:
  assumes "peers_at h a p used v"
  shows "if length used < slots v
    then \<exists>h' used'. append_slot (Some a) (Some p) (length used) (capacity v) sid clock h = Some (SQLITE_OK, h') \<and>
      peers_at h' a p used' (v\<lparr>peers := peers v @ [\<lparr>sp_siteId = sid, sp_clock = clock\<rparr>]\<rparr>) \<and>
      others h' a p used' = others h a p used
    else append_slot (Some a) (Some p) (length used) (capacity v) sid clock h = None"
proof -
  obtain rest where f: "live h a = Some (Header (Some p) (length used) (capacity v))"
    "live h p = Some (Slots (map Some used @ rest))" "length used + length rest = slots v"
    "list_all2 (site_at h) used (peers v)" "length (peers v) = length used"
    "a \<noteq> p" "a \<notin> set (sites used)" "p \<notin> set (sites used)" "distinct (sites used)"
    "set (sites used) \<subseteq> dom (live h)"
    using assms by (rule peers_atE)
  obtain q h1 where c: "copy_site sid h = (q, h1)" by fastforce
  let ?s = "\<lparr>sl_siteId = q, sl_siteIdLen = length sid, sl_clock = clock\<rparr>"
  let ?v = "\<lparr>sp_siteId = sid, sp_clock = clock\<rparr>"
  have h1: "live h1 x = live h x" if "live h x \<noteq> None" for x
    using c that heap.malloc_live [of "Site sid" h] heap.malloc_fresh [of "Site sid" h]
    by (cases "sqlite3_malloc (Site sid) h") (auto simp: copy_site_def split: if_splits)
  have q: "site_at h1 ?s ?v" "owned [q] = [] \<or> (\<exists>b. owned [q] = [b] \<and> live h b = None)"
    "\<And>x. Some x \<noteq> q \<Longrightarrow> live h1 x = live h x"
    using c heap.malloc_live [of "Site sid" h] heap.malloc_fresh [of "Site sid" h]
    by (cases "sqlite3_malloc (Site sid) h"; fastforce simp: copy_site_def split: if_splits)+
  have p1: "live h1 p = Some (Slots (map Some used @ rest))" using h1 f(2) by simp
  show ?thesis
  proof (cases rest)
    case Nil
    then show ?thesis using f(3) p1 c by (simp add: append_slot_def store_slot_def)
  next
    case (Cons r rest')
    let ?ss = "map Some (used @ [?s]) @ rest'"
    obtain h2 where h2: "store p (Slots ?ss) h1 = Some h2" "live h2 = (live h1)(p \<mapsto> Slots ?ss)"
      using store_ok p1 by (metis option.distinct(1))
    have a2: "live h2 a = live h a" using h2(2) f h1 by simp
    obtain h3 where h3: "store a (Header (Some p) (length used + 1) (capacity v)) h2 = Some h3"
      "live h3 = (live h2)(a \<mapsto> Header (Some p) (length used + 1) (capacity v))"
      using store_ok a2 f(1) by (metis option.distinct(1))
    have fresh: "Some x \<noteq> q" if "live h x \<noteq> None" for x using q(2) that by (cases q) auto
    have "list_all2 (site_at h3) used (peers v)"
    proof (rule site_at_frame [OF f(4)])
      fix x assume x: "x \<in> set (sites used)"
      then have "live h x \<noteq> None" "x \<noteq> a" "x \<noteq> p" using f(7,8,10) by auto
      then show "live h3 x = live h x" using h1 h2(2) h3(2) by simp
    qed
    moreover have "site_at h3 ?s ?v"
      using q(1) fresh [of a] fresh [of p] f(1,2) h2(2) h3(2) by (auto split: option.splits)
    ultimately have "list_all2 (site_at h3) (used @ [?s]) (peers v @ [?v])"
      by (simp add: list_all2_appendI del: site_at.simps)
    moreover have "distinct (a # p # sites (used @ [?s]))"
      using f(6-10) q(2) f(1,2) by (cases q) auto
    ultimately have "peers_at h3 a p (used @ [?s]) (v\<lparr>peers := peers v @ [?v]\<rparr>)"
      using f(3,6) h2(2) h3(2) Cons by (auto simp: peers_at_def)
    moreover have "others h3 a p (used @ [?s]) = others h a p used"
      using q h2(2) h3(2) by (cases q) (auto simp: others_def fun_eq_iff restrict_map_def)
    moreover have "append_slot (Some a) (Some p) (length used) (capacity v) sid clock h = Some (SQLITE_OK, h3)"
      using c p1 h2(1) h3(1) Cons by (simp add: append_slot_def store_slot_def store_at_def list_update_append)
    ultimately show ?thesis using f(3) Cons by auto
  qed
qed

lemma capacity_ok:
  assumes "peers_at h a p used v"
  shows "\<exists>h'. store_at (Some a) (Header (Some p) (length used) c) h = Some h' \<and>
    peers_at h' a p used (v\<lparr>capacity := c\<rparr>) \<and> others h' a p used = others h a p used"
proof -
  obtain rest where f: "live h a = Some (Header (Some p) (length used) (capacity v))"
    "live h p = Some (Slots (map Some used @ rest))" "length used + length rest = slots v"
    "list_all2 (site_at h) used (peers v)" "a \<noteq> p" "a \<notin> set (sites used)" "p \<notin> set (sites used)"
    "distinct (sites used)"
    using assms by (rule peers_atE)
  then obtain h' where h': "store a (Header (Some p) (length used) c) h = Some h'"
    "live h' = (live h)(a \<mapsto> Header (Some p) (length used) c)"
    using store_ok by (metis option.distinct(1))
  have "list_all2 (site_at h') used (peers v)"
    by (rule site_at_frame [OF f(4)]) (use f(6) h'(2) in auto)
  then have "peers_at h' a p used (v\<lparr>capacity := c\<rparr>)" using f h'(2) by (simp add: peers_at_def)
  moreover have "others h' a p used = others h a p used"
    by (auto simp: others_def h'(2) fun_eq_iff restrict_map_def)
  ultimately show ?thesis using h'(1) by (auto simp: store_at_def)
qed

lemma grow_ok:
  assumes "peers_at h a p used v" and "length used \<le> c"
  shows "\<exists>q h1 h2. realloc_slots (Some p) c h = Some (Some q, h1) \<and>
    store_at (Some a) (Header (Some q) (length used) c) h1 = Some h2 \<and>
    peers_at h2 a q used (v\<lparr>capacity := c, slots := c\<rparr>) \<and> others h2 a q used = others h a p used"
proof -
  obtain rest where f: "live h a = Some (Header (Some p) (length used) (capacity v))"
    "live h p = Some (Slots (map Some used @ rest))" "length used + length rest = slots v"
    "list_all2 (site_at h) used (peers v)" "length (peers v) = length used"
    "a \<noteq> p" "a \<notin> set (sites used)" "p \<notin> set (sites used)" "distinct (sites used)"
    "set (sites used) \<subseteq> dom (live h)"
    using assms(1) by (rule peers_atE)
  define rest' where "rest' = take (c - length used) rest @ replicate (c - length (map Some used @ rest)) None"
  have len: "length used + length rest' = c" using assms(2) by (simp add: rest'_def min_def)
  have ss: "take c (map Some used @ rest) @ replicate (c - length (map Some used @ rest)) None = map Some used @ rest'"
    using assms(2) by (simp add: rest'_def)
  obtain q h0 where m: "sqlite3_malloc (Slots (map Some used @ rest')) h = (q, h0)" by fastforce
  note q = heap.malloc_fresh [OF m] heap.malloc_live [OF m]
  have ne: "q \<noteq> a" "q \<noteq> p" "q \<notin> set (sites used)" using q(1) f(1,2,10) by auto
  obtain h1 where h1: "sqlite3_free (Some p) h0 = Some h1" "live h1 = (live h0)(p := None)"
    using free_ok [of h0 p] f(2) ne q(2) by auto
  obtain h2 where h2: "store a (Header (Some q) (length used) c) h1 = Some h2"
    "live h2 = (live h1)(a \<mapsto> Header (Some q) (length used) c)"
    using store_ok [of h1 a] f(1,6) ne q(2) h1(2) by auto
  have "list_all2 (site_at h2) used (peers v)"
    by (rule site_at_frame [OF f(4)]) (use f(7,8) ne q(2) h1(2) h2(2) in auto)
  then have "peers_at h2 a q used (v\<lparr>capacity := c, slots := c\<rparr>)"
    using f ne q(2) h1(2) h2(2) len by (auto simp: peers_at_def)
  moreover have "others h2 a q used = others h a p used"
    using q by (auto simp: others_def h1(2) h2(2) fun_eq_iff restrict_map_def)
  moreover have "realloc_slots (Some p) c h = Some (Some q, h1)"
    using f(2) h1(1) m unfolding realloc_slots_def by (simp add: ss [simplified])
  moreover have "store_at (Some a) (Header (Some q) (length used) c) h1 = Some h2" using h2(1) by (simp add: store_at_def)
  ultimately show ?thesis by blast
qed

text \<open>\<open>agree\<close>: the operation on the list is undefined and that on the memory is, or both have the same
  result code and the new memory represents the new list; nothing else in the memory has changed.\<close>

definition agree :: "nat \<Rightarrow> (nat \<Rightarrow> peers_block option) \<Rightarrow> ('r \<times> seen_peers) option \<Rightarrow> ('r \<times> peers_memory) option \<Rightarrow> bool" where
  "agree a oth x y \<longleftrightarrow> (case x of None \<Rightarrow> y = None
     | Some (rc, v) \<Rightarrow> (\<exists>h p used. y = Some (rc, h) \<and> peers_at h a p used v \<and> others h a p used = oth))"

lemma append_agree:
  assumes "peers_at h a p used v" and "others h a p used = oth"
  shows "agree a oth
    (if length (peers v) < slots v then Some (SQLITE_OK, v\<lparr>peers := peers v @ [\<lparr>sp_siteId = sid, sp_clock = clock\<rparr>]\<rparr>) else None)
    (append_slot (Some a) (Some p) (length used) (capacity v) sid clock h)"
proof -
  have "length (peers v) = length used" using assms(1) by (rule peers_atE)
  then show ?thesis using append_slot_ok [OF assms(1), of sid clock] assms(2) by (auto simp: agree_def split: if_splits)
qed

lemma track_agree:
  assumes "peers_at h a p used v"
  shows "agree a (others h a p used) (crsql_trackSeenPeer ok v sid clock) (track_peer_at ok (Some a) sid clock h)"
proof -
  obtain rest where f: "live h a = Some (Header (Some p) (length used) (capacity v))"
    "live h p = Some (Slots (map Some used @ rest))" "length (peers v) = length used"
    "list_all2 (site_at h) used (peers v)"
    using assms by (rule peers_atE)
  note find = find_peer [OF assms, of sid] update_seen_index [of "peers v" sid clock]
  show ?thesis
  proof (cases "find (\<lambda>i. sid = sp_siteId (peers v ! i)) [0..<length used]")
    case (Some i)
    then have i: "i < length used" by (auto simp: find_Some_iff)
    then have s: "load_slot h (Some p) i = Some (used ! i)" "sl_clock (used ! i) = sp_clock (peers v ! i)"
      using load_slot_used [OF f(2)] list_all2_nthD [OF f(4)] by simp_all
    obtain h1 used1 where u: "store_slot (Some p) i ((used ! i)\<lparr>sl_clock := clock\<rparr>) h = Some h1"
      "peers_at h1 a p used1 (v\<lparr>peers := (peers v)[i := (peers v ! i)\<lparr>sp_clock := clock\<rparr>]\<rparr>)"
      "others h1 a p used1 = others h a p used"
      using update_slot_ok [OF assms i] by blast
    show ?thesis
    proof (cases "sp_clock (peers v ! i) < clock")
      case True
      then show ?thesis using find Some s u f(1,3)
        by (auto simp: track_peer_at_def crsql_trackSeenPeer_def agree_def)
    next
      case False
      then show ?thesis using find Some s f(1,3) assms
        by (auto simp: track_peer_at_def crsql_trackSeenPeer_def agree_def)
    qed
  next
    case None
    then have none: "update_seen (peers v) sid clock = None" "find_slot h (Some p) sid [0..<length used] = Some None"
      using find f(3) by simp_all
    show ?thesis
    proof (cases "length used = capacity v")
      case False
      then show ?thesis using none f(1,3) append_agree [OF assms refl, of sid clock]
        by (simp add: track_peer_at_def crsql_trackSeenPeer_def)
    next
      case full: True
      let ?v1 = "v\<lparr>capacity := capacity v * 2\<rparr>"
      let ?v2 = "v\<lparr>capacity := capacity v * 2, slots := capacity v * 2\<rparr>"
      obtain h1 where h1: "store_at (Some a) (Header (Some p) (length used) (capacity v * 2)) h = Some h1"
        "peers_at h1 a p used ?v1" "others h1 a p used = others h a p used"
        using capacity_ok [OF assms] by blast
      show ?thesis
      proof (cases ok)
        case False
        then show ?thesis using none f(1,3) full h1 by (auto simp: track_peer_at_def crsql_trackSeenPeer_def agree_def)
      next
        case True
        obtain q h2 h3 where g: "realloc_slots (Some p) (capacity v * 2) h1 = Some (Some q, h2)"
          "store_at (Some a) (Header (Some q) (length used) (capacity v * 2)) h2 = Some h3"
          "peers_at h3 a q used ?v2" "others h3 a q used = others h a p used"
          using grow_ok [OF h1(2), of "capacity v * 2"] full h1(3) by auto
        show ?thesis
          using none f(1,3) full True h1(1) g(1,2) append_agree [OF g(3,4), of sid clock]
          by (simp add: track_peer_at_def crsql_trackSeenPeer_def Let_def cong: if_cong)
      qed
    qed
  qed
qed

section \<open>Any use of the structure\<close>

datatype peers_op = Track bool blob int | Reset

fun peers_run :: "peers_op list \<Rightarrow> seen_peers \<Rightarrow> (int list \<times> seen_peers) option" where
  "peers_run [] v = Some ([], v)"
| "peers_run (Track ok sid clock # ops) v = do {
     (rc, v) \<leftarrow> crsql_trackSeenPeer ok v sid clock;
     (rcs, v) \<leftarrow> peers_run ops v;
     Some (rc # rcs, v)
   }"
| "peers_run (Reset # ops) v = peers_run ops (crsql_resetSeenPeers v)"

fun peers_run_at :: "peers_op list \<Rightarrow> ptr \<Rightarrow> peers_memory \<Rightarrow> (int list \<times> peers_memory) option" where
  "peers_run_at [] a h = Some ([], h)"
| "peers_run_at (Track ok sid clock # ops) a h = do {
     (rc, h) \<leftarrow> track_peer_at ok a sid clock h;
     (rcs, h) \<leftarrow> peers_run_at ops a h;
     Some (rc # rcs, h)
   }"
| "peers_run_at (Reset # ops) a h = do { h \<leftarrow> reset_peers_at a h; peers_run_at ops a h }"

lemma run_agree:
  "peers_at h a p used v \<Longrightarrow> agree a (others h a p used) (peers_run ops v) (peers_run_at ops (Some a) h)"
proof (induction ops arbitrary: h p used v)
  case Nil
  then show ?case by (auto simp: agree_def)
next
  case (Cons op ops)
  show ?case
  proof (cases op)
    case (Track ok sid clock)
    note t = track_agree [OF Cons.prems, of ok sid clock]
    show ?thesis
    proof (cases "crsql_trackSeenPeer ok v sid clock")
      case None
      with t Track show ?thesis by (simp add: agree_def)
    next
      case (Some r)
      then obtain rc v' h' p' used' where s: "crsql_trackSeenPeer ok v sid clock = Some (rc, v')"
        "track_peer_at ok (Some a) sid clock h = Some (rc, h')" "peers_at h' a p' used' v'"
        "others h' a p' used' = others h a p used"
        using t by (cases r) (auto simp: agree_def)
      from Cons.IH [OF s(3)] s Track show ?thesis by (fastforce simp: agree_def split: option.splits)
    qed
  next
    case Reset
    obtain h' where r: "reset_peers_at (Some a) h = Some h'" "peers_at h' a p [] (crsql_resetSeenPeers v)"
      "others h' a p [] = others h a p used"
      using reset_peers_ok [OF Cons.prems] by blast
    from Cons.IH [OF r(2)] r Reset show ?thesis by simp
  qed
qed

lemma new_peers_ok:
  "\<exists>a h' p. new_peers_at h = Some (Some a, h') \<and> peers_at h' a p [] crsql_newSeenPeers \<and> others h' a p [] = live h"
proof -
  let ?z = "\<lparr>sl_siteId = None, sl_siteIdLen = 0, sl_clock = 0\<rparr>"
  obtain a h1 where m1: "sqlite3_malloc Raw h = (a, h1)" by fastforce
  obtain p h2 where m2: "sqlite3_malloc (Slots (replicate CRSQL_SEEN_PEERS_INITIAL_SIZE None)) h1 = (p, h2)" by fastforce
  note l = heap.malloc_fresh [OF m1] heap.malloc_live [OF m1] heap.malloc_fresh [OF m2] heap.malloc_live [OF m2]
  have ne: "a \<noteq> p" using l(2,3) by auto
  obtain h3 where h3: "store p (Slots (replicate CRSQL_SEEN_PEERS_INITIAL_SIZE (Some ?z))) h2 = Some h3"
    "live h3 = (live h2)(p \<mapsto> Slots (replicate CRSQL_SEEN_PEERS_INITIAL_SIZE (Some ?z)))"
    using store_ok [of h2 p] l(4) by auto
  obtain h4 where h4: "store a (Header (Some p) 0 CRSQL_SEEN_PEERS_INITIAL_SIZE) h3 = Some h4"
    "live h4 = (live h3)(a \<mapsto> Header (Some p) 0 CRSQL_SEEN_PEERS_INITIAL_SIZE)"
    using store_ok [of h3 a] h3(2) l(2,4) ne by auto
  have "new_peers_at h = Some (Some a, h4)" using m1 m2 h3(1) h4(1) by (simp add: new_peers_at_def)
  moreover have "peers_at h4 a p [] crsql_newSeenPeers"
    using h3(2) h4(2) ne by (simp add: peers_at_def crsql_newSeenPeers_def)
  moreover have "others h4 a p [] = live h"
    using l ne by (auto simp: others_def h3(2) h4(2) fun_eq_iff restrict_map_def)
  ultimately show ?thesis by blast
qed

text \<open>C28. Allocate the structure, use it in any way, and release it: with pointers it does what the
  operations on lists do, failed growth and the overflow after it included, and whenever they are
  defined, releasing it frees each of its blocks once and leaves the memory as it was before.\<close>

theorem peers_memory_balanced:
  "\<exists>a h1. new_peers_at h = Some (a, h1) \<and>
    (case peers_run ops crsql_newSeenPeers of
       None \<Rightarrow> peers_run_at ops a h1 = None
     | Some (rcs, v) \<Rightarrow> \<exists>h2 h3. peers_run_at ops a h1 = Some (rcs, h2) \<and>
         (\<exists>p used. peers_at h2 (the a) p used v) \<and> crsql_freeSeenPeers a h2 = Some h3 \<and> live h3 = live h)"
proof -
  obtain a h1 p where n: "new_peers_at h = Some (Some a, h1)" "peers_at h1 a p [] crsql_newSeenPeers"
    "others h1 a p [] = live h"
    using new_peers_ok by blast
  note r = run_agree [OF n(2), of ops]
  show ?thesis
  proof (cases "peers_run ops crsql_newSeenPeers")
    case None
    with r n show ?thesis by (auto simp: agree_def)
  next
    case (Some rv)
    then obtain rcs v h2 p2 used where s: "peers_run ops crsql_newSeenPeers = Some (rcs, v)"
      "peers_run_at ops (Some a) h1 = Some (rcs, h2)" "peers_at h2 a p2 used v" "others h2 a p2 used = live h"
      using r n(3) by (cases rv) (auto simp: agree_def)
    from free_peers_ok [OF s(3)] s n show ?thesis by auto
  qed
qed

end
