(* ===== verification/Table_Heap.thy ===== *)
theory Table_Heap imports Get_Table Memory begin

text \<open>
  \<^verbatim>\<open>core/src/get-table.c\<close> at the level of pointers: the array of pointers that grows, a copy of each name
  and value in a block of its own, and their release. The accumulated list of \<^verbatim>\<open>Get_Table\<close> is what the
  array represents (\<open>table_at\<close>). The callers of the extension pass no pointer for an error message.

  A failed \<^verbatim>\<open>sqlite3_realloc\<close> leaves the old block; one that works moves it.
\<close>

section \<open>The accumulator\<close>

datatype cell = Unset | Num nat | Str ptr

datatype table_block = Cells "cell list" | Text string

type_synonym table_memory = "table_block memory"

text \<open>\<^verbatim>\<open>TabResult\<close> with the memory and which allocations will succeed (all when the list is empty).\<close>

record tab_mem =
  tm_azResult :: ptr
  tm_zErrMsg :: ptr
  tm_nAlloc :: nat
  tm_nRow :: nat
  tm_nColumn :: nat
  tm_nData :: nat
  tm_rc :: int
  tm_ok :: "bool list"
  tm_heap :: table_memory

definition try_malloc :: "table_block \<Rightarrow> tab_mem \<Rightarrow> ptr \<times> tab_mem" where
  "try_malloc b m =
     (let (ok, oks) = (case tm_ok m of [] \<Rightarrow> (True, []) | ok # oks \<Rightarrow> (ok, oks));
          m = m\<lparr>tm_ok := oks\<rparr> in
      if \<not> ok then (None, m)
      else let (a, h) = sqlite3_malloc b (tm_heap m) in (Some a, m\<lparr>tm_heap := h\<rparr>))"

definition free_in :: "ptr \<Rightarrow> tab_mem \<Rightarrow> tab_mem option" where
  "free_in p m = map_option (\<lambda>h. m\<lparr>tm_heap := h\<rparr>) (sqlite3_free p (tm_heap m))"

definition load_cells :: "ptr \<Rightarrow> table_memory \<Rightarrow> cell list option" where
  "load_cells p h = do {
     a \<leftarrow> p;
     b \<leftarrow> live h a;
     case b of Cells cs \<Rightarrow> Some cs | _ \<Rightarrow> None
   }"

definition load_cell :: "ptr \<Rightarrow> nat \<Rightarrow> table_memory \<Rightarrow> cell option" where
  "load_cell p i h = do { cs \<leftarrow> load_cells p h; if i < length cs then Some (cs ! i) else None }"

definition store_cell :: "nat \<Rightarrow> cell \<Rightarrow> tab_mem \<Rightarrow> tab_mem option" where
  "store_cell i z m = do {
     a \<leftarrow> tm_azResult m;
     cs \<leftarrow> load_cells (Some a) (tm_heap m);
     if i < length cs
     then map_option (\<lambda>h. m\<lparr>tm_heap := h\<rparr>) (store a (Cells (cs[i := z])) (tm_heap m))
     else None
   }"

definition realloc_cells :: "nat \<Rightarrow> tab_mem \<Rightarrow> (bool \<times> tab_mem) option" where
  "realloc_cells n m = do {
     cs \<leftarrow> load_cells (tm_azResult m) (tm_heap m);
     let (q, m') = try_malloc (Cells (take n cs @ replicate (n - length cs) Unset)) m;
     if q = None then Some (False, m')
     else do { m \<leftarrow> free_in (tm_azResult m) m'; Some (True, m\<lparr>tm_azResult := q\<rparr>) }
   }"

section \<open>The callback\<close>

definition push_at :: "ptr \<Rightarrow> tab_mem \<Rightarrow> tab_mem option" where
  "push_at z m = do { m \<leftarrow> store_cell (tm_nData m) (Str z) m; Some (m\<lparr>tm_nData := tm_nData m + 1\<rparr>) }"

fun copy_names_at :: "string list \<Rightarrow> tab_mem \<Rightarrow> (bool \<times> tab_mem) option" where
  "copy_names_at [] m = Some (True, m)"
| "copy_names_at (c # cs) m =
     (let (z, m) = try_malloc (Text c) m in
      if z = None then Some (False, m) else do { m \<leftarrow> push_at z m; copy_names_at cs m })"

fun copy_values_at :: "string option list \<Rightarrow> tab_mem \<Rightarrow> (bool \<times> tab_mem) option" where
  "copy_values_at [] m = Some (True, m)"
| "copy_values_at (None # vs) m = do { m \<leftarrow> push_at None m; copy_values_at vs m }"
| "copy_values_at (Some v # vs) m =
     (let (z, m) = try_malloc (Text (take (sqlite3Strlen30 v) v)) m in
      if z = None then Some (False, m) else do { m \<leftarrow> push_at z m; copy_values_at vs m })"

definition failed_at :: "tab_mem \<Rightarrow> int \<times> tab_mem" where
  "failed_at m = (1, m\<lparr>tm_rc := SQLITE_NOMEM\<rparr>)"

definition reserve_at :: "nat \<Rightarrow> tab_mem \<Rightarrow> (bool \<times> tab_mem) option" where
  "reserve_at need m =
     (if tm_nData m + need > tm_nAlloc m
      then (let m = m\<lparr>tm_nAlloc := tm_nAlloc m * 2 + need\<rparr> in realloc_cells (tm_nAlloc m) m)
      else Some (True, m))"

definition copy_heading_at :: "string list \<Rightarrow> tab_mem \<Rightarrow> (bool \<times> tab_mem) option" where
  "copy_heading_at colv m =
     (if tm_nRow m = 0 then copy_names_at colv (m\<lparr>tm_nColumn := length colv\<rparr>) else Some (True, m))"

definition copy_row_at :: "string option list option \<Rightarrow> tab_mem \<Rightarrow> (int \<times> tab_mem) option" where
  "copy_row_at argv m =
     (case argv of
        None \<Rightarrow> Some (0, m)
      | Some vs \<Rightarrow> do {
          (ok, m) \<leftarrow> copy_values_at vs m;
          if \<not> ok then Some (failed_at m) else Some (0, m\<lparr>tm_nRow := tm_nRow m + 1\<rparr>)
        })"

definition get_table_cb_at :: "string option list option \<Rightarrow> string list \<Rightarrow> tab_mem \<Rightarrow> (int \<times> tab_mem) option" where
  "get_table_cb_at argv colv m =
     (let nCol = length colv;
          need = (if tm_nRow m = 0 \<and> argv \<noteq> None then nCol * 2 else nCol) in
      do {
        (ok, m) \<leftarrow> reserve_at need m;
        if \<not> ok then Some (failed_at m)
        else do {
          (ok, m) \<leftarrow> copy_heading_at colv m;
          if \<not> ok then Some (failed_at m)
          else if tm_nRow m \<noteq> 0 \<and> tm_nColumn m \<noteq> nCol then do {
            m \<leftarrow> free_in (tm_zErrMsg m) m;
            let (z, m) = try_malloc (Text (''sqlite3_get_table() called with two or more '' @
              ''incompatible queries'')) m;
            Some (1, m\<lparr>tm_zErrMsg := z, tm_rc := SQLITE_ERROR\<rparr>)
          }
          else copy_row_at argv m
        }
      })"

section \<open>The call and the release\<close>

fun exec_calls_at :: "call list \<Rightarrow> int \<Rightarrow> tab_mem \<Rightarrow> (int \<times> tab_mem) option" where
  "exec_calls_at [] rc m = Some (rc, m)"
| "exec_calls_at ((colv, argv) # cs) rc m = do {
     (stop, m) \<leftarrow> get_table_cb_at argv colv m;
     if stop \<noteq> 0 then Some (SQLITE_ABORT, m) else exec_calls_at cs rc m
   }"

text \<open>A pointer to a result points to the second cell of its array; here it is the array. The code steps
  back to the first cell, which holds the number of cells in use.\<close>

definition free_cell :: "ptr \<Rightarrow> nat \<Rightarrow> table_memory \<Rightarrow> table_memory option" where
  "free_cell p i h = do {
     z \<leftarrow> load_cell p i h;
     case z of Str z \<Rightarrow> sqlite3_free z h | _ \<Rightarrow> None
   }"

definition crsql_free_table :: "ptr \<Rightarrow> table_memory \<Rightarrow> table_memory option" where
  "crsql_free_table p h =
     (if p = None then Some h
      else do {
        n \<leftarrow> load_cell p 0 h;
        case n of
          Num n \<Rightarrow> do { h \<leftarrow> each (free_cell p) [1..<n] h; sqlite3_free p h }
        | _ \<Rightarrow> None
      })"

text \<open>The result code, the table (\<open>None\<close>: NULL), the numbers of rows and columns, and the memory.\<close>

definition finish_at :: "int \<Rightarrow> tab_mem \<Rightarrow> (int \<times> ptr \<times> nat \<times> nat \<times> table_memory) option" where
  "finish_at rc res =
     (if low_byte rc = SQLITE_ABORT then do {
        h \<leftarrow> crsql_free_table (tm_azResult res) (tm_heap res);
        h \<leftarrow> (if tm_zErrMsg res \<noteq> None then sqlite3_free (tm_zErrMsg res) h else Some h);
        Some (tm_rc res, None, 0, 0, h)
      }
      else do {
        res \<leftarrow> free_in (tm_zErrMsg res) res;
        if rc \<noteq> SQLITE_OK then do {
          h \<leftarrow> crsql_free_table (tm_azResult res) (tm_heap res);
          Some (rc, None, 0, 0, h)
        }
        else do {
          (ok, res) \<leftarrow> (if tm_nAlloc res > tm_nData res then realloc_cells (tm_nData res) res else Some (True, res));
          if \<not> ok then do {
            h \<leftarrow> crsql_free_table (tm_azResult res) (tm_heap res);
            Some (SQLITE_NOMEM, None, 0, 0, h)
          }
          else Some (rc, tm_azResult res, tm_nRow res, tm_nColumn res, tm_heap res)
        }
      })"

definition get_table_at ::
  "bool list \<Rightarrow> call list \<Rightarrow> int \<Rightarrow> table_memory \<Rightarrow> (int \<times> ptr \<times> nat \<times> nat \<times> table_memory) option" where
  "get_table_at oks calls exec_rc h =
     (let res = \<lparr>tm_azResult = None, tm_zErrMsg = None, tm_nAlloc = 20, tm_nRow = 0, tm_nColumn = 0,
                 tm_nData = 1, tm_rc = SQLITE_OK, tm_ok = oks, tm_heap = h\<rparr>;
          (az, res) = try_malloc (Cells (replicate 20 Unset)) res;
          res = res\<lparr>tm_azResult := az\<rparr> in
      if az = None then Some (SQLITE_NOMEM, None, 0, 0, tm_heap res)
      else do {
        res \<leftarrow> store_cell 0 (Str None) res;
        (rc, res) \<leftarrow> exec_calls_at calls exec_rc res;
        res \<leftarrow> store_cell 0 (Num (tm_nData res)) res;
        finish_at rc res
      })"

section \<open>What the memory represents\<close>

fun str_at :: "table_memory \<Rightarrow> ptr \<Rightarrow> string option \<Rightarrow> bool" where
  "str_at h None v \<longleftrightarrow> v = None"
| "str_at h (Some a) v \<longleftrightarrow> v \<noteq> None \<and> live h a = Some (Text (the v))"

text \<open>An array of \<open>n\<close> cells, the first of which is \<open>c0\<close> and the next of which hold the pointers \<open>used\<close>; no block is owned twice.\<close>

definition array_at :: "table_memory \<Rightarrow> cell \<Rightarrow> ptr \<Rightarrow> ptr list \<Rightarrow> nat \<Rightarrow> bool" where
  "array_at h c0 p used n \<longleftrightarrow>
     (\<exists>az rest. p = Some az \<and> live h az = Some (Cells (c0 # map Str used @ rest)) \<and>
        n = Suc (length used + length rest)) \<and>
     distinct (owned (p # used)) \<and> set (owned used) \<subseteq> dom (live h)"

definition frame_at :: "table_memory \<Rightarrow> ptr list \<Rightarrow> nat \<Rightarrow> table_block option" where
  "frame_at h ps = live h |` (- set (owned ps))"

text \<open>While the callback is called: the memory represents the list.\<close>

definition table_at :: "(nat \<Rightarrow> table_block option) \<Rightarrow> cell \<Rightarrow> tab_mem \<Rightarrow> tab_result \<Rightarrow> bool" where
  "table_at oth c0 m p \<longleftrightarrow>
     tm_ok m = mem p \<and> tm_nAlloc m = nAlloc p \<and> tm_nRow m = nRow p \<and> tm_nColumn m = nColumn p \<and>
     tm_rc m = tr_rc p \<and> tm_zErrMsg m = None \<and> tm_nData m = nData p \<and> azResult p \<noteq> [] \<and>
     (\<exists>used. array_at (tm_heap m) c0 (tm_azResult m) used (nAlloc p) \<and>
        list_all2 (str_at (tm_heap m)) used (tl (azResult p)) \<and>
        frame_at (tm_heap m) (tm_azResult m # used) = oth)"

text \<open>After it failed: everything can still be released.\<close>

definition left_at :: "(nat \<Rightarrow> table_block option) \<Rightarrow> cell \<Rightarrow> tab_mem \<Rightarrow> bool" where
  "left_at oth c0 m \<longleftrightarrow>
     (\<exists>used n. array_at (tm_heap m) c0 (tm_azResult m) used n \<and> tm_nData m = Suc (length used) \<and>
        distinct (owned (tm_zErrMsg m # tm_azResult m # used)) \<and> set (owned [tm_zErrMsg m]) \<subseteq> dom (live (tm_heap m)) \<and>
        frame_at (tm_heap m) (tm_zErrMsg m # tm_azResult m # used) = oth)"

lemma array_atE:
  assumes "array_at h c0 p used n"
  obtains az rest where "p = Some az" "live h az = Some (Cells (c0 # map Str used @ rest))"
    "n = Suc (length used + length rest)" "az \<notin> set (owned used)" "distinct (owned used)"
    "set (owned used) \<subseteq> dom (live h)"
  using assms unfolding array_at_def by auto

lemma array_atI:
  "live h az = Some (Cells (c0 # map Str used @ rest)) \<Longrightarrow> n = Suc (length used + length rest) \<Longrightarrow>
     az \<notin> set (owned used) \<Longrightarrow> distinct (owned used) \<Longrightarrow> set (owned used) \<subseteq> dom (live h) \<Longrightarrow> array_at h c0 (Some az) used n"
  by (auto simp: array_at_def)

lemma table_atE:
  assumes "table_at oth c0 m p"
  obtains az used rest where "tm_azResult m = Some az"
    "live (tm_heap m) az = Some (Cells (c0 # map Str used @ rest))"
    "nAlloc p = Suc (length used + length rest)" "nData p = Suc (length used)" "az \<notin> set (owned used)"
    "distinct (owned used)" "set (owned used) \<subseteq> dom (live (tm_heap m))"
    "list_all2 (str_at (tm_heap m)) used (tl (azResult p))" "frame_at (tm_heap m) (Some az # used) = oth"
proof -
  obtain used where u: "array_at (tm_heap m) c0 (tm_azResult m) used (nAlloc p)"
    "list_all2 (str_at (tm_heap m)) used (tl (azResult p))" "frame_at (tm_heap m) (tm_azResult m # used) = oth"
    using assms by (auto simp: table_at_def)
  have "nData p = Suc (length used)"
    using assms list_all2_lengthD [OF u(2)] by (simp add: table_at_def nData_def Suc_diff_1 del: length_greater_0_conv)
      (simp add: Suc_pred)
  with u that show thesis by (elim array_atE) metis
qed

lemma left_at_fields [simp]:
  "left_at oth c0 (m\<lparr>tm_ok := oks\<rparr>) = left_at oth c0 m" "left_at oth c0 (m\<lparr>tm_nAlloc := k\<rparr>) = left_at oth c0 m"
  "left_at oth c0 (m\<lparr>tm_rc := rc\<rparr>) = left_at oth c0 m" "left_at oth c0 (m\<lparr>tm_nRow := k\<rparr>) = left_at oth c0 m"
  "left_at oth c0 (m\<lparr>tm_nColumn := k\<rparr>) = left_at oth c0 m"
  by (simp_all add: left_at_def)

lemma table_at_left:
  assumes "table_at oth c0 m p"
  shows "left_at oth c0 m"
proof -
  obtain az used rest where u: "tm_azResult m = Some az"
    "live (tm_heap m) az = Some (Cells (c0 # map Str used @ rest))" "nData p = Suc (length used)"
    "az \<notin> set (owned used)" "distinct (owned used)" "set (owned used) \<subseteq> dom (live (tm_heap m))"
    "frame_at (tm_heap m) (Some az # used) = oth"
    using assms by (rule table_atE)
  have "array_at (tm_heap m) c0 (Some az) used (Suc (length used + length rest))"
    using u by (intro array_atI) simp_all
  then show ?thesis using u assms
    unfolding left_at_def table_at_def by (intro exI [of _ used] exI [of _ "Suc (length used + length rest)"]) (simp add: frame_at_def)
qed

lemma str_at_frame:
  "list_all2 (str_at h) used vs \<Longrightarrow> (\<And>q. q \<in> set (owned used) \<Longrightarrow> live h' q = live h q) \<Longrightarrow> list_all2 (str_at h') used vs"
proof (erule list.rel_mono_strong)
  fix z v assume "\<And>q. q \<in> set (owned used) \<Longrightarrow> live h' q = live h q" "z \<in> set used" "str_at h z v"
  then show "str_at h' z v" by (cases z) (simp_all add: set_owned)
qed

section \<open>Allocating and storing\<close>

lemma try_malloc_eq:
  assumes "tm_ok m = mem p" and "take_alloc p = (ok, p')"
  shows "p' = p\<lparr>mem := mem p'\<rparr>"
    and "\<not> ok \<Longrightarrow> try_malloc b m = (None, m\<lparr>tm_ok := mem p'\<rparr>)"
    and "ok \<Longrightarrow> \<exists>a h. try_malloc b m = (Some a, m\<lparr>tm_ok := mem p', tm_heap := h\<rparr>) \<and>
      live (tm_heap m) a = None \<and> live h = (live (tm_heap m))(a \<mapsto> b)"
proof -
  show "p' = p\<lparr>mem := mem p'\<rparr>" "\<not> ok \<Longrightarrow> try_malloc b m = (None, m\<lparr>tm_ok := mem p'\<rparr>)"
    using assms by (auto simp: take_alloc_def try_malloc_def split: list.splits)
  obtain a h where m: "sqlite3_malloc b (tm_heap m) = (a, h)" by fastforce
  show "\<exists>a h. try_malloc b m = (Some a, m\<lparr>tm_ok := mem p', tm_heap := h\<rparr>) \<and>
      live (tm_heap m) a = None \<and> live h = (live (tm_heap m))(a \<mapsto> b)" if ok
    using assms that m heap.malloc_fresh [OF m] heap.malloc_live [OF m]
    by (auto simp: take_alloc_def try_malloc_def split: list.splits)
qed

lemma store_cell_at:
  assumes "tm_azResult m = Some az" and "live (tm_heap m) az = Some (Cells cs)"
  shows "store_cell i z m = (if i < length cs then Some (m\<lparr>tm_heap := (tm_heap m)[az := Some (Cells (cs[i := z]))]\<rparr>) else None)"
  using assms by (simp add: store_cell_def load_cells_def store_def)

lemma live_update: "live h a \<noteq> None \<Longrightarrow> live (h[a := Some b]) = (live h)(a \<mapsto> b)"
  by (auto simp: live_def fun_eq_iff nth_list_update split: if_splits)

text \<open>Appending a pointer, which may be to a block that was just allocated.\<close>

lemma push_agree:
  assumes "table_at oth c0 m p" and "str_at h z v" and "\<And>q. live (tm_heap m) q \<noteq> None \<Longrightarrow> live h q = live (tm_heap m) q"
    and "\<And>q. Some q \<noteq> z \<Longrightarrow> live h q = live (tm_heap m) q" and "\<And>q. z = Some q \<Longrightarrow> live (tm_heap m) q = None"
  shows "case push v (p\<lparr>mem := oks\<rparr>) of
      None \<Rightarrow> push_at z (m\<lparr>tm_ok := oks, tm_heap := h\<rparr>) = None
    | Some q \<Rightarrow> \<exists>m'. push_at z (m\<lparr>tm_ok := oks, tm_heap := h\<rparr>) = Some m' \<and> table_at oth c0 m' q"
proof -
  obtain az used rest where u: "tm_azResult m = Some az"
    "live (tm_heap m) az = Some (Cells (c0 # map Str used @ rest))"
    "nAlloc p = Suc (length used + length rest)" "nData p = Suc (length used)" "az \<notin> set (owned used)"
    "distinct (owned used)" "set (owned used) \<subseteq> dom (live (tm_heap m))"
    "list_all2 (str_at (tm_heap m)) used (tl (azResult p))" "frame_at (tm_heap m) (Some az # used) = oth"
    using assms(1) by (rule table_atE)
  let ?m = "m\<lparr>tm_ok := oks, tm_heap := h\<rparr>"
  have m: "tm_azResult ?m = Some az" "live (tm_heap ?m) az = Some (Cells (c0 # map Str used @ rest))"
    using u(1,2) assms(3) [of az] by simp_all
  have n: "tm_nData ?m = Suc (length used)" using assms(1) u(4) by (simp add: table_at_def)
  show ?thesis
  proof (cases rest)
    case Nil
    then show ?thesis using u(3,4) n store_cell_at [OF m] by (simp add: push_def push_at_def nData_def)
  next
    case (Cons r rest')
    let ?cs = "Cells (c0 # map Str (used @ [z]) @ rest')"
    let ?h = "h[az := Some ?cs]"
    have h: "live ?h = (live h)(az \<mapsto> ?cs)" using m by (intro live_update) simp
    let ?m' = "m\<lparr>tm_ok := oks, tm_heap := ?h, tm_nData := Suc (Suc (length used))\<rparr>"
    let ?q = "p\<lparr>mem := oks, azResult := azResult p @ [v]\<rparr>"
    have push: "push v (p\<lparr>mem := oks\<rparr>) = Some ?q" "push_at z ?m = Some ?m'"
      using u(3,4) n store_cell_at [OF m] Cons by (simp_all add: push_def push_at_def nData_def list_update_append)
    have zfresh: "z \<noteq> Some az" "\<And>q. q \<in> set (owned used) \<Longrightarrow> z \<noteq> Some q" using assms(5) u(2,7) by auto
    have "list_all2 (str_at ?h) used (tl (azResult p))"
    proof (rule str_at_frame [OF u(8)])
      fix q assume "q \<in> set (owned used)"
      then show "live ?h q = live (tm_heap m) q" using h u(5,7) assms(3) by auto
    qed
    moreover have "str_at ?h z v" using assms(2) zfresh(1) h by (cases z) auto
    moreover have ne: "azResult p \<noteq> []" using assms(1) by (simp add: table_at_def)
    ultimately have vals: "list_all2 (str_at ?h) (used @ [z]) (tl (azResult ?q))" by (simp add: list_all2_appendI)
    have frm: "frame_at ?h (Some az # used @ [z]) = oth"
      unfolding u(9) [symmetric] frame_at_def h using assms(4,5) by (cases z) (auto simp: fun_eq_iff restrict_map_def)
    have "live ?h q \<noteq> None" if "q \<in> set (owned (used @ [z]))" for q
      using that h u(7) assms(2,3) by (cases z) (auto simp: dom_def)
    then have dom: "set (owned (used @ [z])) \<subseteq> dom (live ?h)" by auto
    have az: "az \<notin> set (owned (used @ [z]))" "distinct (owned (used @ [z]))"
      using u(5,6) zfresh by (cases z; auto)+
    have "array_at ?h c0 (Some az) (used @ [z]) (nAlloc p)"
      by (rule array_atI [OF _ _ az dom]) (use h u(3) Cons in simp_all)
    then have "table_at oth c0 ?m' ?q"
      using assms(1) vals frm ne u(1,4) unfolding table_at_def
      by (intro conjI exI [of _ "used @ [z]"]) (simp_all add: nData_def)
    with push show ?thesis by auto
  qed
qed

section \<open>The callback on both levels\<close>

text \<open>\<open>agrees\<close>: both are undefined, or both give the same result, and the new memory represents the new list
  when the result is a good one.\<close>

definition agrees :: "('r \<Rightarrow> bool) \<Rightarrow> (nat \<Rightarrow> table_block option) \<Rightarrow> cell \<Rightarrow> ('r \<times> tab_result) option \<Rightarrow>
    ('r \<times> tab_mem) option \<Rightarrow> bool" where
  "agrees good oth c0 x y \<longleftrightarrow> (case x of None \<Rightarrow> y = None
     | Some (r, p) \<Rightarrow> \<exists>m. y = Some (r, m) \<and> tm_rc m = tr_rc p \<and> left_at oth c0 m \<and> (good r \<longrightarrow> table_at oth c0 m p))"

lemma agreesI [intro?]: "table_at oth c0 m p \<Longrightarrow> agrees good oth c0 (Some (r, p)) (Some (r, m))"
  using table_at_left [of oth c0 m p] by (simp add: agrees_def table_at_def)

lemma agrees_left [intro?]: "left_at oth c0 m \<Longrightarrow> tm_rc m = tr_rc p \<Longrightarrow> \<not> good r \<Longrightarrow> agrees good oth c0 (Some (r, p)) (Some (r, m))"
  by (simp add: agrees_def)

text \<open>Copying a text: allocate, then append.\<close>

lemma copy_text_agree:
  assumes "table_at oth c0 m p" and "take_alloc p = (ok, p')"
  obtains (failed) m' where "\<not> ok" "try_malloc (Text s) m = (None, m')" "left_at oth c0 m'" "tm_rc m' = tr_rc p'"
  | (full) z m' where "ok" "try_malloc (Text s) m = (Some z, m')" "push (Some s) p' = None" "push_at (Some z) m' = None"
  | (pushed) z m' q m'' where "ok" "try_malloc (Text s) m = (Some z, m')" "push (Some s) p' = Some q"
      "push_at (Some z) m' = Some m''" "table_at oth c0 m'' q"
proof -
  have ok: "tm_ok m = mem p" using assms(1) by (simp add: table_at_def)
  note t = try_malloc_eq [OF ok assms(2)]
  show thesis
  proof (cases ok)
    case False
    have "left_at oth c0 (m\<lparr>tm_ok := mem p'\<rparr>)" using table_at_left [OF assms(1)] by simp
    moreover have "tm_rc m = tr_rc p'" using assms by (auto simp: take_alloc_def table_at_def split: list.splits)
    ultimately show thesis using failed [OF False t(2)] False by simp
  next
    case True
    obtain a h where m: "try_malloc (Text s) m = (Some a, m\<lparr>tm_ok := mem p', tm_heap := h\<rparr>)"
      "live (tm_heap m) a = None" "live h = (live (tm_heap m))(a \<mapsto> Text s)"
      using t(3) [OF True] by blast
    have "case push (Some s) (p\<lparr>mem := mem p'\<rparr>) of
        None \<Rightarrow> push_at (Some a) (m\<lparr>tm_ok := mem p', tm_heap := h\<rparr>) = None
      | Some q \<Rightarrow> \<exists>m'. push_at (Some a) (m\<lparr>tm_ok := mem p', tm_heap := h\<rparr>) = Some m' \<and> table_at oth c0 m' q"
      by (rule push_agree [OF assms(1)]) (use m in auto)
    then show thesis using full [OF True m(1)] pushed [OF True m(1)] t(1) by (auto split: option.splits)
  qed
qed

lemma push_null_agree:
  assumes "table_at oth c0 m p"
  shows "case push None p of None \<Rightarrow> push_at None m = None
    | Some q \<Rightarrow> \<exists>m'. push_at None m = Some m' \<and> table_at oth c0 m' q"
proof -
  have same: "m\<lparr>tm_ok := mem p, tm_heap := tm_heap m\<rparr> = m" "p\<lparr>mem := mem p\<rparr> = p"
    using assms by (simp_all add: table_at_def)
  have "case push None (p\<lparr>mem := mem p\<rparr>) of
      None \<Rightarrow> push_at None (m\<lparr>tm_ok := mem p, tm_heap := tm_heap m\<rparr>) = None
    | Some q \<Rightarrow> \<exists>m'. push_at None (m\<lparr>tm_ok := mem p, tm_heap := tm_heap m\<rparr>) = Some m' \<and> table_at oth c0 m' q"
    by (rule push_agree [OF assms]) simp_all
  then show ?thesis unfolding same .
qed

lemma copy_names_agree: "table_at oth c0 m p \<Longrightarrow> agrees (\<lambda>ok. ok) oth c0 (copy_names cs p) (copy_names_at cs m)"
proof (induction cs arbitrary: m p)
  case Nil
  then show ?case by (simp add: agreesI)
next
  case (Cons c cs)
  obtain ok p' where a: "take_alloc p = (ok, p')" by fastforce
  show ?case
  proof (rule copy_text_agree [OF Cons.prems a, of c])
    fix m' assume "\<not> ok" "try_malloc (Text c) m = (None, m')" "left_at oth c0 m'" "tm_rc m' = tr_rc p'"
    then show ?thesis using a by (simp add: agrees_left)
  next
    fix z m' assume "ok" "try_malloc (Text c) m = (Some z, m')" "push (Some c) p' = None" "push_at (Some z) m' = None"
    then show ?thesis using a by (simp add: agrees_def)
  next
    fix z m' q m'' assume "ok" "try_malloc (Text c) m = (Some z, m')" "push (Some c) p' = Some q"
      "push_at (Some z) m' = Some m''" "table_at oth c0 m'' q"
    then show ?thesis using a Cons.IH by simp
  qed
qed

lemma copy_values_agree: "table_at oth c0 m p \<Longrightarrow> agrees (\<lambda>ok. ok) oth c0 (copy_values vs p) (copy_values_at vs m)"
proof (induction vs arbitrary: m p)
  case Nil
  then show ?case by (simp add: agreesI)
next
  case (Cons v vs)
  show ?case
  proof (cases v)
    case None
    show ?thesis
    proof (cases "push None p")
      case None
      then show ?thesis using push_null_agree [OF Cons.prems] \<open>v = None\<close> by (simp add: agrees_def)
    next
      case (Some q)
      then obtain m' where "push_at None m = Some m'" "table_at oth c0 m' q" using push_null_agree [OF Cons.prems] by auto
      then show ?thesis using Some Cons.IH \<open>v = None\<close> by simp
    qed
  next
    case (Some s)
    let ?s = "take (sqlite3Strlen30 s) s"
    obtain ok p' where a: "take_alloc p = (ok, p')" by fastforce
    show ?thesis
    proof (rule copy_text_agree [OF Cons.prems a, of ?s])
      fix m' assume "\<not> ok" "try_malloc (Text ?s) m = (None, m')" "left_at oth c0 m'" "tm_rc m' = tr_rc p'"
      then show ?thesis using a Some by (simp add: agrees_left)
    next
      fix z m' assume "ok" "try_malloc (Text ?s) m = (Some z, m')" "push (Some ?s) p' = None" "push_at (Some z) m' = None"
      then show ?thesis using a Some by (simp add: agrees_def)
    next
      fix z m' q m'' assume "ok" "try_malloc (Text ?s) m = (Some z, m')" "push (Some ?s) p' = Some q"
        "push_at (Some z) m' = Some m''" "table_at oth c0 m'' q"
      then show ?thesis using a Some Cons.IH by simp
    qed
  qed
qed

lemma realloc_agree:
  assumes "table_at oth c0 m p" and "take_alloc p = (ok, p')" and "n \<ge> nData p"
  shows "\<exists>m'. realloc_cells n (m\<lparr>tm_nAlloc := k\<rparr>) = Some (ok, m'\<lparr>tm_nAlloc := k\<rparr>) \<and> tm_rc m' = tr_rc p' \<and>
    tm_nAlloc m' = tm_nAlloc m \<and> tm_nData m' = tm_nData m \<and> tm_zErrMsg m' = tm_zErrMsg m \<and>
    left_at oth c0 m' \<and> (ok \<longrightarrow> table_at oth c0 (m'\<lparr>tm_nAlloc := n\<rparr>) (p'\<lparr>nAlloc := n\<rparr>))"
proof -
  obtain az used rest where u: "tm_azResult m = Some az"
    "live (tm_heap m) az = Some (Cells (c0 # map Str used @ rest))"
    "nData p = Suc (length used)" "az \<notin> set (owned used)"
    "distinct (owned used)" "set (owned used) \<subseteq> dom (live (tm_heap m))"
    "list_all2 (str_at (tm_heap m)) used (tl (azResult p))" "frame_at (tm_heap m) (Some az # used) = oth"
    using assms(1) by (rule table_atE)
  define rest' where "rest' = take (n - Suc (length used)) rest @ replicate (n - Suc (length used + length rest)) Unset"
  let ?cs = "c0 # map Str used @ rest"
  have n: "n = Suc (length used + length rest')" using assms(3) u(3) by (simp add: rest'_def min_def)
  have cs: "take n ?cs @ replicate (n - length ?cs) Unset = c0 # map Str used @ rest'"
    using assms(3) u(3) by (cases n) (simp_all add: rest'_def)
  have load: "load_cells (Some az) (tm_heap m) = Some ?cs" using u(2) by (simp add: load_cells_def)
  let ?m = "m\<lparr>tm_nAlloc := k\<rparr>"
  have ok: "tm_ok ?m = mem p" using assms(1) by (simp add: table_at_def)
  note t = try_malloc_eq [OF ok assms(2)]
  have p': "tr_rc p' = tm_rc m" "nRow p' = nRow p" "nColumn p' = nColumn p" "azResult p' = azResult p"
    using assms(1,2) by (auto simp: take_alloc_def table_at_def split: list.splits)
  show ?thesis
  proof (cases ok)
    case False
    then have "realloc_cells n ?m = Some (False, m\<lparr>tm_ok := mem p', tm_nAlloc := k\<rparr>)"
      using t(2) u(1) load by (simp add: realloc_cells_def)
    then show ?thesis using False p' table_at_left [OF assms(1)] by (intro exI [of _ "m\<lparr>tm_ok := mem p'\<rparr>"]) simp
  next
    case True
    obtain q h where q: "try_malloc (Cells (c0 # map Str used @ rest')) ?m = (Some q, ?m\<lparr>tm_ok := mem p', tm_heap := h\<rparr>)"
      "live (tm_heap m) q = None" "live h = (live (tm_heap m))(q \<mapsto> Cells (c0 # map Str used @ rest'))"
      using t(3) [OF True, of "Cells (c0 # map Str used @ rest')"] by auto
    then have ne: "q \<noteq> az" "q \<notin> set (owned used)" using u(2,6) by auto
    obtain h' where h': "sqlite3_free (Some az) h = Some h'" "live h' = (live h)(az := None)"
      using heap.release_live [of h az] q(3) u(2) ne by auto
    let ?m' = "m\<lparr>tm_ok := mem p', tm_heap := h', tm_azResult := Some q\<rparr>"
    have "realloc_cells n ?m = Some (True, ?m'\<lparr>tm_nAlloc := k\<rparr>)"
      using u(1) load q(1) h'(1) unfolding realloc_cells_def by (simp add: cs [simplified] free_in_def)
    moreover have tab: "table_at oth c0 (?m'\<lparr>tm_nAlloc := n\<rparr>) (p'\<lparr>nAlloc := n\<rparr>)"
    proof -
      have "array_at h' c0 (Some q) used n"
        by (rule array_atI [OF _ n ne(2) u(5)]) (use q(3) h'(2) ne u(4,6) in auto)
      moreover have "list_all2 (str_at h') used (tl (azResult p'))"
        unfolding p' by (rule str_at_frame [OF u(7)]) (use q(3) h'(2) ne u(4) in auto)
      moreover have "frame_at h' (Some q # used) = oth"
        unfolding u(8) [symmetric] frame_at_def h'(2) q(3) using q(2) by (auto simp: fun_eq_iff restrict_map_def)
      ultimately show ?thesis using assms(1) p' by (auto simp: table_at_def nData_def)
    qed
    moreover have "left_at oth c0 ?m'" using table_at_left [OF tab] by simp
    ultimately show ?thesis using True p' by (intro exI [of _ ?m']) simp
  qed
qed

lemma reserve_agree:
  assumes "table_at oth c0 m p"
  shows "agrees (\<lambda>ok. ok) oth c0 (Some (reserve need p)) (reserve_at need m)"
proof (cases "nData p + need > nAlloc p")
  case True
  let ?n = "nAlloc p * 2 + need"
  obtain ok p' where a: "take_alloc p = (ok, p')" by fastforce
  have "nData p \<le> nAlloc p" using assms by (rule table_atE) simp
  then obtain m' where m': "realloc_cells ?n (m\<lparr>tm_nAlloc := ?n\<rparr>) = Some (ok, m'\<lparr>tm_nAlloc := ?n\<rparr>)"
    "tm_rc m' = tr_rc p'" "left_at oth c0 m'" "ok \<longrightarrow> table_at oth c0 (m'\<lparr>tm_nAlloc := ?n\<rparr>) (p'\<lparr>nAlloc := ?n\<rparr>)"
    using realloc_agree [OF assms a, of ?n ?n] by auto
  have "take_alloc (p\<lparr>nAlloc := ?n\<rparr>) = (ok, p'\<lparr>nAlloc := ?n\<rparr>)"
    using a by (auto simp: take_alloc_def split: list.splits)
  then show ?thesis using True assms m' by (simp add: reserve_def reserve_at_def table_at_def agrees_def Let_def)
next
  case False
  then show ?thesis using assms agreesI [OF assms] by (simp add: reserve_def reserve_at_def table_at_def)
qed

lemma agrees_bind:
  assumes "agrees g oth c0 x y"
    and "\<And>r p m. g r \<Longrightarrow> table_at oth c0 m p \<Longrightarrow> agrees g' oth c0 (f (r, p)) (f' (r, m))"
    and "\<And>r p m. \<not> g r \<Longrightarrow> left_at oth c0 m \<Longrightarrow> tm_rc m = tr_rc p \<Longrightarrow> agrees g' oth c0 (f (r, p)) (f' (r, m))"
  shows "agrees g' oth c0 (Option.bind x f) (Option.bind y f')"
proof (cases x)
  case None
  with assms(1) show ?thesis by (simp add: agrees_def)
next
  case (Some rp)
  obtain r p where rp: "rp = (r, p)" by (cases rp)
  obtain m where m: "y = Some (r, m)" "tm_rc m = tr_rc p" "left_at oth c0 m" "g r \<longrightarrow> table_at oth c0 m p"
    using assms(1) Some rp by (auto simp: agrees_def)
  then show ?thesis using assms(2,3) [of r] Some rp by (cases "g r") simp_all
qed

lemma table_at_counts:
  "table_at oth c0 m p \<Longrightarrow> table_at oth c0 (m\<lparr>tm_nColumn := k\<rparr>) (p\<lparr>nColumn := k\<rparr>)"
  "table_at oth c0 m p \<Longrightarrow> table_at oth c0 (m\<lparr>tm_nRow := Suc (tm_nRow m)\<rparr>) (p\<lparr>nRow := Suc (nRow p)\<rparr>)"
  by (simp_all add: table_at_def nData_def)

lemma copy_heading_agree:
  assumes "table_at oth c0 m p"
  shows "agrees (\<lambda>ok. ok) oth c0 (copy_heading colv p) (copy_heading_at colv m)"
proof -
  have "tm_nRow m = nRow p" using assms by (simp add: table_at_def)
  then show ?thesis
    using copy_names_agree [OF table_at_counts(1) [OF assms]]
    by (simp add: copy_heading_def copy_heading_at_def agreesI assms)
qed

lemma failed_agree: "left_at oth c0 m \<Longrightarrow> agrees (\<lambda>s. s = 0) oth c0 (Some (malloc_failed p)) (Some (failed_at m))"
  by (simp add: malloc_failed_def failed_at_def agrees_left)

lemma copy_row_agree:
  assumes "table_at oth c0 m p"
  shows "agrees (\<lambda>s. s = 0) oth c0 (copy_row argv p) (copy_row_at argv m)"
proof (cases argv)
  case None
  then show ?thesis using agreesI [OF assms] by (simp add: copy_row_def copy_row_at_def)
next
  case (Some vs)
  show ?thesis unfolding copy_row_def copy_row_at_def Some option.case
    by (rule agrees_bind [OF copy_values_agree [OF assms]]) (simp_all add: failed_agree agreesI table_at_counts)
qed

text \<open>The message about incompatible queries is one more block.\<close>

lemma message_left:
  assumes "table_at oth c0 m p" and "try_malloc (Text s) m = (z, m')"
  shows "left_at oth c0 (m'\<lparr>tm_zErrMsg := z, tm_rc := rc\<rparr>)"
proof -
  obtain az used rest where u: "tm_azResult m = Some az"
    "live (tm_heap m) az = Some (Cells (c0 # map Str used @ rest))" "nData p = Suc (length used)"
    "az \<notin> set (owned used)" "distinct (owned used)" "set (owned used) \<subseteq> dom (live (tm_heap m))"
    "frame_at (tm_heap m) (Some az # used) = oth"
    using assms(1) by (rule table_atE)
  have n: "tm_nData m = Suc (length used)" using assms(1) u(3) by (simp add: table_at_def)
  obtain ok oks where ok: "(case tm_ok m of [] \<Rightarrow> (True, []) | ok # oks \<Rightarrow> (ok, oks)) = (ok, oks)" by fastforce
  show ?thesis
  proof (cases ok)
    case False
    then have "z = None" "m' = m\<lparr>tm_ok := oks\<rparr>" using assms(2) ok by (simp_all add: try_malloc_def)
    moreover have "tm_zErrMsg m = None" using assms(1) by (simp add: table_at_def)
    ultimately show ?thesis using table_at_left [OF assms(1)] by (simp add: left_at_def)
  next
    case True
    obtain a h where a: "sqlite3_malloc (Text s) (tm_heap m) = (a, h)" by fastforce
    then have m': "z = Some a" "m' = m\<lparr>tm_ok := oks, tm_heap := h\<rparr>" using assms(2) ok True by (simp_all add: try_malloc_def)
    note l = heap.malloc_fresh [OF a] heap.malloc_live [OF a]
    have ne: "a \<noteq> az" "a \<notin> set (owned used)" using u(2,6) l(1) by auto
    have "array_at h c0 (Some az) used (Suc (length used + length rest))"
      by (rule array_atI [OF _ refl u(4,5)]) (use l u(2,6) ne in auto)
    moreover have "frame_at h (Some a # Some az # used) = oth"
      unfolding u(7) [symmetric] frame_at_def l(2) using l(1) by (auto simp: fun_eq_iff restrict_map_def)
    ultimately show ?thesis
      unfolding left_at_def using u(1,4,5) ne n l m'
      by (intro exI [of _ used] exI [of _ "Suc (length used + length rest)"]) simp
  qed
qed

lemma get_table_cb_agree:
  assumes "table_at oth c0 m p"
  shows "agrees (\<lambda>s. s = 0) oth c0 (crsql_get_table_cb argv colv p) (get_table_cb_at argv colv m)"
proof -
  define need where "need = (if nRow p = 0 \<and> argv \<noteq> None then length colv * 2 else length colv)"
  have need: "(if tm_nRow m = 0 \<and> argv \<noteq> None then length colv * 2 else length colv) = need"
    using assms by (simp add: need_def table_at_def)
  let ?rest = "\<lambda>(ok, p). if \<not> ok then Some (malloc_failed p)
    else if nRow p \<noteq> 0 \<and> nColumn p \<noteq> length colv then
      Some (1, p\<lparr>zErrMsg := Some (''sqlite3_get_table() called with two or more '' @ ''incompatible queries''), tr_rc := SQLITE_ERROR\<rparr>)
    else copy_row argv p"
  have cb: "crsql_get_table_cb argv colv p = do {
      (ok, p) \<leftarrow> Some (reserve need p);
      if \<not> ok then Some (malloc_failed p) else Option.bind (copy_heading colv p) ?rest }"
    unfolding crsql_get_table_cb_def Let_def need_def [symmetric] by (simp add: case_prod_beta)
  let ?msg = "''sqlite3_get_table() called with two or more '' @ ''incompatible queries''"
  let ?rest_at = "\<lambda>(ok, m). if \<not> ok then Some (failed_at m)
    else if tm_nRow m \<noteq> 0 \<and> tm_nColumn m \<noteq> length colv then do {
      m \<leftarrow> free_in (tm_zErrMsg m) m;
      case try_malloc (Text ?msg) m of (z, m) \<Rightarrow> Some (1, m\<lparr>tm_zErrMsg := z, tm_rc := SQLITE_ERROR\<rparr>) }
    else copy_row_at argv m"
  have rest: "agrees (\<lambda>s. s = 0) oth c0 (?rest (ok, p)) (?rest_at (ok, m))" if "ok" "table_at oth c0 m p" for ok p m
  proof -
    obtain z m3 where z: "try_malloc (Text ?msg) m = (z, m3)" by fastforce
    have "free_in (tm_zErrMsg m) m = Some m" using that(2) by (simp add: table_at_def free_in_def sqlite3_free_def)
    moreover have "tm_nRow m = nRow p" "tm_nColumn m = nColumn p" using that(2) by (simp_all add: table_at_def)
    ultimately show ?thesis using that z message_left [OF that(2) z] copy_row_agree [OF that(2)]
      by (simp add: agrees_left)
  qed
  have heading: "agrees (\<lambda>s. s = 0) oth c0 (Option.bind (copy_heading colv p) ?rest) (Option.bind (copy_heading_at colv m) ?rest_at)"
    if "table_at oth c0 m p" for p m
    by (rule agrees_bind [OF copy_heading_agree [OF that]], rule rest) (simp_all add: failed_agree)
  show ?thesis unfolding cb get_table_cb_at_def Let_def need
    by (rule agrees_bind [OF reserve_agree [OF assms]]) (simp_all add: heading failed_agree)
qed

lemma low_byte_abort [simp]: "low_byte SQLITE_ABORT = SQLITE_ABORT"
  by (simp add: low_byte_def)

lemma exec_calls_agree:
  assumes "table_at oth c0 m p"
  shows "agrees (\<lambda>rc. low_byte rc \<noteq> SQLITE_ABORT) oth c0 (exec_calls calls rc p) (exec_calls_at calls rc m)"
  using assms
proof (induction calls arbitrary: m p)
  case Nil
  then show ?case by (simp add: agreesI)
next
  case (Cons call calls)
  obtain colv argv where call: "call = (colv, argv)" by (cases call)
  show ?case unfolding call exec_calls.simps exec_calls_at.simps
    by (rule agrees_bind [OF get_table_cb_agree [OF Cons.prems]])
      (simp_all add: Cons.IH agrees_left)
qed

section \<open>Releasing\<close>

lemma store_first:
  assumes "left_at oth c0 m"
  shows "\<exists>h'. store_cell 0 c1 m = Some (m\<lparr>tm_heap := h'\<rparr>) \<and> left_at oth c1 (m\<lparr>tm_heap := h'\<rparr>) \<and>
    (\<forall>p. table_at oth c0 m p \<longrightarrow> table_at oth c1 (m\<lparr>tm_heap := h'\<rparr>) p)"
proof -
  obtain used n where l: "array_at (tm_heap m) c0 (tm_azResult m) used n" "tm_nData m = Suc (length used)"
    "distinct (owned (tm_zErrMsg m # tm_azResult m # used))" "set (owned [tm_zErrMsg m]) \<subseteq> dom (live (tm_heap m))"
    "frame_at (tm_heap m) (tm_zErrMsg m # tm_azResult m # used) = oth"
    using assms by (auto simp: left_at_def)
  obtain az rest where a: "tm_azResult m = Some az" "live (tm_heap m) az = Some (Cells (c0 # map Str used @ rest))"
    using l(1) by (rule array_atE)
  let ?h = "(tm_heap m)[az := Some (Cells (c1 # map Str used @ rest))]"
  have h: "live ?h = (live (tm_heap m))(az \<mapsto> Cells (c1 # map Str used @ rest))" by (rule live_update) (simp add: a)
  have arr: "array_at ?h c1 (Some az) us k \<and> frame_at ?h (z # Some az # us) = frame_at (tm_heap m) (z # Some az # us) \<and>
      (\<forall>vs. list_all2 (str_at (tm_heap m)) us vs \<longrightarrow> list_all2 (str_at ?h) us vs)"
    if us: "array_at (tm_heap m) c0 (Some az) us k" for us k z
  proof -
    obtain rest' where u: "live (tm_heap m) az = Some (Cells (c0 # map Str us @ rest'))"
      "k = Suc (length us + length rest')" "az \<notin> set (owned us)" "distinct (owned us)" "set (owned us) \<subseteq> dom (live (tm_heap m))"
      using us by (elim array_atE) auto
    have same: "map Str used @ rest = map Str us @ rest'" using a(2) u(1) by simp
    have "array_at ?h c1 (Some az) us k" by (rule array_atI [OF _ u(2-4)]) (use h same u(5) in auto)
    moreover have "frame_at ?h (z # Some az # us) = frame_at (tm_heap m) (z # Some az # us)"
      unfolding frame_at_def h by (cases z) (auto simp: fun_eq_iff restrict_map_def)
    moreover have "list_all2 (str_at ?h) us vs" if "list_all2 (str_at (tm_heap m)) us vs" for vs
      by (rule str_at_frame [OF that]) (use h u(3) in auto)
    ultimately show ?thesis by blast
  qed
  have "store_cell 0 c1 m = Some (m\<lparr>tm_heap := ?h\<rparr>)" using store_cell_at [OF a] by simp
  moreover have "left_at oth c1 (m\<lparr>tm_heap := ?h\<rparr>)"
    using arr [of used n "tm_zErrMsg m"] l a(1) h unfolding left_at_def by (intro exI [of _ used] exI [of _ n]) auto
  moreover have "table_at oth c1 (m\<lparr>tm_heap := ?h\<rparr>) p" if t: "table_at oth c0 m p" for p
  proof -
    obtain us where "array_at (tm_heap m) c0 (Some az) us (nAlloc p)" "list_all2 (str_at (tm_heap m)) us (tl (azResult p))"
      "frame_at (tm_heap m) (Some az # us) = oth"
      using t a(1) by (auto simp: table_at_def)
    with arr [of us "nAlloc p" None] t a(1) show ?thesis by (auto simp: table_at_def frame_at_def)
  qed
  ultimately show ?thesis by blast
qed

lemma free_counted:
  assumes "array_at h (Num (Suc (length used))) p used n"
  shows "\<exists>h'. crsql_free_table p h = Some h' \<and> live h' = frame_at h (p # used)"
proof -
  obtain az rest where u: "p = Some az" "live h az = Some (Cells (Num (Suc (length used)) # map Str used @ rest))"
    "az \<notin> set (owned used)" "distinct (owned used)" "set (owned used) \<subseteq> dom (live h)"
    using assms by (rule array_atE)
  have used: "map (\<lambda>i. used ! (i - 1)) [1..<Suc (length used)] = used"
    by (rule nth_equalityI) (simp_all del: upt_Suc)
  have "each (free_cell p) [1..<Suc (length used)] h = each sqlite3_free (map (\<lambda>i. used ! (i - 1)) [1..<Suc (length used)]) h"
    by (rule heap.release_loaded [OF _ u(2)])
      (use u(1,3) used in \<open>auto simp: free_cell_def load_cell_def load_cells_def nth_append nth_Cons' simp del: upt_Suc\<close>)
  then have "each (free_cell p) [1..<Suc (length used)] h = each sqlite3_free used h" unfolding used .
  moreover obtain h1 where h1: "each sqlite3_free used h = Some h1" "live h1 = live h |` (- set (owned used))"
    using heap.release_each [OF u(4,5)] by blast
  moreover obtain h2 where "sqlite3_free (Some az) h1 = Some h2" "live h2 = (live h1)(az := None)"
    using heap.release_live [of h1 az] h1(2) u(2,3) by auto
  moreover have "load_cell p 0 h = Some (Num (Suc (length used)))"
    using u(1,2) by (simp add: load_cell_def load_cells_def)
  ultimately show ?thesis using u(1)
    by (auto simp: crsql_free_table_def frame_at_def fun_eq_iff restrict_map_def simp del: upt_Suc)
qed

lemma release_left:
  assumes "left_at oth (Num (tm_nData m)) m"
  shows "\<exists>h1 h2. crsql_free_table (tm_azResult m) (tm_heap m) = Some h1 \<and> sqlite3_free (tm_zErrMsg m) h1 = Some h2 \<and> live h2 = oth"
proof -
  obtain used n where l: "array_at (tm_heap m) (Num (Suc (length used))) (tm_azResult m) used n"
    "distinct (owned (tm_zErrMsg m # tm_azResult m # used))" "set (owned [tm_zErrMsg m]) \<subseteq> dom (live (tm_heap m))"
    "frame_at (tm_heap m) (tm_zErrMsg m # tm_azResult m # used) = oth"
    using assms by (auto simp: left_at_def)
  obtain h1 where h1: "crsql_free_table (tm_azResult m) (tm_heap m) = Some h1" "live h1 = frame_at (tm_heap m) (tm_azResult m # used)"
    using free_counted [OF l(1)] by blast
  show ?thesis
  proof (cases "tm_zErrMsg m")
    case None
    then show ?thesis using h1 l(4) by (simp add: heap.release_NULL frame_at_def)
  next
    case (Some z)
    then have "live h1 z \<noteq> None" using h1(2) l(2,3) by (auto simp: frame_at_def)
    from heap.release_live [OF this] obtain h2 where "sqlite3_free (Some z) h1 = Some h2" "live h2 = (live h1)(z := None)" by blast
    moreover have "(live h1)(z := None) = oth"
      unfolding h1(2) l(4) [symmetric] Some frame_at_def by (auto simp: fun_eq_iff restrict_map_def)
    ultimately show ?thesis using h1(1) Some by auto
  qed
qed

section \<open>Collecting and releasing a table\<close>

text \<open>A table as the caller gets it: exactly the cells for the names and values.\<close>

definition result_at :: "table_memory \<Rightarrow> ptr \<Rightarrow> string option list \<Rightarrow> bool" where
  "result_at h p zs \<longleftrightarrow>
     (\<exists>used. array_at h (Num (Suc (length zs))) p used (Suc (length zs)) \<and> list_all2 (str_at h) used zs)"

text \<open>What the pointers give agrees with what the lists give, and the memory can be balanced.\<close>

definition delivered :: "table_memory \<Rightarrow> (int \<times> table_result) option \<Rightarrow>
    (int \<times> ptr \<times> nat \<times> nat \<times> table_memory) option \<Rightarrow> bool" where
  "delivered h x y \<longleftrightarrow> (case x of None \<Rightarrow> y = None
     | Some (rc, t) \<Rightarrow> \<exists>p h1 h2. y = Some (rc, p, pnRow t, pnColumn t, h1) \<and>
         (case pazResult t of None \<Rightarrow> p = None \<and> live h1 = live h | Some zs \<Rightarrow> result_at h1 p zs) \<and>
         crsql_free_table p h1 = Some h2 \<and> live h2 = live h)"

lemma delivered_none: "live h1 = live h \<Longrightarrow> delivered h (Some (rc, no_table)) (Some (rc, None, 0, 0, h1))"
  by (simp add: delivered_def no_table_def crsql_free_table_def)

lemma delivered_table:
  assumes "table_at (live h) (Num (tm_nData m)) m p" and "nAlloc p = nData p"
  shows "delivered h (Some (rc, \<lparr>pazResult = Some (tl (azResult p)), pnRow = nRow p, pnColumn = nColumn p\<rparr>))
    (Some (rc, tm_azResult m, tm_nRow m, tm_nColumn m, tm_heap m))"
proof -
  have t: "tm_nData m = nData p" "tm_nRow m = nRow p" "tm_nColumn m = nColumn p" "azResult p \<noteq> []" "tm_zErrMsg m = None"
    using assms(1) by (simp_all add: table_at_def)
  then have n: "nData p = Suc (length (tl (azResult p)))" by (simp add: nData_def)
  then have "result_at (tm_heap m) (tm_azResult m) (tl (azResult p))"
    using assms t(1) by (auto simp: table_at_def result_at_def)
  moreover obtain h1 h2 where "crsql_free_table (tm_azResult m) (tm_heap m) = Some h1" "sqlite3_free (tm_zErrMsg m) h1 = Some h2"
    "live h2 = live h"
    using release_left [OF table_at_left [OF assms(1)]] by blast
  ultimately show ?thesis using t by (simp add: delivered_def heap.release_NULL)
qed

lemma finish_agree:
  assumes "left_at (live h) (Num (tm_nData m)) m" and "tm_rc m = tr_rc p"
    and "low_byte rc \<noteq> SQLITE_ABORT \<Longrightarrow> table_at (live h) (Num (tm_nData m)) m p"
  shows "delivered h (Some (finish_table rc p)) (finish_at rc m)"
proof -
  obtain h1 h2 where r: "crsql_free_table (tm_azResult m) (tm_heap m) = Some h1" "sqlite3_free (tm_zErrMsg m) h1 = Some h2"
    "live h2 = live h"
    using release_left [OF assms(1)] by blast
  show ?thesis
  proof (cases "low_byte rc = SQLITE_ABORT")
    case True
    then show ?thesis using r assms(2) by (cases "tm_zErrMsg m") (simp_all add: finish_table_def finish_at_def delivered_none heap.release_NULL)
  next
    case False
    then have t: "table_at (live h) (Num (tm_nData m)) m p" by (rule assms(3))
    then have f: "tm_zErrMsg m = None" "tm_nAlloc m = nAlloc p" "tm_nData m = nData p" by (simp_all add: table_at_def)
    have free: "free_in None m = Some m" by (simp add: free_in_def heap.release_NULL)
    have "h2 = h1" using r(2) f(1) by (simp add: heap.release_NULL)
    show ?thesis
    proof (cases "rc = SQLITE_OK \<and> nAlloc p > nData p")
      case False
      have "nAlloc p \<ge> nData p" using t by (rule table_atE) simp
      then show ?thesis using False \<open>low_byte rc \<noteq> SQLITE_ABORT\<close> r(1,3) \<open>h2 = h1\<close> f delivered_table [OF t]
        by (auto simp: finish_table_def finish_at_def free delivered_none)
    next
      case True
      obtain ok p' where a: "take_alloc p = (ok, p')" by fastforce
      obtain m' where m': "realloc_cells (nData p) (m\<lparr>tm_nAlloc := nAlloc p\<rparr>) = Some (ok, m'\<lparr>tm_nAlloc := nAlloc p\<rparr>)"
        "tm_nData m' = tm_nData m" "tm_zErrMsg m' = None" "left_at (live h) (Num (tm_nData m)) m'"
        "ok \<longrightarrow> table_at (live h) (Num (tm_nData m)) (m'\<lparr>tm_nAlloc := nData p\<rparr>) (p'\<lparr>nAlloc := nData p\<rparr>)"
        using realloc_agree [OF t a, of "nData p" "nAlloc p"] f(1) by auto
      have same: "m\<lparr>tm_nAlloc := nAlloc p\<rparr> = m" using f(2) by simp
      obtain h3 h4 where r': "crsql_free_table (tm_azResult m') (tm_heap m') = Some h3" "sqlite3_free (tm_zErrMsg m') h3 = Some h4"
        "live h4 = live h"
        using release_left [of "live h" m'] m'(2,4) by auto
      show ?thesis
      proof (cases ok)
        case ok: True
        then have "nData (p'\<lparr>nAlloc := nData p\<rparr>) = nData p" using take_alloc_same(5) [OF a] by (simp add: nData_def)
        moreover have "table_at (live h) (Num (tm_nData (m'\<lparr>tm_nAlloc := nData p\<rparr>))) (m'\<lparr>tm_nAlloc := nData p\<rparr>) (p'\<lparr>nAlloc := nData p\<rparr>)"
          using m'(2,5) ok by simp
        ultimately show ?thesis
          using True ok a f m'(1) [unfolded same] delivered_table [of h "m'\<lparr>tm_nAlloc := nData p\<rparr>" "p'\<lparr>nAlloc := nData p\<rparr>" 0]
          by (simp add: finish_table_def finish_at_def free low_byte_def)
      next
        case notok: False
        then show ?thesis
          using True a f m'(1) [unfolded same] m'(3) r' by (simp add: finish_table_def finish_at_def free low_byte_def delivered_none heap.release_NULL)
      qed
    qed
  qed
qed

text \<open>Collecting the result in pointers does what collecting it in a list does.\<close>

lemma get_table_delivered: "delivered h (crsql_get_table oks calls rc) (get_table_at oks calls rc h)"
proof -
  define p0 where "p0 = \<lparr>azResult = [None], zErrMsg = None, nAlloc = 20, nRow = 0, nColumn = 0, tr_rc = SQLITE_OK, mem = oks\<rparr>"
  define m0 where "m0 = \<lparr>tm_azResult = None, tm_zErrMsg = None, tm_nAlloc = 20, tm_nRow = 0, tm_nColumn = 0,
    tm_nData = 1, tm_rc = SQLITE_OK, tm_ok = oks, tm_heap = h\<rparr>"
  obtain ok p1 where a: "take_alloc p0 = (ok, p1)" by fastforce
  have "tm_ok m0 = mem p0" by (simp add: m0_def p0_def)
  note t = try_malloc_eq [OF this a]
  note unfold = crsql_get_table_def [of oks] get_table_at_def [of oks] p0_def [symmetric] m0_def [symmetric] Let_def
  have heap0: "tm_heap m0 = h" by (simp add: m0_def)
  show ?thesis
  proof (cases ok)
    case False
    then show ?thesis unfolding unfold using a t(2) delivered_none [of h h SQLITE_NOMEM] by (simp add: heap0)
  next
    case True
    obtain az h1 where m: "try_malloc (Cells (replicate 20 Unset)) m0 = (Some az, m0\<lparr>tm_ok := mem p1, tm_heap := h1\<rparr>)"
      "live h az = None" "live h1 = (live h)(az \<mapsto> Cells (replicate 20 Unset))"
      using t(3) [OF True, of "Cells (replicate 20 Unset)"] by (auto simp: m0_def)
    let ?m1 = "m0\<lparr>tm_ok := mem p1, tm_heap := h1, tm_azResult := Some az\<rparr>"
    have "array_at h1 Unset (Some az) [] 20"
      using m(3) by (intro array_atI [where rest = "replicate 19 Unset"]) (simp_all add: numeral_eq_Suc)
    moreover have "frame_at h1 (Some az # []) = live h"
      using m(2,3) by (auto simp: frame_at_def fun_eq_iff restrict_map_def)
    moreover have "p1 = p0\<lparr>mem := mem p1\<rparr>" by (rule t(1))
    then have "nAlloc p1 = 20" "nRow p1 = 0" "nColumn p1 = 0" "tr_rc p1 = SQLITE_OK" "azResult p1 = [None]"
      by (metis p0_def tab_result.select_convs tab_result.update_convs(7))+
    ultimately have tab: "table_at (live h) Unset ?m1 p1" by (simp add: table_at_def m0_def nData_def)
    obtain m2 where m2: "store_cell 0 (Str None) ?m1 = Some m2" "table_at (live h) (Str None) m2 p1"
      using store_first [OF table_at_left [OF tab], of "Str None"] tab by blast
    note ex = exec_calls_agree [OF m2(2), of calls rc]
    show ?thesis
    proof (cases "exec_calls calls rc p1")
      case None
      then have "exec_calls_at calls rc m2 = None" using ex by (simp add: agrees_def)
      with None show ?thesis unfolding unfold using a True m(1) m2(1) by (simp add: delivered_def)
    next
      case (Some rp)
      then obtain rc' p3 m3 where e: "exec_calls calls rc p1 = Some (rc', p3)" "exec_calls_at calls rc m2 = Some (rc', m3)"
        "tm_rc m3 = tr_rc p3" "left_at (live h) (Str None) m3"
        "low_byte rc' \<noteq> SQLITE_ABORT \<longrightarrow> table_at (live h) (Str None) m3 p3"
        using ex by (cases rp) (auto simp: agrees_def)
      obtain m4 where m4: "store_cell 0 (Num (tm_nData m3)) m3 = Some m4" "tm_nData m4 = tm_nData m3" "tm_rc m4 = tm_rc m3"
        "left_at (live h) (Num (tm_nData m3)) m4"
        "\<forall>p. table_at (live h) (Str None) m3 p \<longrightarrow> table_at (live h) (Num (tm_nData m3)) m4 p"
        using store_first [OF e(4), of "Num (tm_nData m3)"] by auto
      have fin: "left_at (live h) (Num (tm_nData m4)) m4" "tm_rc m4 = tr_rc p3"
        "low_byte rc' \<noteq> SQLITE_ABORT \<Longrightarrow> table_at (live h) (Num (tm_nData m4)) m4 p3"
        using m4 e(3,5) by simp_all
      show ?thesis unfolding unfold
        using finish_agree [OF fin(1,2), of rc', OF fin(3)] a True m(1) m2(1) e(1,2) m4(1) by simp
    qed
  qed
qed

text \<open>C27. Whatever statements SQLite runs, whichever allocations fail, and whatever code SQLite reports, the
  call is defined, writes only into memory it owns, and its pointers hold exactly what collecting in a list gives. A call
  without a table has released everything it had allocated, and releasing a table frees each of
  its blocks once and leaves the memory as it was before the call.\<close>

theorem get_table_memory_balanced:
  assumes "list_all call_ok calls"
  shows "\<exists>rc' t p h1 h2. crsql_get_table oks calls rc = Some (rc', t) \<and>
    get_table_at oks calls rc h = Some (rc', p, pnRow t, pnColumn t, h1) \<and>
    (case pazResult t of None \<Rightarrow> p = None \<and> live h1 = live h | Some zs \<Rightarrow> result_at h1 p zs) \<and>
    crsql_free_table p h1 = Some h2 \<and> live h2 = live h"
  using get_table_in_bounds [OF assms, of oks rc] get_table_delivered [of h oks calls rc]
  by (cases "crsql_get_table oks calls rc") (auto simp: delivered_def split: prod.splits)

text \<open>Two queries with different columns, the second of which has no rows, and an allocation that fails.\<close>

theorem get_table_memory_balanced_witness:
  "\<exists>rc' p n k h1 h2. get_table_at [True, True, False] (rows_of [''a'', ''b''] (replicate 30 [Some ''x'', None]) @ [([''c''], None)]) 0 [] =
    Some (rc', p, n, k, h1) \<and> crsql_free_table p h1 = Some h2 \<and> live h2 = live ([] :: table_memory)"
proof -
  have "list_all call_ok (rows_of [''a'', ''b''] (replicate 30 [Some ''x'', None]) @ [([''c''], None)])"
    by (simp add: list_all_iff call_ok_def)
  from get_table_memory_balanced [OF this, of "[True, True, False]" 0 "[]"] show ?thesis by blast
qed

end
